(* ===== verification/Kernel_Prelude.thy ===== *)
theory Kernel_Prelude
  imports Main "HOL-Library.Word" "HOL-Library.Monad_Syntax"
begin

text \<open>
  Shared vocabulary of the development: the C integer types the modules use, memory as
  partial functions from addresses, the errno values, and the generic lemmas on words,
  lists and options that the component theories build on.

  A computation that may commit an invalid memory access (a \<^verbatim>\<open>NULL\<close> or dangling
  dereference, a double free, a self-deadlock on a spinlock) or that may run forever has
  type \<open>'a option\<close>; \<open>None\<close> is that failure. Every C return code, error codes
  included, is an ordinary value inside \<open>Some\<close>.
\<close>

named_theorems heap_simps \<open>facts on allocation, release and dereference\<close>
named_theorems c_arith \<open>facts on fixed-width C arithmetic\<close>

section \<open>C types\<close>

type_synonym byte = "8 word"
type_synonym u32 = "32 word"
type_synonym u64 = "64 word"
type_synonym c_int = "32 word"
type_synonym c_long = "64 word"
type_synonym addr = nat
type_synonym 'r heap = "addr \<rightharpoonup> 'r"

text \<open>The errno values the modules return, as in the Linux uapi headers.\<close>

abbreviation (input) ENOENT :: int where "ENOENT \<equiv> 2"
abbreviation (input) ESRCH :: int where "ESRCH \<equiv> 3"
abbreviation (input) EBADF :: int where "EBADF \<equiv> 9"
abbreviation (input) EIO :: int where "EIO \<equiv> 5"
abbreviation (input) ENOEXEC :: int where "ENOEXEC \<equiv> 8"
abbreviation (input) ENOMEM :: int where "ENOMEM \<equiv> 12"
abbreviation (input) EINVAL :: int where "EINVAL \<equiv> 22"
abbreviation (input) EOVERFLOW :: int where "EOVERFLOW \<equiv> 75"

section \<open>Differences stored into an \<^verbatim>\<open>int64_t\<close>\<close>

text \<open>
  The three C expressions \<^verbatim>\<open>int64_t difference = a - b\<close> of the cache module. For
  \<^verbatim>\<open>unsigned int\<close> operands the subtraction wraps at 32 bits and the result is
  zero-extended; for \<^verbatim>\<open>unsigned long\<close> it wraps at 64 bits and is reinterpreted as
  signed; for \<^verbatim>\<open>long\<close> the kernel is built with wrapping signed arithmetic.
\<close>

definition difference_u32 :: "u32 \<Rightarrow> u32 \<Rightarrow> int" where
  "difference_u32 a b = uint (a - b)"

definition difference_u64 :: "u64 \<Rightarrow> u64 \<Rightarrow> int" where
  "difference_u64 a b = sint (a - b)"

definition difference_s64 :: "c_long \<Rightarrow> c_long \<Rightarrow> int" where
  "difference_s64 a b = sint (a - b)"

section \<open>Memory\<close>

text \<open>\<open>heap_free m a\<close> releases the object at \<open>a\<close>; releasing a dead address is a fault.\<close>

definition heap_free :: "'r heap \<Rightarrow> addr \<Rightarrow> 'r heap option" where
  "heap_free m a = (case m a of None \<Rightarrow> None | Some _ \<Rightarrow> Some (m(a := None)))"

section \<open>Lemmas on differences\<close>

lemma difference_u32_nonneg [simp]: "0 \<le> difference_u32 a b"
  by (simp add: difference_u32_def)

lemma difference_u32_not_neg [simp]: "\<not> difference_u32 a b < 0"
  by (simp add: not_less)

lemma difference_u32_eq_0 [simp]: "difference_u32 a b = 0 \<longleftrightarrow> a = b"
  by (simp add: difference_u32_def uint_0_iff)

lemma difference_u32_pos [simp]: "0 < difference_u32 a b \<longleftrightarrow> a \<noteq> b"
  using difference_u32_nonneg [of a b] difference_u32_eq_0 [of a b] by linarith

lemma sint_diff_no_wrap:
  fixes a b :: "64 word"
  assumes "- (2 ^ 63) \<le> sint a - sint b" and "sint a - sint b < 2 ^ 63"
  shows "sint (a - b) = sint a - sint b"
  using assms by (simp add: sint_word_ariths signed_take_bit_int_eq_self)

lemma difference_s64_nonneg [c_arith]:
  assumes "0 \<le> sint a" and "0 \<le> sint b"
  shows "difference_s64 a b = sint a - sint b"
proof -
  have "sint a < 2 ^ 63" and "sint b < 2 ^ 63"
    using sint_less [of a] sint_less [of b] by simp_all
  with assms show ?thesis
    unfolding difference_s64_def by (intro sint_diff_no_wrap) linarith+
qed

lemma sint_eq_uint_small:
  fixes a :: "64 word"
  assumes "uint a < 2 ^ 63"
  shows "sint a = uint a"
proof -
  have "- (2 ^ 63) \<le> (0 :: int)" by simp
  also have "0 \<le> uint a" by simp
  finally have "- (2 ^ 63) \<le> uint a" .
  with assms show ?thesis by (simp add: sint_uint signed_take_bit_int_eq_self)
qed

lemma difference_u64_small [c_arith]:
  assumes "uint a < 2 ^ 63" and "uint b < 2 ^ 63"
  shows "difference_u64 a b = uint a - uint b"
proof -
  have "sint (a - b) = sint a - sint b"
  proof (rule sint_diff_no_wrap)
    show "- (2 ^ 63) \<le> sint a - sint b" "sint a - sint b < 2 ^ 63"
      unfolding sint_eq_uint_small [OF assms(1)] sint_eq_uint_small [OF assms(2)]
      using assms uint_ge_0 [of a] uint_ge_0 [of b] by linarith+
  qed
  with assms show ?thesis by (simp add: difference_u64_def sint_eq_uint_small)
qed

lemma unat_of_nat_u64 [c_arith]: "n < 2 ^ 64 \<Longrightarrow> unat (of_nat n :: u64) = n"
  by (simp add: unat_of_nat take_bit_nat_eq_self)

section \<open>Lemmas on memory, lists and options\<close>

lemma heap_free_Some [heap_simps]: "m a = Some r \<Longrightarrow> heap_free m a = Some (m(a := None))"
  by (simp add: heap_free_def)

lemma heap_free_dead [heap_simps]: "m a = None \<Longrightarrow> heap_free m a = None"
  by (simp add: heap_free_def)

lemma sorted_wrt_less_distinct:
  fixes f :: "'a \<Rightarrow> 'b::linorder"
  shows "sorted_wrt (<) (map f xs) \<Longrightarrow> distinct xs"
  by (induction xs) auto

lemma sorted_wrt_less_inj:
  fixes f :: "'a \<Rightarrow> 'b::linorder"
  assumes "sorted_wrt (<) (map f xs)" and "x \<in> set xs" and "y \<in> set xs" and "f x = f y"
  shows "x = y"
  using assms by (induction xs) (auto dest: order.strict_implies_not_eq)

lemma sorted_wrt_remove1:
  "sorted_wrt P (map f xs) \<Longrightarrow> sorted_wrt P (map f (remove1 a xs))"
proof (induction xs)
  case (Cons x xs)
  then show ?case using set_remove1_subset [of a xs] by auto
qed simp

lemma find_cong_unique:
  assumes "x \<in> set xs" and "P x" and "\<And>y. y \<in> set xs \<Longrightarrow> P y \<Longrightarrow> y = x"
  shows "find P xs = Some x"
proof -
  have "find P xs = Some y \<Longrightarrow> y \<in> set xs \<and> P y" for y
    by (auto simp: find_Some_iff)
  moreover have "find P xs \<noteq> None"
    using assms(1,2) by (auto simp: find_None_iff)
  ultimately show ?thesis using assms(3) by blast
qed

lemma find_None_iff_ball: "find P xs = None \<longleftrightarrow> (\<forall>x\<in>set xs. \<not> P x)"
  by (simp add: find_None_iff) blast

lemma restrict_map_UNIV [simp]: "m |` UNIV = m"
  by (simp add: restrict_map_def)

lemma find_append:
  "find P (xs @ ys) = (case find P xs of None \<Rightarrow> find P ys | Some x \<Rightarrow> Some x)"
  by (induction xs) auto

lemma bind_eq_Some_conv':
  "Option.bind m f = Some y \<longleftrightarrow> (\<exists>x. m = Some x \<and> f x = Some y)"
  by (cases m) auto

end
