(* ===== verification/RB_Tree.thy ===== *)
theory RB_Tree
  imports Kernel_Prelude "HOL-Library.Tree"
begin

text \<open>
  The generic red-black tree macros of
  \<^verbatim>\<open>RedBlack_Cache_LRU_Implementation_Kernel/include/cache.h\<close> (lines 24 to 98):
  \<open>RB_INSERT\<close>, \<open>RB_SEARCH\<close>, \<open>RB_REMOVE\<close>, \<open>RB_REPLACE\<close>, \<open>RB_FIRST\<close>, \<open>RB_LAST\<close>,
  \<open>RB_NEXT\<close>, \<open>RB_PREV\<close>. A tree \<open>struct rb_root\<close> is a \<open>tree\<close> of the addresses of
  the records that embed the nodes; a record and its embedded node share an address.

  The kernel's own \<^verbatim>\<open>lib/rbtree.c\<close> is not part of the repository. Its functions are
  the fields of the record \<open>rb_lib\<close>, an argument of every macro that calls them, and
  \<open>rb_lib_ok\<close> states their documented behaviour: rebalancing keeps the in-order
  sequence, erasing removes one node from it, and so on. Node colours never reach the
  callers and have no counterpart here.

  The locale \<open>rb_order\<close> is the contract between the macros and a comparison function:
  what a comparator has to guarantee for searches and insertions to be right. The cache
  interprets it on its four comparison functions.
\<close>

section \<open>Kernel red-black tree library, as a parameter\<close>

datatype rb_dir = Rb_left | Rb_right

record rb_lib =
  rb_link_node :: "addr \<Rightarrow> rb_dir list \<Rightarrow> addr tree \<Rightarrow> addr tree"
  rb_insert_color :: "addr \<Rightarrow> addr tree \<Rightarrow> addr tree"
  rb_erase :: "addr \<Rightarrow> addr tree \<Rightarrow> addr tree"
  rb_replace_node :: "addr \<Rightarrow> addr \<Rightarrow> addr tree \<Rightarrow> addr tree"
  rb_first :: "addr tree \<Rightarrow> addr option"
  rb_last :: "addr tree \<Rightarrow> addr option"
  rb_next :: "addr \<Rightarrow> addr tree \<Rightarrow> addr option"
  rb_prev :: "addr \<Rightarrow> addr tree \<Rightarrow> addr option"

text \<open>The child slot (a \<^verbatim>\<open>struct rb_node **\<close>) reached by a path, and writing to it.\<close>

fun slot_at :: "rb_dir list \<Rightarrow> 'n tree \<Rightarrow> 'n tree option" where
  "slot_at [] t = Some t"
| "slot_at (d # p) \<langle>\<rangle> = None"
| "slot_at (Rb_left # p) \<langle>l, n, r\<rangle> = slot_at p l"
| "slot_at (Rb_right # p) \<langle>l, n, r\<rangle> = slot_at p r"

fun set_slot :: "rb_dir list \<Rightarrow> 'n tree \<Rightarrow> 'n tree \<Rightarrow> 'n tree" where
  "set_slot [] u t = u"
| "set_slot (d # p) u \<langle>\<rangle> = \<langle>\<rangle>"
| "set_slot (Rb_left # p) u \<langle>l, n, r\<rangle> = \<langle>set_slot p u l, n, r\<rangle>"
| "set_slot (Rb_right # p) u \<langle>l, n, r\<rangle> = \<langle>l, n, set_slot p u r\<rangle>"

definition list_head :: "'a list \<Rightarrow> 'a option" where
  "list_head xs = (case xs of [] \<Rightarrow> None | x # _ \<Rightarrow> Some x)"

definition rb_lib_ok :: "rb_lib \<Rightarrow> bool" where
  "rb_lib_ok L \<longleftrightarrow>
     (\<forall>a p t. slot_at p t = Some \<langle>\<rangle> \<longrightarrow> rb_link_node L a p t = set_slot p \<langle>\<langle>\<rangle>, a, \<langle>\<rangle>\<rangle> t) \<and>
     (\<forall>a t. distinct (inorder t) \<longrightarrow> a \<in> set (inorder t) \<longrightarrow>
        inorder (rb_insert_color L a t) = inorder t) \<and>
     (\<forall>a t. distinct (inorder t) \<longrightarrow> a \<in> set (inorder t) \<longrightarrow>
        inorder (rb_erase L a t) = remove1 a (inorder t)) \<and>
     (\<forall>a b t. distinct (inorder t) \<longrightarrow> a \<in> set (inorder t) \<longrightarrow> b \<notin> set (inorder t) \<longrightarrow>
        inorder (rb_replace_node L a b t) = map (\<lambda>x. if x = a then b else x) (inorder t)) \<and>
     (\<forall>t. rb_first L t = list_head (inorder t)) \<and>
     (\<forall>t. rb_last L t = list_head (rev (inorder t))) \<and>
     (\<forall>a t xs ys. distinct (inorder t) \<longrightarrow> inorder t = xs @ a # ys \<longrightarrow>
        rb_next L a t = list_head ys \<and> rb_prev L a t = list_head (rev xs))"

section \<open>The macros of \<^verbatim>\<open>cache.h\<close>\<close>

definition container_of_or_null :: "addr option \<Rightarrow> addr option" where
  "container_of_or_null ptr = (case ptr of None \<Rightarrow> None | Some n \<Rightarrow> Some n)"

text \<open>
  The descent of \<open>RB_INSERT\<close>: \<open>c this\<close> is \<^verbatim>\<open>cmp(new, this)\<close>, \<open>None\<close> when it reads
  a dead record. The result is \<^verbatim>\<open>goto dup\<close> or the slot where the loop ended.
\<close>

datatype rb_slot = Dup | Slot "rb_dir list"

fun step_dir :: "rb_dir \<Rightarrow> rb_slot \<Rightarrow> rb_slot" where
  "step_dir d Dup = Dup"
| "step_dir d (Slot p) = Slot (d # p)"

fun RB_INSERT_walk :: "(addr \<Rightarrow> int option) \<Rightarrow> addr tree \<Rightarrow> rb_slot option" where
  "RB_INSERT_walk c \<langle>\<rangle> = Some (Slot [])"
| "RB_INSERT_walk c \<langle>l, n, r\<rangle> = do {
     res \<leftarrow> c n;
     if res = 0 then Some Dup
     else if res < 0 then map_option (step_dir Rb_left) (RB_INSERT_walk c l)
     else map_option (step_dir Rb_right) (RB_INSERT_walk c r) }"

definition RB_INSERT ::
    "rb_lib \<Rightarrow> addr tree \<Rightarrow> addr \<Rightarrow> (addr \<Rightarrow> int option) \<Rightarrow> (int \<times> addr tree) option" where
  "RB_INSERT L root new c = do {
     w \<leftarrow> RB_INSERT_walk c root;
     case w of
       Dup \<Rightarrow> Some (-1, root)
     | Slot n \<Rightarrow> Some (0, rb_insert_color L new (rb_link_node L new n root)) }"

text \<open>
  \<open>RB_SEARCH\<close> leaves \<^verbatim>\<open>search_record\<close> at \<^verbatim>\<open>NULL\<close>, its initial value at every
  use, when the descent falls off the tree.
\<close>

fun RB_SEARCH :: "addr tree \<Rightarrow> (addr \<Rightarrow> int option) \<Rightarrow> addr option option" where
  "RB_SEARCH \<langle>\<rangle> c = Some None"
| "RB_SEARCH \<langle>l, n, r\<rangle> c = do {
     res \<leftarrow> c n;
     if res = 0 then Some (Some n)
     else if res < 0 then RB_SEARCH l c else RB_SEARCH r c }"

text \<open>Erasing or replacing a node that is not in the tree corrupts it: a fault.\<close>

definition RB_REMOVE :: "rb_lib \<Rightarrow> addr tree \<Rightarrow> addr \<Rightarrow> addr tree option" where
  "RB_REMOVE L root a = (if a \<in> set (inorder root) then Some (rb_erase L a root) else None)"

definition RB_REPLACE :: "rb_lib \<Rightarrow> addr tree \<Rightarrow> addr \<Rightarrow> addr \<Rightarrow> addr tree option" where
  "RB_REPLACE L root old new =
     (if old \<in> set (inorder root) \<and> new \<notin> set (inorder root)
      then Some (rb_replace_node L old new root) else None)"

definition RB_EMPTY_ROOT :: "addr tree \<Rightarrow> bool" where
  "RB_EMPTY_ROOT root \<longleftrightarrow> root = \<langle>\<rangle>"

definition RB_FIRST :: "rb_lib \<Rightarrow> addr tree \<Rightarrow> addr option" where
  "RB_FIRST L root = container_of_or_null (rb_first L root)"

definition RB_LAST :: "rb_lib \<Rightarrow> addr tree \<Rightarrow> addr option" where
  "RB_LAST L root = container_of_or_null (rb_last L root)"

definition RB_NEXT :: "rb_lib \<Rightarrow> addr tree \<Rightarrow> addr \<Rightarrow> addr option" where
  "RB_NEXT L root ptr = container_of_or_null (rb_next L ptr root)"

definition RB_PREV :: "rb_lib \<Rightarrow> addr tree \<Rightarrow> addr \<Rightarrow> addr option" where
  "RB_PREV L root ptr = container_of_or_null (rb_prev L ptr root)"

section \<open>Consequences of the library contract\<close>

text \<open>Trees are viewed through their in-order sequence only.\<close>

declare set_inorder [simp del]

lemma container_of_or_null_id [simp]: "container_of_or_null p = p"
  by (simp add: container_of_or_null_def split: option.split)

lemma list_head_simps [simp]: "list_head [] = None" "list_head (x # xs) = Some x"
  by (simp_all add: list_head_def)

lemma list_head_eq_None [simp]: "list_head xs = None \<longleftrightarrow> xs = []"
  by (cases xs) simp_all

lemma inorder_eq_Nil [simp]: "inorder t = [] \<longleftrightarrow> t = \<langle>\<rangle>"
  by (cases t) simp_all

lemma RB_FIRST_inorder: "rb_lib_ok L \<Longrightarrow> RB_FIRST L t = list_head (inorder t)"
  by (simp add: rb_lib_ok_def RB_FIRST_def)

lemma RB_LAST_inorder: "rb_lib_ok L \<Longrightarrow> RB_LAST L t = list_head (rev (inorder t))"
  by (simp add: rb_lib_ok_def RB_LAST_def)

lemma RB_NEXT_inorder:
  "rb_lib_ok L \<Longrightarrow> distinct (inorder t) \<Longrightarrow> inorder t = xs @ a # ys \<Longrightarrow>
     RB_NEXT L t a = list_head ys"
  unfolding rb_lib_ok_def RB_NEXT_def by simp

lemma RB_PREV_inorder:
  "rb_lib_ok L \<Longrightarrow> distinct (inorder t) \<Longrightarrow> inorder t = xs @ a # ys \<Longrightarrow>
     RB_PREV L t a = list_head (rev xs)"
  unfolding rb_lib_ok_def RB_PREV_def by simp

lemma inorder_rb_erase:
  "rb_lib_ok L \<Longrightarrow> distinct (inorder t) \<Longrightarrow> a \<in> set (inorder t) \<Longrightarrow>
     inorder (rb_erase L a t) = remove1 a (inorder t)"
  by (simp add: rb_lib_ok_def)

lemma inorder_rb_replace:
  "rb_lib_ok L \<Longrightarrow> distinct (inorder t) \<Longrightarrow> a \<in> set (inorder t) \<Longrightarrow> b \<notin> set (inorder t) \<Longrightarrow>
     inorder (rb_replace_node L a b t) = map (\<lambda>x. if x = a then b else x) (inorder t)"
  by (simp add: rb_lib_ok_def)

lemma RB_REMOVE_member:
  "a \<in> set (inorder t) \<Longrightarrow> RB_REMOVE L t a = Some (rb_erase L a t)"
  by (simp add: RB_REMOVE_def)

text \<open>Writing a leaf node into an empty slot inserts it into the in-order sequence.\<close>

lemma inorder_set_slot:
  assumes "slot_at p t = Some \<langle>\<rangle>"
  shows "\<exists>xs ys. inorder t = xs @ ys \<and> inorder (set_slot p \<langle>\<langle>\<rangle>, a, \<langle>\<rangle>\<rangle> t) = xs @ a # ys"
  using assms
proof (induction p t rule: slot_at.induct)
  case (3 p l n r)
  then obtain xs ys where "inorder l = xs @ ys"
    and "inorder (set_slot p \<langle>\<langle>\<rangle>, a, \<langle>\<rangle>\<rangle> l) = xs @ a # ys" by auto
  then show ?case
    by (intro exI [of _ xs] exI [of _ "ys @ n # inorder r"]) simp
next
  case (4 p l n r)
  then obtain xs ys where "inorder r = xs @ ys"
    and "inorder (set_slot p \<langle>\<langle>\<rangle>, a, \<langle>\<rangle>\<rangle> r) = xs @ a # ys" by auto
  then show ?case
    by (intro exI [of _ "inorder l @ n # xs"] exI [of _ ys]) simp
qed auto

section \<open>Search and insertion on a tree ordered by rank\<close>

text \<open>
  \<open>rank\<close> orders the nodes; the comparator agrees with it against the sought rank \<open>k\<close>
  wherever they differ. Two nodes never have the same rank, so nothing is required of the
  comparator on the node whose rank is \<open>k\<close>: this is how the cache can order its tree by
  two fields and search it by three.
\<close>

definition cmp_agrees :: "(addr \<Rightarrow> int option) \<Rightarrow> int \<Rightarrow> (addr \<Rightarrow> int) \<Rightarrow> addr set \<Rightarrow> bool" where
  "cmp_agrees c k rank A \<longleftrightarrow>
     (\<forall>n\<in>A. \<exists>v. c n = Some v \<and> (k < rank n \<longrightarrow> v < 0) \<and> (rank n < k \<longrightarrow> 0 < v))"

definition ordered_by :: "(addr \<Rightarrow> int) \<Rightarrow> addr tree \<Rightarrow> bool" where
  "ordered_by rank t \<longleftrightarrow> sorted_wrt (<) (map rank (inorder t))"

lemma ordered_by_distinct: "ordered_by rank t \<Longrightarrow> distinct (inorder t)"
  by (auto simp: ordered_by_def dest: sorted_wrt_less_distinct)

lemma ordered_by_Node [simp]:
  "ordered_by rank \<langle>l, n, r\<rangle> \<longleftrightarrow>
     ordered_by rank l \<and> ordered_by rank r \<and>
     (\<forall>x\<in>set (inorder l). rank x < rank n) \<and> (\<forall>y\<in>set (inorder r). rank n < rank y)"
  by (auto simp: ordered_by_def sorted_wrt_append) (meson order.strict_trans)

lemma ordered_by_Leaf [simp]: "ordered_by rank \<langle>\<rangle>"
  by (simp add: ordered_by_def)

lemma cmp_agrees_Un [simp]:
  "cmp_agrees c k rank (A \<union> B) \<longleftrightarrow> cmp_agrees c k rank A \<and> cmp_agrees c k rank B"
  by (auto simp: cmp_agrees_def)

lemma cmp_agrees_insert [simp]:
  "cmp_agrees c k rank (insert n A) \<longleftrightarrow>
     (\<exists>v. c n = Some v \<and> (k < rank n \<longrightarrow> v < 0) \<and> (rank n < k \<longrightarrow> 0 < v)) \<and>
     cmp_agrees c k rank A"
  by (auto simp: cmp_agrees_def)

lemma cmp_agrees_zero_rank:
  "cmp_agrees c k rank A \<Longrightarrow> n \<in> A \<Longrightarrow> c n = Some 0 \<Longrightarrow> rank n = k"
  unfolding cmp_agrees_def by (metis linorder_neqE_linordered_idom option.inject order_less_irrefl)

lemma RB_SEARCH_find:
  assumes "ordered_by rank t" and "cmp_agrees c k rank (set (inorder t))"
  shows "RB_SEARCH t c = Some (find (\<lambda>n. c n = Some 0) (inorder t))"
  using assms
proof (induction t)
  case (Node l n r)
  then obtain v where v: "c n = Some v" "k < rank n \<longrightarrow> v < 0" "rank n < k \<longrightarrow> 0 < v"
    by auto
  have l0: "find (\<lambda>n. c n = Some 0) (inorder l) = None" if "rank n \<le> k"
    using that Node.prems cmp_agrees_zero_rank [of c k rank "set (inorder l)"]
    by (fastforce simp: find_None_iff_ball)
  have r0: "find (\<lambda>n. c n = Some 0) (inorder r) = None" if "k \<le> rank n"
    using that Node.prems cmp_agrees_zero_rank [of c k rank "set (inorder r)"]
    by (fastforce simp: find_None_iff_ball)
  show ?case
  proof (cases v "0 :: int" rule: linorder_cases)
    case less
    then have "k \<le> rank n" using v by linarith
    then show ?thesis using less v(1) Node r0
      by (simp add: find_append split: option.split)
  next
    case equal
    then have "rank n = k" using v by linarith
    then show ?thesis using equal v(1) l0 by (simp add: find_append)
  next
    case greater
    then have "rank n \<le> k" using v by linarith
    then show ?thesis using greater v(1) Node l0 by (simp add: find_append)
  qed
qed simp

lemma RB_INSERT_walk_dup:
  assumes "ordered_by rank t" and "cmp_agrees c k rank (set (inorder t))"
    and "n \<in> set (inorder t)" and "rank n = k" and "c n = Some 0"
  shows "RB_INSERT_walk c t = Some Dup"
  using assms
proof (induction t)
  case (Node l x r)
  then obtain v where v: "c x = Some v" "k < rank x \<longrightarrow> v < 0" "rank x < k \<longrightarrow> 0 < v"
    by auto
  consider "n = x" | "n \<in> set (inorder l)" "rank n < rank x" | "n \<in> set (inorder r)" "rank x < rank n"
    using Node.prems by auto
  then show ?case
  proof cases
    case 1 then show ?thesis using Node.prems by simp
  next
    case 2 then show ?thesis using Node v by simp
  next
    case 3 then show ?thesis using Node v by simp
  qed
qed simp

lemma RB_INSERT_walk_slot:
  assumes "ordered_by rank t" and "cmp_agrees c (rank a) rank (set (inorder t))"
    and "\<forall>n\<in>set (inorder t). rank n \<noteq> rank a"
  shows "\<exists>p. RB_INSERT_walk c t = Some (Slot p) \<and> slot_at p t = Some \<langle>\<rangle> \<and>
           ordered_by rank (set_slot p \<langle>\<langle>\<rangle>, a, \<langle>\<rangle>\<rangle> t) \<and>
           set (inorder (set_slot p \<langle>\<langle>\<rangle>, a, \<langle>\<rangle>\<rangle> t)) = insert a (set (inorder t))"
  using assms
proof (induction t)
  case (Node l x r)
  then obtain v where v: "c x = Some v" "rank a < rank x \<longrightarrow> v < 0" "rank x < rank a \<longrightarrow> 0 < v"
    by auto
  show ?case
  proof (cases "rank a < rank x")
    case True
    obtain p where "RB_INSERT_walk c l = Some (Slot p)" "slot_at p l = Some \<langle>\<rangle>"
      "ordered_by rank (set_slot p \<langle>\<langle>\<rangle>, a, \<langle>\<rangle>\<rangle> l)"
      "set (inorder (set_slot p \<langle>\<langle>\<rangle>, a, \<langle>\<rangle>\<rangle> l)) = insert a (set (inorder l))"
      using Node.IH(1) Node.prems by auto
    then show ?thesis using True v Node.prems by (intro exI [of _ "Rb_left # p"]) auto
  next
    case False
    then have gt: "rank x < rank a" using Node.prems(3) by fastforce
    obtain p where "RB_INSERT_walk c r = Some (Slot p)" "slot_at p r = Some \<langle>\<rangle>"
      "ordered_by rank (set_slot p \<langle>\<langle>\<rangle>, a, \<langle>\<rangle>\<rangle> r)"
      "set (inorder (set_slot p \<langle>\<langle>\<rangle>, a, \<langle>\<rangle>\<rangle> r)) = insert a (set (inorder r))"
      using Node.IH(2) Node.prems by auto
    then show ?thesis using gt v Node.prems by (intro exI [of _ "Rb_right # p"]) auto
  qed
qed (simp add: ordered_by_def)

lemma RB_INSERT_new:
  assumes "rb_lib_ok L" and "ordered_by rank t" and "cmp_agrees c (rank a) rank (set (inorder t))"
    and "\<forall>n\<in>set (inorder t). rank n \<noteq> rank a"
  shows "\<exists>t'. RB_INSERT L t a c = Some (0, t') \<and> ordered_by rank t' \<and>
           set (inorder t') = insert a (set (inorder t))"
proof -
  obtain p where p: "RB_INSERT_walk c t = Some (Slot p)" "slot_at p t = Some \<langle>\<rangle>"
    and o: "ordered_by rank (set_slot p \<langle>\<langle>\<rangle>, a, \<langle>\<rangle>\<rangle> t)"
    and s: "set (inorder (set_slot p \<langle>\<langle>\<rangle>, a, \<langle>\<rangle>\<rangle> t)) = insert a (set (inorder t))"
    using RB_INSERT_walk_slot [OF assms(2-4)] by auto
  define u where "u = set_slot p \<langle>\<langle>\<rangle>, a, \<langle>\<rangle>\<rangle> t"
  have link: "rb_link_node L a p t = u"
    using assms(1) p(2) by (simp add: rb_lib_ok_def u_def)
  have "inorder (rb_insert_color L a u) = inorder u"
    using assms(1) ordered_by_distinct [OF o] s by (simp add: rb_lib_ok_def u_def)
  then show ?thesis
    using o s p(1) link by (simp add: RB_INSERT_def ordered_by_def u_def)
qed

lemma RB_INSERT_dup:
  assumes "ordered_by rank t" and "cmp_agrees c k rank (set (inorder t))"
    and "n \<in> set (inorder t)" and "rank n = k" and "c n = Some 0"
  shows "RB_INSERT L t a c = Some (-1, t)"
  using RB_INSERT_walk_dup [OF assms] by (simp add: RB_INSERT_def)

section \<open>Tables: a tree of live records ordered by a rank\<close>

definition node_table :: "'r heap \<Rightarrow> ('r \<Rightarrow> bool) \<Rightarrow> ('r \<Rightarrow> int) \<Rightarrow> addr tree \<Rightarrow> bool" where
  "node_table m rdom rank t \<longleftrightarrow>
     (\<forall>n\<in>set (inorder t). \<exists>r. m n = Some r \<and> rdom r) \<and> ordered_by (\<lambda>n. rank (the (m n))) t"

text \<open>The records a tree holds.\<close>

definition recs :: "'r heap \<Rightarrow> addr tree \<Rightarrow> 'r set" where
  "recs m t = (\<lambda>n. the (m n)) ` set (inorder t)"

lemma node_table_distinct: "node_table m rdom rank t \<Longrightarrow> distinct (inorder t)"
  by (auto simp: node_table_def dest: ordered_by_distinct)

lemma node_table_live:
  "node_table m rdom rank t \<Longrightarrow> n \<in> set (inorder t) \<Longrightarrow> \<exists>r. m n = Some r \<and> rdom r"
  by (simp add: node_table_def)

lemma node_table_Leaf [simp]: "node_table m rdom rank \<langle>\<rangle>"
  by (simp add: node_table_def)

lemma recs_Leaf [simp]: "recs m \<langle>\<rangle> = {}"
  by (simp add: recs_def)

lemma node_table_inj:
  assumes "node_table m rdom rank t" and "x \<in> set (inorder t)" and "y \<in> set (inorder t)"
    and "rank (the (m x)) = rank (the (m y))"
  shows "x = y"
  using assms sorted_wrt_less_inj [of "\<lambda>n. rank (the (m n))" "inorder t" x y]
  by (simp add: node_table_def ordered_by_def)

lemma recs_rank_inj:
  assumes "node_table m rdom rank t" and "r \<in> recs m t" and "r' \<in> recs m t" and "rank r = rank r'"
  shows "r = r'"
  using assms node_table_inj [OF assms(1)] by (auto simp: recs_def)

lemma recs_rdom: "node_table m rdom rank t \<Longrightarrow> r \<in> recs m t \<Longrightarrow> rdom r"
  by (auto simp: recs_def dest!: node_table_live)

text \<open>A table only depends on the records of its own nodes.\<close>

lemma ordered_by_cong:
  "(\<And>n. n \<in> set (inorder t) \<Longrightarrow> f n = g n) \<Longrightarrow> ordered_by f t = ordered_by g t"
  by (simp add: ordered_by_def cong: map_cong)

lemma node_table_cong:
  assumes "\<And>n. n \<in> set (inorder t) \<Longrightarrow> m n = m' n"
  shows "node_table m rdom rank t = node_table m' rdom rank t"
  using assms ordered_by_cong [of t "\<lambda>n. rank (the (m n))" "\<lambda>n. rank (the (m' n))"]
  by (simp add: node_table_def)

lemma node_table_upd_other [simp]:
  "a \<notin> set (inorder t) \<Longrightarrow> node_table (m(a := v)) rdom rank t = node_table m rdom rank t"
  by (rule node_table_cong) auto

lemma recs_upd_other [simp]: "a \<notin> set (inorder t) \<Longrightarrow> recs (m(a := v)) t = recs m t"
  by (auto simp: recs_def intro!: image_cong)

text \<open>Erasing a node and freeing its record removes exactly that record.\<close>

lemma erase_table:
  assumes L: "rb_lib_ok L" and T: "node_table m rdom rank t" and a: "a \<in> set (inorder t)"
  shows "inorder (rb_erase L a t) = remove1 a (inorder t)"
    and "set (inorder (rb_erase L a t)) = set (inorder t) - {a}"
    and "node_table (m(a := None)) rdom rank (rb_erase L a t)"
    and "recs (m(a := None)) (rb_erase L a t) = recs m t - {the (m a)}"
proof -
  have d: "distinct (inorder t)" using T by (rule node_table_distinct)
  show i: "inorder (rb_erase L a t) = remove1 a (inorder t)"
    using L d a by (rule inorder_rb_erase)
  then show s: "set (inorder (rb_erase L a t)) = set (inorder t) - {a}"
    using d by (simp add: set_remove1_eq)
  have "node_table m rdom rank (rb_erase L a t)"
    using T s i by (auto simp: node_table_def ordered_by_def sorted_wrt_remove1)
  then show "node_table (m(a := None)) rdom rank (rb_erase L a t)"
    using s by simp
  have "recs m (rb_erase L a t) = recs m t - {the (m a)}"
    using s a node_table_inj [OF T] by (auto simp: recs_def)
  then show "recs (m(a := None)) (rb_erase L a t) = recs m t - {the (m a)}"
    using s by simp
qed

text \<open>Replacing a node by one of the same rank keeps the order.\<close>

lemma replace_table:
  assumes L: "rb_lib_ok L" and T: "node_table m rdom rank t" and a: "a \<in> set (inorder t)"
    and b: "b \<notin> set (inorder t)" "m b = Some r" "rdom r" and rk: "rank r = rank (the (m a))"
  shows "set (inorder (rb_replace_node L a b t)) = insert b (set (inorder t) - {a})"
    and "node_table m rdom rank (rb_replace_node L a b t)"
    and "recs m (rb_replace_node L a b t) = insert r (recs m t - {the (m a)})"
proof -
  have d: "distinct (inorder t)" using T by (rule node_table_distinct)
  have i: "inorder (rb_replace_node L a b t) = map (\<lambda>x. if x = a then b else x) (inorder t)"
    using L d a b(1) by (rule inorder_rb_replace)
  then show s: "set (inorder (rb_replace_node L a b t)) = insert b (set (inorder t) - {a})"
    using a by auto
  have "map (\<lambda>n. rank (the (m n))) (inorder (rb_replace_node L a b t)) =
        map (\<lambda>n. rank (the (m n))) (inorder t)"
    using b rk by (simp add: i)
  then show "node_table m rdom rank (rb_replace_node L a b t)"
    using T s b by (auto simp: node_table_def ordered_by_def)
  show "recs m (rb_replace_node L a b t) = insert r (recs m t - {the (m a)})"
    using s a b(2) node_table_inj [OF T] by (auto simp: recs_def)
qed

section \<open>What holds without any order\<close>

text \<open>
  When every node can be compared, a search ends at a node of the tree or outside, and an
  insertion either finds a duplicate or adds one node, whatever the comparison answers.
\<close>

lemma RB_SEARCH_member:
  "RB_SEARCH t c = Some (Some a) \<Longrightarrow> a \<in> set (inorder t)"
  by (induction t) (auto split: Option.bind_splits if_splits)

lemma RB_SEARCH_total:
  "\<forall>n\<in>set (inorder t). c n \<noteq> None \<Longrightarrow> \<exists>found. RB_SEARCH t c = Some found"
  by (induction t) auto

lemma RB_INSERT_walk_total:
  "\<forall>n\<in>set (inorder t). c n \<noteq> None \<Longrightarrow>
     RB_INSERT_walk c t = Some Dup \<or> (\<exists>p. RB_INSERT_walk c t = Some (Slot p) \<and> slot_at p t = Some \<langle>\<rangle>)"
proof (induction t)
  case (Node l x r)
  then obtain v where v: "c x = Some v" by auto
  have "RB_INSERT_walk c l = Some Dup \<or> (\<exists>p. RB_INSERT_walk c l = Some (Slot p) \<and> slot_at p l = Some \<langle>\<rangle>)"
    and "RB_INSERT_walk c r = Some Dup \<or> (\<exists>p. RB_INSERT_walk c r = Some (Slot p) \<and> slot_at p r = Some \<langle>\<rangle>)"
    using Node by auto
  with v show ?case by auto
qed simp

lemma RB_INSERT_total:
  assumes "rb_lib_ok L" and "distinct (inorder t)" and "a \<notin> set (inorder t)"
    and "\<forall>n\<in>set (inorder t). c n \<noteq> None"
  shows "RB_INSERT L t a c = Some (-1, t) \<or>
     (\<exists>t'. RB_INSERT L t a c = Some (0, t') \<and> distinct (inorder t') \<and>
           set (inorder t') = insert a (set (inorder t)))"
  using RB_INSERT_walk_total [OF assms(4)]
proof (elim disjE exE conjE)
  fix p
  assume w: "RB_INSERT_walk c t = Some (Slot p)" and p: "slot_at p t = Some \<langle>\<rangle>"
  define u where "u = set_slot p \<langle>\<langle>\<rangle>, a, \<langle>\<rangle>\<rangle> t"
  obtain xs ys where "inorder t = xs @ ys" "inorder u = xs @ a # ys"
    using inorder_set_slot [OF p, of a] unfolding u_def by blast
  then have u: "distinct (inorder u)" "set (inorder u) = insert a (set (inorder t))"
    using assms(2,3) by auto
  moreover have "rb_link_node L a p t = u" using assms(1) p by (simp add: rb_lib_ok_def u_def)
  moreover have "inorder (rb_insert_color L a u) = inorder u" using assms(1) u by (simp add: rb_lib_ok_def)
  ultimately show ?thesis using w by (simp add: RB_INSERT_def)
qed (simp add: RB_INSERT_def)

section \<open>What a comparator has to guarantee\<close>

locale rb_order =
  fixes cmp :: "'k \<Rightarrow> 'r \<Rightarrow> int"
    and krank :: "'k \<Rightarrow> int" and rrank :: "'r \<Rightarrow> int"
    and kdom :: "'k \<Rightarrow> bool" and rdom :: "'r \<Rightarrow> bool"
  assumes cmp_less: "kdom k \<Longrightarrow> rdom r \<Longrightarrow> krank k < rrank r \<Longrightarrow> cmp k r < 0"
    and cmp_greater: "kdom k \<Longrightarrow> rdom r \<Longrightarrow> rrank r < krank k \<Longrightarrow> 0 < cmp k r"
begin

lemma agrees:
  assumes "node_table m rdom rrank t" and "kdom k"
  shows "cmp_agrees (\<lambda>n. do { r \<leftarrow> m n; Some (cmp k r) }) (krank k)
           (\<lambda>n. rrank (the (m n))) (set (inorder t))"
  using assms unfolding cmp_agrees_def node_table_def
  by (fastforce intro: cmp_less cmp_greater)

lemma search_Some:
  assumes "node_table m rdom rrank t" and "kdom k"
    and "a \<in> set (inorder t)" and "m a = Some r" and "cmp k r = 0"
  shows "RB_SEARCH t (\<lambda>n. do { r \<leftarrow> m n; Some (cmp k r) }) = Some (Some a)"
proof -
  have "krank k = rrank r"
    using assms cmp_less [of k r] cmp_greater [of k r] node_table_live [OF assms(1,3)]
    by (metis linorder_neqE_linordered_idom option.inject order_less_irrefl)
  have "find (\<lambda>n. Option.bind (m n) (\<lambda>r. Some (cmp k r)) = Some 0) (inorder t) = Some a"
  proof (rule find_cong_unique [OF assms(3)])
    fix y assume "y \<in> set (inorder t)" and "Option.bind (m y) (\<lambda>r. Some (cmp k r)) = Some 0"
    with cmp_agrees_zero_rank [OF agrees [OF assms(1,2)]] have "rrank (the (m y)) = krank k"
      by blast
    with \<open>krank k = rrank r\<close> show "y = a"
      using node_table_inj [OF assms(1) \<open>y \<in> _\<close> assms(3)] assms(4) by simp
  qed (use assms in simp)
  with RB_SEARCH_find [OF _ agrees [OF assms(1,2)]] assms(1) show ?thesis
    by (simp add: node_table_def)
qed

lemma search_None:
  assumes "node_table m rdom rrank t" and "kdom k"
    and "\<And>a r. a \<in> set (inorder t) \<Longrightarrow> m a = Some r \<Longrightarrow> cmp k r \<noteq> 0"
  shows "RB_SEARCH t (\<lambda>n. do { r \<leftarrow> m n; Some (cmp k r) }) = Some None"
proof -
  have "find (\<lambda>n. Option.bind (m n) (\<lambda>r. Some (cmp k r)) = Some 0) (inorder t) = None"
    using assms(3) by (auto simp: find_None_iff_ball bind_eq_Some_conv')
  with RB_SEARCH_find [OF _ agrees [OF assms(1,2)]] assms(1) show ?thesis
    by (simp add: node_table_def)
qed

end

locale rb_total_order = rb_order +
  assumes cmp_equal: "kdom k \<Longrightarrow> rdom r \<Longrightarrow> krank k = rrank r \<Longrightarrow> cmp k r = 0"
begin

lemma cmp_zero_iff: "kdom k \<Longrightarrow> rdom r \<Longrightarrow> cmp k r = 0 \<longleftrightarrow> krank k = rrank r"
  using cmp_less [of k r] cmp_greater [of k r] cmp_equal [of k r]
  by (metis linorder_neqE_linordered_idom order_less_irrefl)

lemma insert_dup:
  assumes "node_table m rdom rrank t" and "kdom k" and "r \<in> recs m t" and "krank k = rrank r"
  shows "RB_INSERT L t a (\<lambda>n. do { r \<leftarrow> m n; Some (cmp k r) }) = Some (-1, t)"
proof -
  from assms(3) obtain n where n: "n \<in> set (inorder t)" "the (m n) = r"
    by (auto simp: recs_def)
  then have "m n = Some r" "rdom r" using node_table_live [OF assms(1) n(1)] by auto
  then show ?thesis
    using n assms cmp_equal RB_INSERT_dup [OF _ agrees [OF assms(1,2)] n(1)]
    by (simp add: node_table_def)
qed

lemma insert_new:
  assumes "rb_lib_ok L" and "node_table m rdom rrank t" and "kdom k"
    and "m a = Some r" and "rdom r" and "krank k = rrank r"
    and "\<forall>r'\<in>recs m t. rrank r' \<noteq> rrank r"
  shows "\<exists>t'. RB_INSERT L t a (\<lambda>n. do { r \<leftarrow> m n; Some (cmp k r) }) = Some (0, t') \<and>
           node_table m rdom rrank t' \<and> set (inorder t') = insert a (set (inorder t)) \<and>
           recs m t' = insert r (recs m t)"
proof -
  have "krank k = rrank (the (m a))" using assms(4,6) by simp
  then have c: "cmp_agrees (\<lambda>n. do { r \<leftarrow> m n; Some (cmp k r) }) (rrank (the (m a)))
      (\<lambda>n. rrank (the (m n))) (set (inorder t))"
    using agrees [OF assms(2,3)] by simp
  have new: "\<forall>n\<in>set (inorder t). rrank (the (m n)) \<noteq> rrank (the (m a))"
    using assms(4,7) by (auto simp: recs_def)
  have o: "ordered_by (\<lambda>n. rrank (the (m n))) t"
    using assms(2) by (simp add: node_table_def)
  from RB_INSERT_new [OF assms(1) o c new] obtain t' where
    t': "RB_INSERT L t a (\<lambda>n. do { r \<leftarrow> m n; Some (cmp k r) }) = Some (0, t')"
    "ordered_by (\<lambda>n. rrank (the (m n))) t'" "set (inorder t') = insert a (set (inorder t))"
    by auto
  moreover have "node_table m rdom rrank t'" using t' assms by (auto simp: node_table_def)
  moreover have "recs m t' = insert r (recs m t)" using t' assms(4) by (simp add: recs_def)
  ultimately show ?thesis by blast
qed

end

end
