(* ===== verification/Scan_Cache.thy ===== *)
theory Scan_Cache
  imports RB_Tree
begin

text \<open>
  The scan cache of \<^verbatim>\<open>RedBlack_Cache_LRU_Implementation_Kernel\<close>: the data types of
  \<^verbatim>\<open>include/cache.h\<close> and every compiled function of \<^verbatim>\<open>src/cache.c\<close>. Two trees of
  slab-allocated records are kept in step: \<open>scan_cache_rb_tree\<close> ordered by device and
  inode, and \<open>lru_cache_rb_tree\<close> ordered by time stamp.

  A record is identified by its address; a slab is the partial function of its live
  objects. Reading a dead address, freeing twice, erasing an unlinked node, allocating from
  a slab that was never created and taking a held spinlock all make the operation return
  \<open>None\<close>. The kernel services the module calls are the fields of \<open>kernel_api\<close>; those
  whose answers vary from call to call (allocation, the clock) take the number of such calls
  made so far, \<open>ticks\<close>. \<^verbatim>\<open>printk\<close> output is not modelled.
\<close>

section \<open>Data types of \<^verbatim>\<open>cache.h\<close>\<close>

record timespec =
  tv_sec :: c_long
  tv_nsec :: c_long

datatype scan_state = STATE_UNKNOWN | STATE_CLEAN | STATE_INFECTED

record scan_cache_record =
  sc_dev_id :: u32
  sc_inode_number :: u64
  sc_inode_generation :: u32
  sc_status :: scan_state
  sc_time_stamp :: timespec

record scan_cache_record_compare =
  key_dev_id :: u32
  key_inode_number :: u64
  key_inode_generation :: u32

record lru_cache_record =
  lru_time_stamp :: timespec
  lru_dev_id :: u32
  lru_inode_number :: u64
  lru_inode_generation :: u32

record lru_cache_record_compare =
  lru_key_time_stamp :: timespec

record fileInfo =
  fi_dev_id :: u32
  fi_inode_number :: u64
  fi_inode_generation :: u32

section \<open>Kernel services and the module's state\<close>

datatype slab = Scan_slab | Lru_slab

record kernel_api =
  rbtree :: rb_lib
  kmem_cache_create :: "slab \<Rightarrow> nat \<Rightarrow> bool"
  kmem_cache_alloc :: "slab \<Rightarrow> nat \<Rightarrow> (addr \<Rightarrow> bool) \<Rightarrow> addr option"
  fresh_scan_object :: "nat \<Rightarrow> scan_cache_record"
  fresh_lru_object :: "nat \<Rightarrow> lru_cache_record"
  getnstimeofday :: "nat \<Rightarrow> timespec"

record cache_state =
  ptr_scan_cache_slab :: bool
  ptr_lru_cache_slab :: bool
  scan_objects :: "scan_cache_record heap"
  lru_objects :: "lru_cache_record heap"
  scan_cache_rb_tree :: "addr tree"
  lru_cache_rb_tree :: "addr tree"
  scan_cache_lock :: bool
  lru_cache_lock :: bool
  ticks :: nat

text \<open>
  The documented behaviour of the services: the red-black tree library as in
  \<open>rb_lib_ok\<close>, an allocator that never hands out a live object, and a normalised,
  non-negative wall clock.
\<close>

definition timespec_ok :: "timespec \<Rightarrow> bool" where
  "timespec_ok ts \<longleftrightarrow> 0 \<le> sint (tv_sec ts) \<and> 0 \<le> sint (tv_nsec ts) \<and> sint (tv_nsec ts) < 1000000000"

definition kernel_ok :: "kernel_api \<Rightarrow> bool" where
  "kernel_ok K \<longleftrightarrow> rb_lib_ok (rbtree K) \<and>
     (\<forall>sl n live a. kmem_cache_alloc K sl n live = Some a \<longrightarrow> \<not> live a) \<and>
     (\<forall>n. timespec_ok (getnstimeofday K n))"

section \<open>Comparison functions\<close>

definition scan_cache_insert_compare_table ::
    "scan_cache_record option \<Rightarrow> scan_cache_record option \<Rightarrow> int" where
  "scan_cache_insert_compare_table first_ptr second_ptr =
     (case (first_ptr, second_ptr) of
        (Some first, Some second) \<Rightarrow>
          let difference = difference_u32 (sc_dev_id first) (sc_dev_id second) in
          if difference > 0 then 1
          else if difference < 0 then -1
          else let difference = difference_u64 (sc_inode_number first) (sc_inode_number second) in
            if difference > 0 then 1
            else if difference < 0 then -1
            else 0
      | _ \<Rightarrow> 0)"

definition scan_cache_find_compare_table ::
    "scan_cache_record_compare option \<Rightarrow> scan_cache_record option \<Rightarrow> int" where
  "scan_cache_find_compare_table compare_ptr record_ptr =
     (case (compare_ptr, record_ptr) of
        (Some key, Some r) \<Rightarrow>
          let difference = difference_u32 (key_dev_id key) (sc_dev_id r) in
          if difference > 0 then 1
          else if difference < 0 then -1
          else let difference = difference_u64 (key_inode_number key) (sc_inode_number r) in
            if difference > 0 then 1
            else if difference < 0 then -1
            else let difference =
                  difference_u32 (key_inode_generation key) (sc_inode_generation r) in
              if difference > 0 then 1
              else if difference < 0 then -1
              else 0
      | _ \<Rightarrow> 0)"

definition lru_cache_insert_compare_table ::
    "lru_cache_record \<Rightarrow> lru_cache_record \<Rightarrow> int" where
  "lru_cache_insert_compare_table first second =
     (let difference =
        difference_s64 (tv_sec (lru_time_stamp first)) (tv_sec (lru_time_stamp second)) in
      if difference > 0 then 1
      else if difference < 0 then -1
      else let difference =
             difference_s64 (tv_nsec (lru_time_stamp first)) (tv_nsec (lru_time_stamp second)) in
        if difference > 0 then 1
        else if difference < 0 then -1
        else 0)"

definition lru_cache_find_compare_table ::
    "lru_cache_record_compare \<Rightarrow> lru_cache_record \<Rightarrow> int" where
  "lru_cache_find_compare_table first second =
     (let difference =
        difference_s64 (tv_sec (lru_key_time_stamp first)) (tv_sec (lru_time_stamp second)) in
      if difference > 0 then 1
      else if difference < 0 then -1
      else let difference =
             difference_s64 (tv_nsec (lru_key_time_stamp first)) (tv_nsec (lru_time_stamp second)) in
        if difference > 0 then 1
        else if difference < 0 then -1
        else 0)"

section \<open>Locks, clock and allocation\<close>

definition spin_lock_scan :: "cache_state \<Rightarrow> cache_state option" where
  "spin_lock_scan s = (if scan_cache_lock s then None else Some (s\<lparr>scan_cache_lock := True\<rparr>))"

definition spin_unlock_scan :: "cache_state \<Rightarrow> cache_state" where
  "spin_unlock_scan s = s\<lparr>scan_cache_lock := False\<rparr>"

definition spin_lock_lru :: "cache_state \<Rightarrow> cache_state option" where
  "spin_lock_lru s = (if lru_cache_lock s then None else Some (s\<lparr>lru_cache_lock := True\<rparr>))"

definition spin_unlock_lru :: "cache_state \<Rightarrow> cache_state" where
  "spin_unlock_lru s = s\<lparr>lru_cache_lock := False\<rparr>"

definition get_time_stamp :: "kernel_api \<Rightarrow> cache_state \<Rightarrow> timespec \<times> cache_state" where
  "get_time_stamp K s = (getnstimeofday K (ticks s), s\<lparr>ticks := Suc (ticks s)\<rparr>)"

definition scan_cache_alloc :: "kernel_api \<Rightarrow> cache_state \<Rightarrow> (addr option \<times> cache_state) option" where
  "scan_cache_alloc K s =
     (if \<not> ptr_scan_cache_slab s then None
      else case kmem_cache_alloc K Scan_slab (ticks s) (\<lambda>a. scan_objects s a \<noteq> None) of
        None \<Rightarrow> Some (None, s\<lparr>ticks := Suc (ticks s)\<rparr>)
      | Some a \<Rightarrow> Some (Some a,
          s\<lparr>scan_objects := (scan_objects s)(a \<mapsto> fresh_scan_object K (ticks s)),
            ticks := Suc (ticks s)\<rparr>))"

definition lru_cache_alloc :: "kernel_api \<Rightarrow> cache_state \<Rightarrow> (addr option \<times> cache_state) option" where
  "lru_cache_alloc K s =
     (if \<not> ptr_lru_cache_slab s then None
      else case kmem_cache_alloc K Lru_slab (ticks s) (\<lambda>a. lru_objects s a \<noteq> None) of
        None \<Rightarrow> Some (None, s\<lparr>ticks := Suc (ticks s)\<rparr>)
      | Some a \<Rightarrow> Some (Some a,
          s\<lparr>lru_objects := (lru_objects s)(a \<mapsto> fresh_lru_object K (ticks s)),
            ticks := Suc (ticks s)\<rparr>))"

definition kmem_cache_free_scan :: "addr \<Rightarrow> cache_state \<Rightarrow> cache_state option" where
  "kmem_cache_free_scan a s = do {
     m \<leftarrow> heap_free (scan_objects s) a;
     Some (s\<lparr>scan_objects := m\<rparr>) }"

definition kmem_cache_free_lru :: "addr \<Rightarrow> cache_state \<Rightarrow> cache_state option" where
  "kmem_cache_free_lru a s = do {
     m \<leftarrow> heap_free (lru_objects s) a;
     Some (s\<lparr>lru_objects := m\<rparr>) }"

section \<open>Operations\<close>

definition remove_lru_cache_record ::
    "kernel_api \<Rightarrow> addr option \<Rightarrow> cache_state \<Rightarrow> cache_state option" where
  "remove_lru_cache_record K lru_cache_record_ptr s =
     (case lru_cache_record_ptr of
        None \<Rightarrow> Some s
      | Some p \<Rightarrow> do {
          s \<leftarrow> spin_lock_lru s;
          t \<leftarrow> RB_REMOVE (rbtree K) (lru_cache_rb_tree s) p;
          let s = spin_unlock_lru (s\<lparr>lru_cache_rb_tree := t\<rparr>);
          kmem_cache_free_lru p s })"

definition remove_scan_cache_record ::
    "kernel_api \<Rightarrow> addr option \<Rightarrow> cache_state \<Rightarrow> cache_state option" where
  "remove_scan_cache_record K scan_cache_record_ptr s =
     (case scan_cache_record_ptr of
        None \<Rightarrow> Some s
      | Some p \<Rightarrow> do {
          s \<leftarrow> spin_lock_scan s;
          t \<leftarrow> RB_REMOVE (rbtree K) (scan_cache_rb_tree s) p;
          let s = spin_unlock_scan (s\<lparr>scan_cache_rb_tree := t\<rparr>);
          kmem_cache_free_scan p s })"

text \<open>On a duplicate time stamp the freshly allocated record is neither linked nor freed.\<close>

definition insert_lru_cache_record ::
    "kernel_api \<Rightarrow> timespec \<Rightarrow> u32 \<Rightarrow> u64 \<Rightarrow> u32 \<Rightarrow> cache_state \<Rightarrow> (int \<times> cache_state) option" where
  "insert_lru_cache_record K time_stamp dev_id inode_number inode_generation s = do {
     (lru_cache_record_ptr, s) \<leftarrow> lru_cache_alloc K s;
     case lru_cache_record_ptr of
       None \<Rightarrow> Some (-1, s)
     | Some p \<Rightarrow> do {
         r \<leftarrow> lru_objects s p;
         let r = r\<lparr>lru_time_stamp := time_stamp, lru_dev_id := dev_id,
                   lru_inode_number := inode_number, lru_inode_generation := inode_generation\<rparr>;
         let s = s\<lparr>lru_objects := (lru_objects s)(p \<mapsto> r)\<rparr>;
         s \<leftarrow> spin_lock_lru s;
         (ret, t) \<leftarrow> RB_INSERT (rbtree K) (lru_cache_rb_tree s) p
            (\<lambda>this. do { q \<leftarrow> lru_objects s this; Some (lru_cache_insert_compare_table r q) });
         Some (ret, spin_unlock_lru (s\<lparr>lru_cache_rb_tree := t\<rparr>)) } }"

definition find_and_update_lru_cache_record ::
    "kernel_api \<Rightarrow> addr \<Rightarrow> addr \<Rightarrow> cache_state \<Rightarrow> (int \<times> cache_state) option" where
  "find_and_update_lru_cache_record K scan_cache_record_old_ptr scan_cache_record_new_ptr s = do {
     old \<leftarrow> scan_objects s scan_cache_record_old_ptr;
     let lru_cache_key = \<lparr>lru_key_time_stamp = sc_time_stamp old\<rparr>;
     s \<leftarrow> spin_lock_lru s;
     found \<leftarrow> RB_SEARCH (lru_cache_rb_tree s)
        (\<lambda>this. do { q \<leftarrow> lru_objects s this; Some (lru_cache_find_compare_table lru_cache_key q) });
     let s = spin_unlock_lru s;
     case found of
       None \<Rightarrow> Some (-1, s)
     | Some p \<Rightarrow> do {
         s \<leftarrow> remove_lru_cache_record K (Some p) s;
         new \<leftarrow> scan_objects s scan_cache_record_new_ptr;
         insert_lru_cache_record K (sc_time_stamp new) (sc_dev_id new) (sc_inode_number new)
           (sc_inode_generation new) s } }"

definition find_and_update_scan_cache_record ::
    "kernel_api \<Rightarrow> addr option \<Rightarrow> cache_state \<Rightarrow> (int \<times> cache_state) option" where
  "find_and_update_scan_cache_record K scan_cache_record_new_ptr s =
     (case scan_cache_record_new_ptr of
        None \<Rightarrow> Some (-1, s)
      | Some p \<Rightarrow> do {
          s \<leftarrow> spin_lock_scan s;
          found \<leftarrow> RB_SEARCH (scan_cache_rb_tree s)
             (\<lambda>this. do { new \<leftarrow> scan_objects s p; q \<leftarrow> scan_objects s this;
                          Some (scan_cache_insert_compare_table (Some new) (Some q)) });
          let s = spin_unlock_scan s;
          case found of
            Some old \<Rightarrow> do {
              s \<leftarrow> spin_lock_scan s;
              t \<leftarrow> RB_REPLACE (rbtree K) (scan_cache_rb_tree s) old p;
              let s = spin_unlock_scan (s\<lparr>scan_cache_rb_tree := t\<rparr>);
              (ret, s) \<leftarrow> find_and_update_lru_cache_record K old p s;
              s \<leftarrow> (if ret \<noteq> 0 then remove_scan_cache_record K (Some p) s else Some s);
              s \<leftarrow> kmem_cache_free_scan old s;
              Some (ret, s) }
          | None \<Rightarrow> do {
              s \<leftarrow> kmem_cache_free_scan p s;
              Some (-1, s) } })"

definition insert_scan_cache_record ::
    "kernel_api \<Rightarrow> fileInfo \<Rightarrow> cache_state \<Rightarrow> (int \<times> cache_state) option" where
  "insert_scan_cache_record K filp s = do {
     (scan_cache_record_ptr, s) \<leftarrow> scan_cache_alloc K s;
     case scan_cache_record_ptr of
       None \<Rightarrow> Some (- ENOMEM, s)
     | Some p \<Rightarrow> do {
         r \<leftarrow> scan_objects s p;
         let (now, s) = get_time_stamp K s;
         let r = r\<lparr>sc_dev_id := fi_dev_id filp, sc_inode_number := fi_inode_number filp,
                   sc_inode_generation := fi_inode_generation filp, sc_time_stamp := now\<rparr>;
         let s = s\<lparr>scan_objects := (scan_objects s)(p \<mapsto> r)\<rparr>;
         s \<leftarrow> spin_lock_scan s;
         (ret, t) \<leftarrow> RB_INSERT (rbtree K) (scan_cache_rb_tree s) p
            (\<lambda>this. do { q \<leftarrow> scan_objects s this;
                         Some (scan_cache_insert_compare_table (Some r) (Some q)) });
         let s = spin_unlock_scan (s\<lparr>scan_cache_rb_tree := t\<rparr>);
         if ret \<noteq> 0 then find_and_update_scan_cache_record K (Some p) s
         else do {
           q \<leftarrow> scan_objects s p;
           (ret, s) \<leftarrow> insert_lru_cache_record K (sc_time_stamp q) (sc_dev_id q)
              (sc_inode_number q) (sc_inode_generation q) s;
           s \<leftarrow> (if ret \<noteq> 0 then remove_scan_cache_record K (Some p) s else Some s);
           Some (ret, s) } } }"

definition find_scan_cache_record ::
    "scan_cache_record_compare option \<Rightarrow> cache_state \<Rightarrow> (addr option \<times> cache_state) option" where
  "find_scan_cache_record keyPtr s =
     (case keyPtr of
        None \<Rightarrow> Some (None, s)
      | Some key \<Rightarrow> do {
          s \<leftarrow> spin_lock_scan s;
          found \<leftarrow> RB_SEARCH (scan_cache_rb_tree s)
             (\<lambda>this. do { q \<leftarrow> scan_objects s this;
                          Some (scan_cache_find_compare_table (Some key) (Some q)) });
          Some (found, spin_unlock_scan s) })"

definition find_lru_cache_record ::
    "lru_cache_record_compare option \<Rightarrow> cache_state \<Rightarrow> (addr option \<times> cache_state) option" where
  "find_lru_cache_record lru_cache_key_ptr s =
     (case lru_cache_key_ptr of
        None \<Rightarrow> Some (None, s)
      | Some key \<Rightarrow> do {
          s \<leftarrow> spin_lock_lru s;
          found \<leftarrow> RB_SEARCH (lru_cache_rb_tree s)
             (\<lambda>this. do { q \<leftarrow> lru_objects s this; Some (lru_cache_find_compare_table key q) });
          Some (found, spin_unlock_lru s) })"

definition find_remove_lru_cache_record ::
    "kernel_api \<Rightarrow> timespec \<Rightarrow> cache_state \<Rightarrow> (bool \<times> cache_state) option" where
  "find_remove_lru_cache_record K time_stamp s = do {
     (lru_cache_record_ptr, s) \<leftarrow> find_lru_cache_record (Some \<lparr>lru_key_time_stamp = time_stamp\<rparr>) s;
     case lru_cache_record_ptr of
       None \<Rightarrow> Some (False, s)
     | Some p \<Rightarrow> do {
         s \<leftarrow> remove_lru_cache_record K (Some p) s;
         Some (True, s) } }"

definition find_remove_scan_cache_record ::
    "kernel_api \<Rightarrow> fileInfo \<Rightarrow> cache_state \<Rightarrow> (bool \<times> cache_state) option" where
  "find_remove_scan_cache_record K filp s = do {
     (scan_cache_record_ptr, s) \<leftarrow> find_scan_cache_record
        (Some \<lparr>key_dev_id = fi_dev_id filp, key_inode_number = fi_inode_number filp,
               key_inode_generation = fi_inode_generation filp\<rparr>) s;
     case scan_cache_record_ptr of
       None \<Rightarrow> Some (False, s)
     | Some p \<Rightarrow> do {
         r \<leftarrow> scan_objects s p;
         (_, s) \<leftarrow> find_remove_lru_cache_record K (sc_time_stamp r) s;
         s \<leftarrow> remove_scan_cache_record K (Some p) s;
         Some (True, s) } }"

text \<open>
  The purge loops read the first record for their log message before they remove it; the
  first record of a non-empty tree is never \<^verbatim>\<open>NULL\<close>, and dereferencing \<^verbatim>\<open>NULL\<close> is
  a fault.
\<close>

partial_function (option) purge_scan_cache ::
    "kernel_api \<Rightarrow> cache_state \<Rightarrow> cache_state option" where
  "purge_scan_cache K s =
     (if RB_EMPTY_ROOT (scan_cache_rb_tree s) then Some s
      else do {
        p \<leftarrow> RB_FIRST (rbtree K) (scan_cache_rb_tree s);
        _ \<leftarrow> scan_objects s p;
        s \<leftarrow> remove_scan_cache_record K (Some p) s;
        purge_scan_cache K s })"

partial_function (option) purge_lru_cache ::
    "kernel_api \<Rightarrow> cache_state \<Rightarrow> cache_state option" where
  "purge_lru_cache K s =
     (if RB_EMPTY_ROOT (lru_cache_rb_tree s) then Some s
      else do {
        p \<leftarrow> RB_FIRST (rbtree K) (lru_cache_rb_tree s);
        _ \<leftarrow> lru_objects s p;
        s \<leftarrow> remove_lru_cache_record K (Some p) s;
        purge_lru_cache K s })"

definition purge_cache :: "kernel_api \<Rightarrow> cache_state \<Rightarrow> cache_state option" where
  "purge_cache K s = do {
     s \<leftarrow> purge_scan_cache K s;
     purge_lru_cache K s }"

partial_function (option) remove_cache_entry_loop ::
    "kernel_api \<Rightarrow> int \<Rightarrow> int \<Rightarrow> cache_state \<Rightarrow> cache_state option" where
  "remove_cache_entry_loop K count remove_count s =
     (if RB_EMPTY_ROOT (lru_cache_rb_tree s) then Some s
      else case RB_FIRST (rbtree K) (lru_cache_rb_tree s) of
        None \<Rightarrow> Some s
      | Some p \<Rightarrow> do {
          l \<leftarrow> lru_objects s p;
          (scan_cache_record_ptr, s) \<leftarrow> find_scan_cache_record
             (Some \<lparr>key_dev_id = lru_dev_id l, key_inode_number = lru_inode_number l,
                    key_inode_generation = lru_inode_generation l\<rparr>) s;
          case scan_cache_record_ptr of
            None \<Rightarrow> Some s
          | Some q \<Rightarrow> do {
              s \<leftarrow> remove_lru_cache_record K (Some p) s;
              s \<leftarrow> remove_scan_cache_record K (Some q) s;
              if remove_count + 1 \<ge> count then Some s
              else remove_cache_entry_loop K count (remove_count + 1) s } })"

definition remove_cache_entry :: "kernel_api \<Rightarrow> int \<Rightarrow> cache_state \<Rightarrow> cache_state option" where
  "remove_cache_entry K count s =
     (if count \<le> 0 then Some s else remove_cache_entry_loop K count 0 s)"

declare purge_scan_cache.simps [code] purge_lru_cache.simps [code] remove_cache_entry_loop.simps [code]

definition init_scan_cache :: "kernel_api \<Rightarrow> cache_state \<Rightarrow> int \<times> cache_state" where
  "init_scan_cache K s =
     (let scan_ok = kmem_cache_create K Scan_slab (ticks s);
          ret = (if scan_ok then 0 else - ENOMEM);
          lru_ok = kmem_cache_create K Lru_slab (Suc (ticks s));
          ret = (if lru_ok then ret else - ENOMEM)
      in (ret, s\<lparr>ptr_scan_cache_slab := scan_ok, ptr_lru_cache_slab := lru_ok,
                 ticks := Suc (Suc (ticks s))\<rparr>))"

text \<open>\<^verbatim>\<open>kmem_cache_destroy\<close> ends the slab; objects still in it are leaked, not freed.\<close>

definition exit_scan_cache :: "kernel_api \<Rightarrow> cache_state \<Rightarrow> cache_state option" where
  "exit_scan_cache K s = do {
     s \<leftarrow> remove_cache_entry K 2 s;
     s \<leftarrow> purge_cache K s;
     let s = (if ptr_scan_cache_slab s then s\<lparr>ptr_scan_cache_slab := False\<rparr> else s);
     let s = (if ptr_lru_cache_slab s then s\<lparr>ptr_lru_cache_slab := False\<rparr> else s);
     Some s }"

text \<open>The module's static data before \<^verbatim>\<open>init_scan_cache\<close>.\<close>

definition initial_cache_state :: cache_state where
  "initial_cache_state =
     \<lparr>ptr_scan_cache_slab = False, ptr_lru_cache_slab = False,
      scan_objects = Map.empty, lru_objects = Map.empty,
      scan_cache_rb_tree = \<langle>\<rangle>, lru_cache_rb_tree = \<langle>\<rangle>,
      scan_cache_lock = False, lru_cache_lock = False, ticks = 0\<rparr>"

section \<open>The comparators as orders\<close>

text \<open>
  \<^verbatim>\<open>dev_id\<close> is a 32-bit \<^verbatim>\<open>dev_t\<close>, so the first-level difference is never negative:
  the scan comparators are orders only among records of one device, and there only for inode
  numbers less than \<open>2 ^ 63\<close> apart. \<open>scan_record_ok d\<close> is that domain. The LRU
  comparators are orders on the time stamps the kernel clock produces.
\<close>

definition scan_record_ok :: "u32 \<Rightarrow> scan_cache_record \<Rightarrow> bool" where
  "scan_record_ok d r \<longleftrightarrow> sc_dev_id r = d \<and> uint (sc_inode_number r) < 2 ^ 63"

definition scan_rank :: "scan_cache_record \<Rightarrow> int" where
  "scan_rank r = uint (sc_inode_number r)"

definition scan_key_ok :: "u32 \<Rightarrow> scan_cache_record_compare \<Rightarrow> bool" where
  "scan_key_ok d k \<longleftrightarrow> key_dev_id k = d \<and> uint (key_inode_number k) < 2 ^ 63"

definition scan_key_rank :: "scan_cache_record_compare \<Rightarrow> int" where
  "scan_key_rank k = uint (key_inode_number k)"

definition timespec_rank :: "timespec \<Rightarrow> int" where
  "timespec_rank ts = sint (tv_sec ts) * 1000000000 + sint (tv_nsec ts)"

definition lru_record_ok :: "lru_cache_record \<Rightarrow> bool" where
  "lru_record_ok l \<longleftrightarrow> timespec_ok (lru_time_stamp l)"

definition lru_rank :: "lru_cache_record \<Rightarrow> int" where
  "lru_rank l = timespec_rank (lru_time_stamp l)"

definition lru_key_ok :: "lru_cache_record_compare \<Rightarrow> bool" where
  "lru_key_ok k \<longleftrightarrow> timespec_ok (lru_key_time_stamp k)"

definition lru_key_rank :: "lru_cache_record_compare \<Rightarrow> int" where
  "lru_key_rank k = timespec_rank (lru_key_time_stamp k)"

lemmas scan_order_defs =
  scan_record_ok_def scan_rank_def scan_key_ok_def scan_key_rank_def

lemmas lru_order_defs =
  lru_record_ok_def lru_rank_def lru_key_ok_def lru_key_rank_def

lemma timespec_compare:
  assumes "timespec_ok x" and "timespec_ok y"
  shows "timespec_rank x < timespec_rank y \<longleftrightarrow>
      sint (tv_sec x) < sint (tv_sec y) \<or>
      sint (tv_sec x) = sint (tv_sec y) \<and> sint (tv_nsec x) < sint (tv_nsec y)"
  using assms unfolding timespec_ok_def timespec_rank_def by linarith

lemma timespec_rank_eq:
  assumes "timespec_ok x" and "timespec_ok y"
  shows "timespec_rank x = timespec_rank y \<longleftrightarrow> x = y"
proof
  assume "timespec_rank x = timespec_rank y"
  then have "\<not> timespec_rank x < timespec_rank y" and "\<not> timespec_rank y < timespec_rank x"
    by simp_all
  then have "sint (tv_sec x) = sint (tv_sec y)" and "sint (tv_nsec x) = sint (tv_nsec y)"
    unfolding timespec_compare [OF assms] timespec_compare [OF assms(2,1)] by linarith+
  then show "x = y" by (simp add: signed_word_eqI timespec.equality)
qed simp

lemma difference_s64_timespec:
  assumes "timespec_ok x" and "timespec_ok y"
  shows "difference_s64 (tv_sec x) (tv_sec y) = sint (tv_sec x) - sint (tv_sec y)"
    and "difference_s64 (tv_nsec x) (tv_nsec y) = sint (tv_nsec x) - sint (tv_nsec y)"
  using assms by (simp_all add: timespec_ok_def difference_s64_nonneg)

interpretation scan_ins: rb_total_order
  "\<lambda>k r. scan_cache_insert_compare_table (Some k) (Some r)"
  scan_rank scan_rank "scan_record_ok d" "scan_record_ok d" for d
  by unfold_locales
    (auto simp: scan_cache_insert_compare_table_def scan_order_defs difference_u64_small Let_def)

interpretation scan_find: rb_order
  "\<lambda>k r. scan_cache_find_compare_table (Some k) (Some r)"
  scan_key_rank scan_rank "scan_key_ok d" "scan_record_ok d" for d
  by unfold_locales
    (auto simp: scan_cache_find_compare_table_def scan_order_defs difference_u64_small Let_def)

interpretation lru_ins: rb_total_order
  lru_cache_insert_compare_table lru_rank lru_rank lru_record_ok lru_record_ok
  by unfold_locales
    (auto simp: lru_cache_insert_compare_table_def lru_order_defs Let_def
      difference_s64_timespec timespec_compare timespec_rank_eq)

interpretation lru_find: rb_total_order
  lru_cache_find_compare_table lru_key_rank lru_rank lru_key_ok lru_record_ok
  by unfold_locales
    (auto simp: lru_cache_find_compare_table_def lru_order_defs Let_def
      difference_s64_timespec timespec_compare timespec_rank_eq)

lemma scan_cache_find_compare_zero:
  "scan_cache_find_compare_table (Some k) (Some r) = 0 \<longleftrightarrow>
     key_dev_id k = sc_dev_id r \<and> difference_u64 (key_inode_number k) (sc_inode_number r) = 0 \<and>
     key_inode_generation k = sc_inode_generation r"
  by (auto simp: scan_cache_find_compare_table_def Let_def)

end
