(* ===== verification/Cache_Correct.thy ===== *)
theory Cache_Correct
  imports Scan_Cache
begin

text \<open>
  Correctness of the scan cache on the records of one device: the two trees stay ordered and
  in step, no operation commits a memory fault or deadlocks, and every operation implements
  its counterpart on a finite map from inode numbers to generation and time stamp.
\<close>

section \<open>Invariant and abstraction\<close>

definition lru_of :: "scan_cache_record \<Rightarrow> lru_cache_record" where
  "lru_of r = \<lparr>lru_time_stamp = sc_time_stamp r, lru_dev_id = sc_dev_id r,
     lru_inode_number = sc_inode_number r, lru_inode_generation = sc_inode_generation r\<rparr>"

definition scan_recs :: "cache_state \<Rightarrow> scan_cache_record set" where
  "scan_recs s = recs (scan_objects s) (scan_cache_rb_tree s)"

definition lru_recs :: "cache_state \<Rightarrow> lru_cache_record set" where
  "lru_recs s = recs (lru_objects s) (lru_cache_rb_tree s)"

definition scan_table :: "u32 \<Rightarrow> cache_state \<Rightarrow> bool" where
  "scan_table d s \<longleftrightarrow> node_table (scan_objects s) (scan_record_ok d) scan_rank (scan_cache_rb_tree s)"

definition lru_table :: "cache_state \<Rightarrow> bool" where
  "lru_table s \<longleftrightarrow> node_table (lru_objects s) lru_record_ok lru_rank (lru_cache_rb_tree s)"

definition quiescent :: "cache_state \<Rightarrow> bool" where
  "quiescent s \<longleftrightarrow> \<not> scan_cache_lock s \<and> \<not> lru_cache_lock s \<and>
     ptr_scan_cache_slab s \<and> ptr_lru_cache_slab s"

text \<open>
  Between operations: no lock is held, both tables are ordered trees of live records, every
  live scan object is in the scan tree, and the LRU tree mirrors the scan tree.
\<close>

definition cache_inv :: "u32 \<Rightarrow> cache_state \<Rightarrow> bool" where
  "cache_inv d s \<longleftrightarrow> quiescent s \<and> scan_table d s \<and> lru_table s \<and>
     dom (scan_objects s) = set (inorder (scan_cache_rb_tree s)) \<and>
     lru_recs s = lru_of ` scan_recs s"

definition scan_entry :: "scan_cache_record \<Rightarrow> u64 \<times> u32 \<times> timespec" where
  "scan_entry r = (sc_inode_number r, sc_inode_generation r, sc_time_stamp r)"

definition contents :: "cache_state \<Rightarrow> u64 \<rightharpoonup> u32 \<times> timespec" where
  "contents s =
     map_of (map (\<lambda>n. scan_entry (the (scan_objects s n))) (inorder (scan_cache_rb_tree s)))"

text \<open>The cached entries from the least to the most recently stamped.\<close>

definition lru_order :: "cache_state \<Rightarrow> lru_cache_record list" where
  "lru_order s = map (\<lambda>n. the (lru_objects s n)) (inorder (lru_cache_rb_tree s))"

section \<open>Basic facts\<close>

lemma lock_ids [simp]:
  "\<not> scan_cache_lock r \<Longrightarrow> r\<lparr>scan_cache_lock := False\<rparr> = r"
  "\<not> lru_cache_lock r \<Longrightarrow> r\<lparr>lru_cache_lock := False\<rparr> = r"
  by (cases r; simp)+

lemmas lock_defs = spin_lock_scan_def spin_unlock_scan_def spin_lock_lru_def spin_unlock_lru_def

lemma scan_rank_eq: "scan_rank r = scan_rank r' \<longleftrightarrow> sc_inode_number r = sc_inode_number r'"
  by (auto simp: scan_rank_def word_uint_eq_iff)

lemma scan_recs_inode_inj:
  assumes "scan_table d s" and "r \<in> scan_recs s" and "r' \<in> scan_recs s"
    and "sc_inode_number r = sc_inode_number r'"
  shows "r = r'"
  using assms recs_rank_inj [of "scan_objects s" "scan_record_ok d" scan_rank]
  by (simp add: scan_table_def scan_recs_def scan_rank_eq)

lemma contents_Some_iff:
  assumes "scan_table d s"
  shows "contents s i = Some e \<longleftrightarrow> (\<exists>r\<in>scan_recs s. scan_entry r = (i, e))"
proof -
  let ?ns = "inorder (scan_cache_rb_tree s)"
  have "sorted_wrt (<) (map (\<lambda>n. scan_rank (the (scan_objects s n))) ?ns)"
    using assms by (simp add: scan_table_def node_table_def ordered_by_def)
  then have "distinct (map (\<lambda>n. scan_rank (the (scan_objects s n))) ?ns)"
    by (metis list.map_ident sorted_wrt_less_distinct)
  then have "distinct (map fst (map (\<lambda>n. scan_entry (the (scan_objects s n))) ?ns))"
    by (auto simp: distinct_map scan_entry_def inj_on_def scan_rank_def)
  then show ?thesis
    by (auto simp: contents_def scan_recs_def recs_def map_of_eq_Some_iff image_iff intro: sym)
qed

lemma contents_eqI:
  assumes "scan_table d s" and "\<And>i e. m i = Some e \<longleftrightarrow> (\<exists>r\<in>scan_recs s. scan_entry r = (i, e))"
  shows "contents s = m"
proof
  fix i
  show "contents s i = m i"
  proof (cases "m i")
    case None
    then have "contents s i \<noteq> Some e" for e
      using contents_Some_iff [OF assms(1), of i e] assms(2) [of i e] by simp
    with None show ?thesis by (cases "contents s i") auto
  next
    case (Some e)
    then have "contents s i = Some e"
      using contents_Some_iff [OF assms(1), of i e] assms(2) [of i e] by blast
    with Some show ?thesis by simp
  qed
qed

lemma contents_insert:
  assumes "scan_table d s" and "scan_table d s'"
    and "scan_recs s' = insert r {q \<in> scan_recs s. sc_inode_number q \<noteq> sc_inode_number r}"
  shows "contents s' = (contents s)(sc_inode_number r \<mapsto> (sc_inode_generation r, sc_time_stamp r))"
proof (rule contents_eqI [OF assms(2)])
  fix i e
  show "((contents s)(sc_inode_number r \<mapsto> (sc_inode_generation r, sc_time_stamp r))) i = Some e \<longleftrightarrow>
        (\<exists>r\<in>scan_recs s'. scan_entry r = (i, e))"
    using assms(3) contents_Some_iff [OF assms(1), of i e] by (auto simp: scan_entry_def)
qed

lemma contents_delete:
  assumes "scan_table d s" and "scan_table d s'"
    and "scan_recs s' = {q \<in> scan_recs s. sc_inode_number q \<noteq> i}"
  shows "contents s' = (contents s)(i := None)"
proof (rule contents_eqI [OF assms(2)])
  fix j e
  show "((contents s)(i := None)) j = Some e \<longleftrightarrow> (\<exists>r\<in>scan_recs s'. scan_entry r = (j, e))"
    using assms(3) contents_Some_iff [OF assms(1), of j e] by (auto simp: scan_entry_def)
qed

lemma contents_same:
  assumes "scan_table d s" and "scan_table d s'" and "scan_recs s' = scan_recs s"
  shows "contents s' = contents s"
  by (rule contents_eqI [OF assms(2)]) (simp add: assms(3) contents_Some_iff [OF assms(1)])

lemma kernel_ok_rb [simp]: "kernel_ok K \<Longrightarrow> rb_lib_ok (rbtree K)"
  by (simp add: kernel_ok_def)

lemma kernel_ok_time [simp]: "kernel_ok K \<Longrightarrow> timespec_ok (getnstimeofday K n)"
  by (simp add: kernel_ok_def)

lemma kernel_ok_alloc: "kernel_ok K \<Longrightarrow> kmem_cache_alloc K sl n live = Some a \<Longrightarrow> \<not> live a"
  unfolding kernel_ok_def by blast

lemma cache_invD:
  assumes "cache_inv d s"
  shows "quiescent s" "scan_table d s" "lru_table s"
    "dom (scan_objects s) = set (inorder (scan_cache_rb_tree s))"
    "lru_recs s = lru_of ` scan_recs s"
  using assms by (simp_all add: cache_inv_def)

lemma scan_recs_ok: "scan_table d s \<Longrightarrow> r \<in> scan_recs s \<Longrightarrow> scan_record_ok d r"
  unfolding scan_table_def scan_recs_def by (rule recs_rdom)

lemma lru_recs_ok: "lru_table s \<Longrightarrow> l \<in> lru_recs s \<Longrightarrow> lru_record_ok l"
  unfolding lru_table_def lru_recs_def by (rule recs_rdom)

lemma cache_inv_record_ok:
  assumes "cache_inv d s" and "r \<in> scan_recs s"
  shows "scan_record_ok d r" and "timespec_ok (sc_time_stamp r)" and "lru_of r \<in> lru_recs s"
proof -
  show "scan_record_ok d r"
    using assms scan_recs_ok by (auto simp: cache_inv_def)
  show l: "lru_of r \<in> lru_recs s" using assms by (simp add: cache_inv_def)
  then have "lru_record_ok (lru_of r)"
    using assms(1) lru_recs_ok by (auto simp: cache_inv_def)
  then show "timespec_ok (sc_time_stamp r)" by (simp add: lru_record_ok_def lru_of_def)
qed

text \<open>Two cached records never share a time stamp, since their LRU records do not.\<close>

lemma lru_rank_eq:
  "lru_record_ok l \<Longrightarrow> lru_record_ok l' \<Longrightarrow>
     lru_rank l = lru_rank l' \<longleftrightarrow> lru_time_stamp l = lru_time_stamp l'"
  by (simp add: lru_rank_def lru_record_ok_def timespec_rank_eq)

lemma lru_recs_time_inj:
  assumes "lru_table s" and "l \<in> lru_recs s" and "l' \<in> lru_recs s"
    and "lru_time_stamp l = lru_time_stamp l'"
  shows "l = l'"
  using assms recs_rank_inj [of "lru_objects s" lru_record_ok lru_rank]
  by (simp add: lru_table_def lru_recs_def lru_rank_def)

lemma lru_time_of: "lru_time_stamp (lru_of r) = sc_time_stamp r"
  "lru_time_stamp ` lru_of ` A = sc_time_stamp ` A"
  by (simp_all add: lru_of_def image_image)

lemma lru_of_inj:
  assumes "scan_table d s" and "r \<in> scan_recs s" and "r' \<in> scan_recs s" and "lru_of r = lru_of r'"
  shows "r = r'"
  using assms scan_recs_inode_inj by (auto simp: lru_of_def)

lemma lru_of_image_remove:
  assumes "scan_table d s" and "r \<in> scan_recs s"
  shows "lru_of ` (scan_recs s - {r}) = lru_of ` scan_recs s - {lru_of r}"
  using assms lru_of_inj by blast

section \<open>Effect of the removal and insertion primitives\<close>

lemma remove_lru_effect:
  assumes "\<not> lru_cache_lock s" and "p \<in> set (inorder (lru_cache_rb_tree s))"
    and "lru_objects s p = Some l"
  shows "remove_lru_cache_record K (Some p) s =
    Some (s\<lparr>lru_cache_rb_tree := rb_erase (rbtree K) p (lru_cache_rb_tree s),
            lru_objects := (lru_objects s)(p := None)\<rparr>)"
  using assms
  by (simp add: remove_lru_cache_record_def lock_defs RB_REMOVE_def kmem_cache_free_lru_def
      heap_simps)

lemma remove_scan_effect:
  assumes "\<not> scan_cache_lock s" and "p \<in> set (inorder (scan_cache_rb_tree s))"
    and "scan_objects s p = Some r"
  shows "remove_scan_cache_record K (Some p) s =
    Some (s\<lparr>scan_cache_rb_tree := rb_erase (rbtree K) p (scan_cache_rb_tree s),
            scan_objects := (scan_objects s)(p := None)\<rparr>)"
  using assms
  by (simp add: remove_scan_cache_record_def lock_defs RB_REMOVE_def kmem_cache_free_scan_def
      heap_simps)

text \<open>
  \<open>lru_only s s'\<close>: from \<open>s\<close> to \<open>s'\<close> only the LRU side and the call counter changed.
\<close>

definition lru_only :: "cache_state \<Rightarrow> cache_state \<Rightarrow> bool" where
  "lru_only s s' \<longleftrightarrow> scan_objects s' = scan_objects s \<and>
     scan_cache_rb_tree s' = scan_cache_rb_tree s \<and>
     ptr_scan_cache_slab s' = ptr_scan_cache_slab s \<and> ptr_lru_cache_slab s' = ptr_lru_cache_slab s \<and>
     scan_cache_lock s' = scan_cache_lock s \<and> lru_cache_lock s' = lru_cache_lock s"

lemma lru_only_frame:
  assumes "lru_only s s'"
  shows "scan_objects s' = scan_objects s" "scan_cache_rb_tree s' = scan_cache_rb_tree s"
    "quiescent s' = quiescent s" "scan_recs s' = scan_recs s" "scan_table d s' = scan_table d s"
  using assms by (simp_all add: lru_only_def quiescent_def scan_recs_def scan_table_def)

lemma lru_only_trans: "lru_only s s' \<Longrightarrow> lru_only s' s'' \<Longrightarrow> lru_only s s''"
  by (simp add: lru_only_def)

lemma remove_lru_correct:
  assumes "kernel_ok K" and "quiescent s" and "lru_table s" and "l \<in> lru_recs s"
    and "p \<in> set (inorder (lru_cache_rb_tree s))" and "lru_objects s p = Some l"
  shows "\<exists>s'. remove_lru_cache_record K (Some p) s = Some s' \<and> lru_only s s' \<and> lru_table s' \<and>
           ticks s' = ticks s \<and>
           inorder (lru_cache_rb_tree s') = remove1 p (inorder (lru_cache_rb_tree s)) \<and>
           lru_objects s' = (lru_objects s)(p := None) \<and> lru_recs s' = lru_recs s - {l}"
proof -
  note T = erase_table [OF kernel_ok_rb [OF assms(1)] assms(3) [unfolded lru_table_def] assms(5)]
  show ?thesis
    using remove_lru_effect [OF _ assms(5,6), of K] assms(2,6) T
    by (simp add: quiescent_def lru_only_def lru_table_def lru_recs_def)
qed

text \<open>With an object \<open>p\<close> allocated, what is left of \<open>insert_lru_cache_record\<close>.\<close>

lemma insert_lru_unfold:
  fixes ts :: timespec and dv gen :: u32 and ino :: u64
  assumes "quiescent s"
    and "kmem_cache_alloc K Lru_slab (ticks s) (\<lambda>a. lru_objects s a \<noteq> None) = Some p"
  defines "l \<equiv> \<lparr>lru_time_stamp = ts, lru_dev_id = dv, lru_inode_number = ino, lru_inode_generation = gen\<rparr>"
  shows "insert_lru_cache_record K ts dv ino gen s = do {
      (ret, t) \<leftarrow> RB_INSERT (rbtree K) (lru_cache_rb_tree s) p
        (\<lambda>n. do { q \<leftarrow> ((lru_objects s)(p \<mapsto> l)) n; Some (lru_cache_insert_compare_table l q) });
      Some (ret, s\<lparr>ticks := Suc (ticks s), lru_objects := (lru_objects s)(p \<mapsto> l),
                   lru_cache_rb_tree := t\<rparr>) }"
proof -
  have full: "r\<lparr>lru_time_stamp := ts, lru_dev_id := dv, lru_inode_number := ino,
      lru_inode_generation := gen\<rparr> = l" for r :: lru_cache_record
    by (cases r) (simp add: l_def)
  show ?thesis
    using assms(1,2) by (simp add: insert_lru_cache_record_def lru_cache_alloc_def quiescent_def
        lock_defs full Let_def split_def)
qed

lemma fresh_lru_object:
  assumes "kernel_ok K" and "lru_table s"
    and "kmem_cache_alloc K Lru_slab (ticks s) (\<lambda>a. lru_objects s a \<noteq> None) = Some p"
  shows "p \<notin> set (inorder (lru_cache_rb_tree s))"
proof -
  have "lru_objects s p = None" using kernel_ok_alloc [OF assms(1,3)] by simp
  then show ?thesis using assms(2) unfolding lru_table_def by (auto dest: node_table_live)
qed

text \<open>On a duplicate time stamp the new object stays live and unlinked.\<close>

lemma insert_lru_dup:
  fixes ts :: timespec and dv gen :: u32 and ino :: u64
  assumes K: "kernel_ok K" and Q: "quiescent s" and T: "lru_table s" and ts: "timespec_ok ts"
    and al: "kmem_cache_alloc K Lru_slab (ticks s) (\<lambda>a. lru_objects s a \<noteq> None) = Some p"
    and dup: "ts \<in> lru_time_stamp ` lru_recs s"
  defines "l \<equiv> \<lparr>lru_time_stamp = ts, lru_dev_id = dv, lru_inode_number = ino, lru_inode_generation = gen\<rparr>"
  shows "insert_lru_cache_record K ts dv ino gen s =
     Some (-1, s\<lparr>ticks := Suc (ticks s), lru_objects := (lru_objects s)(p \<mapsto> l)\<rparr>)"
proof -
  let ?m = "(lru_objects s)(p \<mapsto> l)"
  have T': "node_table ?m lru_record_ok lru_rank (lru_cache_rb_tree s)"
    and R: "recs ?m (lru_cache_rb_tree s) = lru_recs s"
    using T fresh_lru_object [OF K T al] by (simp_all add: lru_table_def lru_recs_def)
  obtain q where q: "q \<in> recs ?m (lru_cache_rb_tree s)" "lru_time_stamp q = ts" using dup R by auto
  have "lru_record_ok l" and "lru_rank l = lru_rank q"
    using ts q(2) by (simp_all add: lru_record_ok_def lru_rank_def l_def)
  then have "RB_INSERT (rbtree K) (lru_cache_rb_tree s) p
      (\<lambda>n. do { q \<leftarrow> ?m n; Some (lru_cache_insert_compare_table l q) }) = Some (-1, lru_cache_rb_tree s)"
    using lru_ins.insert_dup [OF T' _ q(1)] by blast
  then show ?thesis using insert_lru_unfold [OF Q al, of ts dv ino gen, folded l_def] by simp
qed

lemma insert_lru_new:
  fixes ts :: timespec and dv gen :: u32 and ino :: u64
  assumes K: "kernel_ok K" and Q: "quiescent s" and T: "lru_table s" and ts: "timespec_ok ts"
    and al: "kmem_cache_alloc K Lru_slab (ticks s) (\<lambda>a. lru_objects s a \<noteq> None) = Some p"
    and new: "ts \<notin> lru_time_stamp ` lru_recs s"
  defines "l \<equiv> \<lparr>lru_time_stamp = ts, lru_dev_id = dv, lru_inode_number = ino, lru_inode_generation = gen\<rparr>"
  shows "\<exists>s'. insert_lru_cache_record K ts dv ino gen s = Some (0, s') \<and> lru_only s s' \<and>
     ticks s' = Suc (ticks s) \<and> lru_table s' \<and> lru_recs s' = insert l (lru_recs s)"
proof -
  let ?m = "(lru_objects s)(p \<mapsto> l)"
  have T': "node_table ?m lru_record_ok lru_rank (lru_cache_rb_tree s)"
    and R: "recs ?m (lru_cache_rb_tree s) = lru_recs s"
    using T fresh_lru_object [OF K T al] by (simp_all add: lru_table_def lru_recs_def)
  have ok: "lru_record_ok l" using ts by (simp add: lru_record_ok_def l_def)
  have "\<forall>r'\<in>recs ?m (lru_cache_rb_tree s). lru_rank r' \<noteq> lru_rank l"
    using R new ok recs_rdom [OF T'] by (auto simp: lru_rank_eq l_def)
  from lru_ins.insert_new [OF kernel_ok_rb [OF K] T' ok _ ok _ this, of p]
  obtain t' where "RB_INSERT (rbtree K) (lru_cache_rb_tree s) p
      (\<lambda>n. do { q \<leftarrow> ?m n; Some (lru_cache_insert_compare_table l q) }) = Some (0, t')"
    "node_table ?m lru_record_ok lru_rank t'" "recs ?m t' = insert l (lru_recs s)"
    using R by auto
  then show ?thesis using insert_lru_unfold [OF Q al, of ts dv ino gen, folded l_def]
    by (simp add: lru_table_def lru_recs_def lru_only_def)
qed

lemma insert_lru_correct:
  assumes K: "kernel_ok K" and Q: "quiescent s" and T: "lru_table s" and ts: "timespec_ok ts"
  shows "\<exists>ret s'. insert_lru_cache_record K ts dv ino gen s = Some (ret, s') \<and> lru_only s s' \<and>
           ticks s' = Suc (ticks s) \<and> lru_table s' \<and>
           (if kmem_cache_alloc K Lru_slab (ticks s) (\<lambda>a. lru_objects s a \<noteq> None) = None \<or>
               ts \<in> lru_time_stamp ` lru_recs s
            then ret = -1 \<and> lru_recs s' = lru_recs s
            else ret = 0 \<and> lru_recs s' = insert \<lparr>lru_time_stamp = ts, lru_dev_id = dv,
                   lru_inode_number = ino, lru_inode_generation = gen\<rparr> (lru_recs s))"
proof (cases "kmem_cache_alloc K Lru_slab (ticks s) (\<lambda>a. lru_objects s a \<noteq> None)")
  case None
  then show ?thesis
    using Q T by (simp add: insert_lru_cache_record_def lru_cache_alloc_def quiescent_def
        lru_only_def lru_table_def lru_recs_def)
next
  case (Some p)
  show ?thesis
  proof (cases "ts \<in> lru_time_stamp ` lru_recs s")
    case True
    then show ?thesis
      using insert_lru_dup [OF K Q T ts Some] fresh_lru_object [OF K T Some] T Some
      by (simp add: lru_only_def lru_table_def lru_recs_def)
  next
    case False
    then show ?thesis using insert_lru_new [OF K Q T ts Some] Some by simp
  qed
qed

section \<open>Lookup\<close>

lemma lru_node_of:
  assumes "lru_table s" and "l \<in> lru_recs s"
  obtains p where "p \<in> set (inorder (lru_cache_rb_tree s))" "lru_objects s p = Some l"
  using assms by (auto simp: lru_recs_def recs_def lru_table_def dest!: node_table_live)

lemma scan_node_of:
  assumes "scan_table d s" and "r \<in> scan_recs s"
  obtains p where "p \<in> set (inorder (scan_cache_rb_tree s))" "scan_objects s p = Some r"
  using assms by (auto simp: scan_recs_def recs_def scan_table_def dest!: node_table_live)

lemma lru_live:
  "lru_table s \<Longrightarrow> p \<in> set (inorder (lru_cache_rb_tree s)) \<Longrightarrow> \<exists>l. lru_objects s p = Some l"
  unfolding lru_table_def by (blast dest: node_table_live)

lemma scan_live:
  "scan_table d s \<Longrightarrow> p \<in> set (inorder (scan_cache_rb_tree s)) \<Longrightarrow> \<exists>r. scan_objects s p = Some r"
  unfolding scan_table_def by (blast dest: node_table_live)

lemma scan_node_rec:
  "p \<in> set (inorder (scan_cache_rb_tree s)) \<Longrightarrow> scan_objects s p = Some r \<Longrightarrow> r \<in> scan_recs s"
  by (force simp: scan_recs_def recs_def)

lemma lru_node_rec:
  "p \<in> set (inorder (lru_cache_rb_tree s)) \<Longrightarrow> lru_objects s p = Some l \<Longrightarrow> l \<in> lru_recs s"
  by (force simp: lru_recs_def recs_def)

lemma lru_search_hit:
  assumes "lru_table s" and "p \<in> set (inorder (lru_cache_rb_tree s))"
    and "lru_objects s p = Some l" and "ts = lru_time_stamp l"
  shows "RB_SEARCH (lru_cache_rb_tree s)
      (\<lambda>n. do { q \<leftarrow> lru_objects s n; Some (lru_cache_find_compare_table \<lparr>lru_key_time_stamp = ts\<rparr> q) })
      = Some (Some p)"
proof -
  have ok: "lru_record_ok l" using assms lru_node_rec lru_recs_ok by blast
  show ?thesis
  proof (rule lru_find.search_Some [OF assms(1) [unfolded lru_table_def] _ assms(2,3)])
    show "lru_key_ok \<lparr>lru_key_time_stamp = ts\<rparr>"
      using ok assms(4) by (simp add: lru_key_ok_def lru_record_ok_def)
    then show "lru_cache_find_compare_table \<lparr>lru_key_time_stamp = ts\<rparr> l = 0"
      using ok assms(4) by (simp add: lru_find.cmp_equal lru_key_rank_def lru_rank_def)
  qed
qed

lemma find_lru_hit:
  assumes "quiescent s" and "lru_table s" and "p \<in> set (inorder (lru_cache_rb_tree s))"
    and "lru_objects s p = Some l"
  shows "find_lru_cache_record (Some \<lparr>lru_key_time_stamp = lru_time_stamp l\<rparr>) s = Some (Some p, s)"
  using assms lru_search_hit [OF assms(2-4) refl]
  by (simp add: find_lru_cache_record_def lock_defs quiescent_def)

definition file_key :: "fileInfo \<Rightarrow> scan_cache_record_compare" where
  "file_key f = \<lparr>key_dev_id = fi_dev_id f, key_inode_number = fi_inode_number f,
     key_inode_generation = fi_inode_generation f\<rparr>"

lemma find_scan_hit:
  assumes "quiescent s" and "scan_table d s" and "p \<in> set (inorder (scan_cache_rb_tree s))"
    and "scan_objects s p = Some r" and "scan_key_ok d k"
    and "key_inode_number k = sc_inode_number r" and "key_inode_generation k = sc_inode_generation r"
  shows "find_scan_cache_record (Some k) s = Some (Some p, s)"
proof -
  have ok: "scan_record_ok d r" using assms scan_node_rec scan_recs_ok by blast
  have "scan_cache_find_compare_table (Some k) (Some r) = 0"
    using assms ok by (simp add: scan_cache_find_compare_zero scan_order_defs difference_u64_small)
  with scan_find.search_Some [OF assms(2) [unfolded scan_table_def] assms(5,3,4)] assms(1)
  show ?thesis by (simp add: find_scan_cache_record_def lock_defs quiescent_def)
qed

lemma find_scan_miss:
  assumes "quiescent s" and "scan_table d s" and "scan_key_ok d k"
    and "\<And>r. r \<in> scan_recs s \<Longrightarrow> sc_inode_number r = key_inode_number k \<Longrightarrow>
           sc_inode_generation r \<noteq> key_inode_generation k"
  shows "find_scan_cache_record (Some k) s = Some (None, s)"
proof -
  have "scan_cache_find_compare_table (Some k) (Some r) \<noteq> 0"
    if "a \<in> set (inorder (scan_cache_rb_tree s))" "scan_objects s a = Some r" for a r
  proof -
    have "r \<in> scan_recs s" using that by (rule scan_node_rec)
    moreover from this have "scan_record_ok d r" using assms(2) scan_recs_ok by blast
    ultimately show ?thesis
      using assms(3) assms(4) [of r] by (auto simp: scan_cache_find_compare_zero scan_order_defs
          difference_u64_small word_uint_eq_iff)
  qed
  with scan_find.search_None [OF assms(2) [unfolded scan_table_def] assms(3)] assms(1)
  show ?thesis by (simp add: find_scan_cache_record_def lock_defs quiescent_def)
qed

section \<open>Updating an existing entry\<close>

text \<open>
  \<open>lru_room K n m\<close>: the \<open>n\<close>th kernel call, if it allocates an LRU record, succeeds as
  long as no more objects are live than in \<open>m\<close>.
\<close>

definition lru_room :: "kernel_api \<Rightarrow> nat \<Rightarrow> lru_cache_record heap \<Rightarrow> bool" where
  "lru_room K n m \<longleftrightarrow> (\<forall>m'. m' \<subseteq>\<^sub>m m \<longrightarrow> kmem_cache_alloc K Lru_slab n (\<lambda>a. m' a \<noteq> None) \<noteq> None)"

lemma lru_roomD:
  "lru_room K n m \<Longrightarrow> m' \<subseteq>\<^sub>m m \<Longrightarrow> kmem_cache_alloc K Lru_slab n (\<lambda>a. m' a \<noteq> None) \<noteq> None"
  unfolding lru_room_def by blast

lemma find_and_update_lru_correct:
  assumes K: "kernel_ok K" and Q: "quiescent s" and T: "lru_table s"
    and old: "scan_objects s op = Some oldr" "lru_of oldr \<in> lru_recs s"
    and new: "scan_objects s np = Some newr" "timespec_ok (sc_time_stamp newr)"
  shows "\<exists>ret s'. find_and_update_lru_cache_record K op np s = Some (ret, s') \<and> lru_only s s' \<and>
           lru_table s' \<and>
           (ret = 0 \<and> lru_recs s' = insert (lru_of newr) (lru_recs s - {lru_of oldr}) \<or>
            ret = -1 \<and> lru_recs s' = lru_recs s - {lru_of oldr}) \<and>
           (lru_room K (ticks s) (lru_objects s) \<longrightarrow>
            sc_time_stamp newr \<notin> lru_time_stamp ` (lru_recs s - {lru_of oldr}) \<longrightarrow> ret = 0)"
proof -
  obtain p where p: "p \<in> set (inorder (lru_cache_rb_tree s))" "lru_objects s p = Some (lru_of oldr)"
    using lru_node_of [OF T old(2)] .
  have hit: "RB_SEARCH (lru_cache_rb_tree s) (\<lambda>n. do { q \<leftarrow> lru_objects s n;
      Some (lru_cache_find_compare_table \<lparr>lru_key_time_stamp = sc_time_stamp oldr\<rparr> q) }) = Some (Some p)"
    by (rule lru_search_hit [OF T p]) (simp add: lru_of_def)
  obtain s1 where s1: "remove_lru_cache_record K (Some p) s = Some s1" "lru_only s s1"
    "lru_table s1" "lru_recs s1 = lru_recs s - {lru_of oldr}" "ticks s1 = ticks s"
    "lru_objects s1 = (lru_objects s)(p := None)"
    using remove_lru_correct [OF K Q T old(2) p] by blast
  have Q1: "quiescent s1" and new1: "scan_objects s1 np = Some newr"
    using s1(2) Q new(1) lru_only_frame by simp_all
  obtain ret s2 where s2: "insert_lru_cache_record K (sc_time_stamp newr) (sc_dev_id newr)
      (sc_inode_number newr) (sc_inode_generation newr) s1 = Some (ret, s2)"
    "lru_only s1 s2" "lru_table s2"
    "ret = 0 \<and> lru_recs s2 = insert (lru_of newr) (lru_recs s1) \<or> ret = -1 \<and> lru_recs s2 = lru_recs s1"
    "kmem_cache_alloc K Lru_slab (ticks s1) (\<lambda>a. lru_objects s1 a \<noteq> None) \<noteq> None \<Longrightarrow>
       sc_time_stamp newr \<notin> lru_time_stamp ` lru_recs s1 \<Longrightarrow> ret = 0"
    using insert_lru_correct [OF K Q1 s1(3) new(2), of "sc_dev_id newr" "sc_inode_number newr"
        "sc_inode_generation newr"] by (auto simp: lru_of_def split: if_splits)
  have room: "lru_room K (ticks s) (lru_objects s) \<Longrightarrow>
      kmem_cache_alloc K Lru_slab (ticks s1) (\<lambda>a. lru_objects s1 a \<noteq> None) \<noteq> None"
    unfolding s1(5,6) by (rule lru_roomD) (auto simp: map_le_def)
  have "find_and_update_lru_cache_record K op np s = Some (ret, s2)"
    using Q old(1) hit s1(1) new1 s2(1)
    by (simp add: find_and_update_lru_cache_record_def lock_defs quiescent_def)
  moreover have "ret = 0" if "lru_room K (ticks s) (lru_objects s)"
    "sc_time_stamp newr \<notin> lru_time_stamp ` (lru_recs s - {lru_of oldr})"
    using s2(5) [OF room] that s1(4) by simp
  ultimately show ?thesis
    using s1(4) s2(2-4) lru_only_trans [OF s1(2) s2(2)] by auto
qed

text \<open>
  \<open>orphan d a s\<close>: the invariant holds but for one live scan object, at \<open>a\<close>, that is
  not in the tree: a record just written and not linked yet, or one just replaced and not
  freed yet.
\<close>

definition orphan :: "u32 \<Rightarrow> addr \<Rightarrow> cache_state \<Rightarrow> bool" where
  "orphan d a s \<longleftrightarrow> quiescent s \<and> scan_table d s \<and> lru_table s \<and>
     a \<notin> set (inorder (scan_cache_rb_tree s)) \<and>
     dom (scan_objects s) = insert a (set (inorder (scan_cache_rb_tree s))) \<and>
     lru_recs s = lru_of ` scan_recs s"

lemma orphan_free:
  assumes "orphan d a s"
  shows "\<exists>s'. kmem_cache_free_scan a s = Some s' \<and> cache_inv d s' \<and> scan_recs s' = scan_recs s"
proof -
  from assms have "a \<in> dom (scan_objects s)" by (simp add: orphan_def)
  then obtain r where r: "scan_objects s a = Some r" by blast
  let ?s = "s\<lparr>scan_objects := (scan_objects s)(a := None)\<rparr>"
  have "kmem_cache_free_scan a s = Some ?s"
    using r by (simp add: kmem_cache_free_scan_def heap_simps)
  moreover have R: "scan_recs ?s = scan_recs s"
    using assms by (simp add: orphan_def scan_recs_def)
  moreover have "cache_inv d ?s"
    using assms R by (auto simp: orphan_def cache_inv_def quiescent_def scan_table_def lru_table_def
        lru_recs_def)
  ultimately show ?thesis by blast
qed

definition pending :: "u32 \<Rightarrow> addr \<Rightarrow> scan_cache_record \<Rightarrow> cache_state \<Rightarrow> bool" where
  "pending d p r s \<longleftrightarrow> orphan d p s \<and> scan_objects s p = Some r \<and>
     scan_record_ok d r \<and> timespec_ok (sc_time_stamp r)"

definition others :: "u64 \<Rightarrow> cache_state \<Rightarrow> scan_cache_record set" where
  "others i s = {q \<in> scan_recs s. sc_inode_number q \<noteq> i}"

lemma others_remove:
  assumes "scan_table d s" and "r \<in> scan_recs s"
  shows "scan_recs s - {r} = others (sc_inode_number r) s"
  using assms scan_recs_inode_inj by (auto simp: others_def)

lemma remove_scan_correct:
  assumes "kernel_ok K" and "quiescent s" and "scan_table d s"
    and "p \<in> set (inorder (scan_cache_rb_tree s))" and "scan_objects s p = Some r"
  shows "\<exists>s'. remove_scan_cache_record K (Some p) s = Some s' \<and> quiescent s' \<and> scan_table d s' \<and>
           scan_objects s' = (scan_objects s)(p := None) \<and>
           set (inorder (scan_cache_rb_tree s')) = set (inorder (scan_cache_rb_tree s)) - {p} \<and>
           scan_recs s' = scan_recs s - {r} \<and>
           lru_objects s' = lru_objects s \<and> lru_cache_rb_tree s' = lru_cache_rb_tree s"
proof -
  note E = erase_table [OF kernel_ok_rb [OF assms(1)] assms(3) [unfolded scan_table_def] assms(4)]
  show ?thesis
    using remove_scan_effect [OF _ assms(4,5), of K] assms(2,5) E
    by (simp add: quiescent_def scan_table_def scan_recs_def)
qed

lemma lru_frame:
  assumes "lru_objects s' = lru_objects s" and "lru_cache_rb_tree s' = lru_cache_rb_tree s"
  shows "lru_table s' = lru_table s" and "lru_recs s' = lru_recs s"
  using assms by (simp_all add: lru_table_def lru_recs_def)

text \<open>Linking the new record in place of the old one, which becomes the orphan.\<close>

lemma replace_pending:
  assumes K: "kernel_ok K" and P: "pending d p r s"
    and old: "a \<in> set (inorder (scan_cache_rb_tree s))" "scan_objects s a = Some oldr"
      "sc_inode_number oldr = sc_inode_number r"
  defines "s1 \<equiv> s\<lparr>scan_cache_rb_tree := rb_replace_node (rbtree K) a p (scan_cache_rb_tree s)\<rparr>"
  shows "quiescent s1" and "scan_table d s1" and "lru_table s1"
    and "set (inorder (scan_cache_rb_tree s1)) = insert p (set (inorder (scan_cache_rb_tree s)) - {a})"
    and "scan_recs s1 = insert r (others (sc_inode_number r) s)"
    and "lru_recs s1 - {lru_of oldr} = lru_of ` others (sc_inode_number r) s"
    and "lru_of oldr \<in> lru_recs s1"
proof -
  have T: "scan_table d s" and LR: "lru_recs s = lru_of ` scan_recs s" and rp: "scan_objects s p = Some r"
    and ok: "scan_record_ok d r" and pn: "p \<notin> set (inorder (scan_cache_rb_tree s))"
    using P by (simp_all add: pending_def orphan_def)
  have o: "oldr \<in> scan_recs s" using old(1,2) by (rule scan_node_rec)
  have rk: "scan_rank r = scan_rank (the (scan_objects s a))" using old by (simp add: scan_rank_eq)
  note R = replace_table [OF kernel_ok_rb [OF K] T [unfolded scan_table_def] old(1) pn rp ok rk]
  have oth: "scan_recs s - {oldr} = others (sc_inode_number r) s"
    using others_remove [OF T o] old(3) by simp
  show "quiescent s1" "lru_table s1" using P
    by (simp_all add: s1_def pending_def orphan_def quiescent_def lru_table_def)
  show "scan_table d s1" using R(2) by (simp add: s1_def scan_table_def)
  show "set (inorder (scan_cache_rb_tree s1)) = insert p (set (inorder (scan_cache_rb_tree s)) - {a})"
    using R(1) by (simp add: s1_def)
  show "scan_recs s1 = insert r (others (sc_inode_number r) s)"
    using R(3) oth old(2) by (simp add: s1_def scan_recs_def)
  have L: "lru_recs s1 = lru_of ` scan_recs s" using LR by (simp add: s1_def lru_recs_def)
  then show "lru_recs s1 - {lru_of oldr} = lru_of ` others (sc_inode_number r) s"
    using lru_of_image_remove [OF T o] oth by simp
  show "lru_of oldr \<in> lru_recs s1" using L o by simp
qed

text \<open>The clean-up after the LRU side has been updated, or has failed to be.\<close>

lemma finish_update:
  fixes ret :: int
  assumes K: "kernel_ok K" and Q: "quiescent s" and T: "scan_table d s" "lru_table s"
    and p: "p \<in> set (inorder (scan_cache_rb_tree s))" "scan_objects s p = Some r"
    and a: "a \<notin> set (inorder (scan_cache_rb_tree s))"
      "dom (scan_objects s) = insert a (set (inorder (scan_cache_rb_tree s)))"
    and S: "scan_recs s = insert r R" "r \<notin> R"
    and ret: "ret = 0 \<and> lru_recs s = lru_of ` insert r R \<or> ret = -1 \<and> lru_recs s = lru_of ` R"
  shows "\<exists>s'. do { s \<leftarrow> (if ret \<noteq> 0 then remove_scan_cache_record K (Some p) s else Some s);
                  s \<leftarrow> kmem_cache_free_scan a s; Some (ret, s) } = Some (ret, s') \<and>
           cache_inv d s' \<and> (ret = 0 \<and> scan_recs s' = insert r R \<or> ret = -1 \<and> scan_recs s' = R)"
proof (cases "ret = 0")
  case True
  then have "orphan d a s" using Q T a S ret by (auto simp: orphan_def)
  from orphan_free [OF this] S True show ?thesis by auto
next
  case False
  obtain s3 where s3: "remove_scan_cache_record K (Some p) s = Some s3" "quiescent s3"
    "scan_table d s3" "scan_objects s3 = (scan_objects s)(p := None)"
    "set (inorder (scan_cache_rb_tree s3)) = set (inorder (scan_cache_rb_tree s)) - {p}"
    "scan_recs s3 = R" "lru_objects s3 = lru_objects s" "lru_cache_rb_tree s3 = lru_cache_rb_tree s"
    using remove_scan_correct [OF K Q T(1) p] S by auto
  note F = lru_frame [OF s3(7,8)]
  have "orphan d a s3"
    using s3 F T(2) a p ret False by (auto simp: orphan_def)
  from orphan_free [OF this] s3 False ret show ?thesis by auto
qed

lemma update_scan_correct:
  assumes K: "kernel_ok K" and P: "pending d p r s"
    and old: "oldr \<in> scan_recs s" "sc_inode_number oldr = sc_inode_number r"
  shows "\<exists>ret s'. find_and_update_scan_cache_record K (Some p) s = Some (ret, s') \<and> cache_inv d s' \<and>
           (ret = 0 \<and> scan_recs s' = insert r (others (sc_inode_number r) s) \<or>
            ret = -1 \<and> scan_recs s' = others (sc_inode_number r) s) \<and>
           (lru_room K (ticks s) (lru_objects s) \<longrightarrow>
            sc_time_stamp r \<notin> sc_time_stamp ` others (sc_inode_number r) s \<longrightarrow> ret = 0)"
proof -
  have Q: "quiescent s" and T: "scan_table d s" and pn: "p \<notin> set (inorder (scan_cache_rb_tree s))"
    and D: "dom (scan_objects s) = insert p (set (inorder (scan_cache_rb_tree s)))"
    and rp: "scan_objects s p = Some r" and ok: "scan_record_ok d r"
    and ts: "timespec_ok (sc_time_stamp r)"
    using P by (simp_all add: pending_def orphan_def)
  obtain a where a: "a \<in> set (inorder (scan_cache_rb_tree s))" "scan_objects s a = Some oldr"
    using scan_node_of [OF T old(1)] .
  have hit: "RB_SEARCH (scan_cache_rb_tree s) (\<lambda>n. do { q \<leftarrow> scan_objects s n;
      Some (scan_cache_insert_compare_table (Some r) (Some q)) }) = Some (Some a)"
    using scan_ins.search_Some [OF T [unfolded scan_table_def] ok a] old(2)
      scan_ins.cmp_equal [OF ok scan_recs_ok [OF T old(1)]] by (simp add: scan_rank_eq)
  define s1 where
    "s1 = s\<lparr>scan_cache_rb_tree := rb_replace_node (rbtree K) a p (scan_cache_rb_tree s)\<rparr>"
  note S1 = replace_pending [OF K P a old(2), folded s1_def]
  have objs: "scan_objects s1 = scan_objects s" "lru_objects s1 = lru_objects s" "ticks s1 = ticks s"
    by (simp_all add: s1_def)
  obtain ret s2 where s2: "find_and_update_lru_cache_record K a p s1 = Some (ret, s2)"
    "lru_only s1 s2" "lru_table s2"
    "ret = 0 \<and> lru_recs s2 = lru_of ` insert r (others (sc_inode_number r) s) \<or>
     ret = -1 \<and> lru_recs s2 = lru_of ` others (sc_inode_number r) s"
    "lru_room K (ticks s) (lru_objects s) \<longrightarrow>
      sc_time_stamp r \<notin> sc_time_stamp ` others (sc_inode_number r) s \<longrightarrow> ret = 0"
    using find_and_update_lru_correct [OF K S1(1,3), of a oldr p r] S1(6,7) a(2) rp ts objs
    by (auto simp: lru_time_of)
  have call: "find_and_update_scan_cache_record K (Some p) s = do {
      s \<leftarrow> (if ret \<noteq> 0 then remove_scan_cache_record K (Some p) s2 else Some s2);
      s \<leftarrow> kmem_cache_free_scan a s;
      Some (ret, s) }"
    using Q hit a(1) pn rp s2(1) unfolding s1_def
    by (simp add: find_and_update_scan_cache_record_def lock_defs quiescent_def RB_REPLACE_def)
  note F = lru_only_frame [OF s2(2)]
  have R: "r \<notin> others (sc_inode_number r) s" by (simp add: others_def)
  have inu: "set (inorder (scan_cache_rb_tree s2)) = insert p (set (inorder (scan_cache_rb_tree s)) - {a})"
    using F(2) S1(4) by simp
  then have p2: "p \<in> set (inorder (scan_cache_rb_tree s2))"
    and a2: "a \<notin> set (inorder (scan_cache_rb_tree s2))"
    and D2: "dom (scan_objects s2) = insert a (set (inorder (scan_cache_rb_tree s2)))"
    using a(1) pn D F(1) objs by auto
  show ?thesis
    unfolding call
    using finish_update [OF K _ _ s2(3) p2 _ a2 D2 _ R s2(4), of d] F S1(1,2,5) objs(1) rp s2(5)
    by auto
qed

section \<open>Insertion\<close>

text \<open>The record that \<open>insert_scan_cache_record\<close> writes.\<close>

definition new_record :: "kernel_api \<Rightarrow> fileInfo \<Rightarrow> cache_state \<Rightarrow> scan_cache_record" where
  "new_record K f s = (fresh_scan_object K (ticks s))
     \<lparr>sc_dev_id := fi_dev_id f, sc_inode_number := fi_inode_number f,
      sc_inode_generation := fi_inode_generation f,
      sc_time_stamp := getnstimeofday K (Suc (ticks s))\<rparr>"

lemma new_record_simps [simp]:
  "sc_dev_id (new_record K f s) = fi_dev_id f"
  "sc_inode_number (new_record K f s) = fi_inode_number f"
  "sc_inode_generation (new_record K f s) = fi_inode_generation f"
  "sc_time_stamp (new_record K f s) = getnstimeofday K (Suc (ticks s))"
  by (simp_all add: new_record_def)

text \<open>The state in which \<open>RB_INSERT\<close> runs.\<close>

definition written :: "kernel_api \<Rightarrow> fileInfo \<Rightarrow> addr \<Rightarrow> cache_state \<Rightarrow> cache_state" where
  "written K f p s = s\<lparr>ticks := Suc (Suc (ticks s)),
     scan_objects := (scan_objects s)(p \<mapsto> new_record K f s)\<rparr>"

lemma written_pending:
  assumes "kernel_ok K" and "cache_inv d s" and "scan_objects s p = None"
    and "fi_dev_id f = d" and "uint (fi_inode_number f) < 2 ^ 63"
  shows "pending d p (new_record K f s) (written K f p s)"
    and "scan_recs (written K f p s) = scan_recs s"
    and "others i (written K f p s) = others i s"
    and "ticks (written K f p s) = Suc (Suc (ticks s))"
    and "lru_objects (written K f p s) = lru_objects s"
proof -
  have pn: "p \<notin> set (inorder (scan_cache_rb_tree s))"
    using cache_invD(4) [OF assms(2)] assms(3) by auto
  then show R: "scan_recs (written K f p s) = scan_recs s"
    by (simp add: scan_recs_def written_def)
  then show "others i (written K f p s) = others i s" by (simp add: others_def)
  have "orphan d p (written K f p s)"
    using assms(2) pn R unfolding cache_inv_def orphan_def
    by (simp add: written_def quiescent_def scan_table_def lru_table_def lru_recs_def)
  then show "pending d p (new_record K f s) (written K f p s)"
    using assms by (simp add: pending_def scan_record_ok_def) (simp add: written_def)
qed (simp_all add: written_def)

lemma insert_scan_unfold:
  assumes "quiescent s"
    and "kmem_cache_alloc K Scan_slab (ticks s) (\<lambda>a. scan_objects s a \<noteq> None) = Some p"
  shows "insert_scan_cache_record K f s = do {
     (ret, t) \<leftarrow> RB_INSERT (rbtree K) (scan_cache_rb_tree s) p
        (\<lambda>n. do { q \<leftarrow> scan_objects (written K f p s) n;
                  Some (scan_cache_insert_compare_table (Some (new_record K f s)) (Some q)) });
     let s' = (written K f p s)\<lparr>scan_cache_rb_tree := t\<rparr>;
     if ret \<noteq> 0 then find_and_update_scan_cache_record K (Some p) s'
     else do {
       (ret, s') \<leftarrow> insert_lru_cache_record K (getnstimeofday K (Suc (ticks s))) (fi_dev_id f)
          (fi_inode_number f) (fi_inode_generation f) s';
       s' \<leftarrow> (if ret \<noteq> 0 then remove_scan_cache_record K (Some p) s' else Some s');
       Some (ret, s') } }"
  using assms
  by (simp add: insert_scan_cache_record_def scan_cache_alloc_def quiescent_def lock_defs
      get_time_stamp_def Let_def written_def new_record_def split_def cong: if_cong)

lemma insert_new_correct:
  assumes K: "kernel_ok K" and P: "pending d p r s"
    and new: "\<forall>q\<in>scan_recs s. sc_inode_number q \<noteq> sc_inode_number r"
    and rb: "node_table (scan_objects s) (scan_record_ok d) scan_rank t"
      "set (inorder t) = insert p (set (inorder (scan_cache_rb_tree s)))"
      "recs (scan_objects s) t = insert r (scan_recs s)"
  defines "s1 \<equiv> s\<lparr>scan_cache_rb_tree := t\<rparr>"
  shows "\<exists>ret s'. do {
       (ret, s') \<leftarrow> insert_lru_cache_record K (sc_time_stamp r) (sc_dev_id r)
          (sc_inode_number r) (sc_inode_generation r) s1;
       s' \<leftarrow> (if ret \<noteq> 0 then remove_scan_cache_record K (Some p) s' else Some s');
       Some (ret, s') } = Some (ret, s') \<and> cache_inv d s' \<and>
     (ret = 0 \<and> scan_recs s' = insert r (scan_recs s) \<or> ret = -1 \<and> scan_recs s' = scan_recs s) \<and>
     (lru_room K (ticks s) (lru_objects s) \<longrightarrow>
      sc_time_stamp r \<notin> sc_time_stamp ` scan_recs s \<longrightarrow> ret = 0)"
proof -
  have S: "quiescent s1" "scan_table d s1" "lru_table s1" "scan_recs s1 = insert r (scan_recs s)"
    "lru_recs s1 = lru_of ` scan_recs s" "ticks s1 = ticks s" "lru_objects s1 = lru_objects s"
    "dom (scan_objects s1) = set (inorder t)" "scan_objects s1 p = Some r" "scan_cache_rb_tree s1 = t"
    using P rb by (simp_all add: s1_def pending_def orphan_def quiescent_def scan_table_def
        lru_table_def scan_recs_def lru_recs_def)
  have ts: "timespec_ok (sc_time_stamp r)" using P by (simp add: pending_def)
  have rn: "r \<notin> scan_recs s" using new by blast
  obtain ret s2 where s2: "insert_lru_cache_record K (sc_time_stamp r) (sc_dev_id r)
      (sc_inode_number r) (sc_inode_generation r) s1 = Some (ret, s2)" "lru_only s1 s2" "lru_table s2"
    "ret = 0 \<and> lru_recs s2 = lru_of ` insert r (scan_recs s) \<or>
     ret = -1 \<and> lru_recs s2 = lru_of ` scan_recs s"
    "kmem_cache_alloc K Lru_slab (ticks s) (\<lambda>a. lru_objects s a \<noteq> None) \<noteq> None \<Longrightarrow>
     sc_time_stamp r \<notin> sc_time_stamp ` scan_recs s \<Longrightarrow> ret = 0"
    using insert_lru_correct [OF K S(1,3) ts, of "sc_dev_id r" "sc_inode_number r"
        "sc_inode_generation r"] S(5-7)
    by (auto simp: lru_time_of lru_of_def [of r] split: if_splits)
  note F = lru_only_frame [OF s2(2)]
  have room: "ret = 0" if "lru_room K (ticks s) (lru_objects s)"
    "sc_time_stamp r \<notin> sc_time_stamp ` scan_recs s"
    using s2(5) [OF lru_roomD [OF that(1) map_le_refl] that(2)] .
  show ?thesis
  proof (cases "ret = 0")
    case True
    then have "cache_inv d s2" using F S s2(3,4) rb(2) by (auto simp: cache_inv_def)
    then show ?thesis using True s2(1) F(4) S(4) by simp
  next
    case False
    obtain s3 where s3: "remove_scan_cache_record K (Some p) s2 = Some s3" "quiescent s3"
      "scan_table d s3" "scan_objects s3 = (scan_objects s2)(p := None)"
      "set (inorder (scan_cache_rb_tree s3)) = set (inorder (scan_cache_rb_tree s2)) - {p}"
      "scan_recs s3 = scan_recs s"
      "lru_objects s3 = lru_objects s2" "lru_cache_rb_tree s3 = lru_cache_rb_tree s2"
      using remove_scan_correct [OF K, of s2 d p r] F S rb(2) rn by auto
    note G = lru_frame [OF s3(7,8)]
    have "cache_inv d s3" using s3 G F S s2(3,4) rb(2) False by (auto simp: cache_inv_def)
    then show ?thesis using False s2(1,4) s3(1,6) room by auto
  qed
qed

lemma insert_scan_correct:
  assumes K: "kernel_ok K" and I: "cache_inv d s" and f: "fi_dev_id f = d" "uint (fi_inode_number f) < 2 ^ 63"
    and al: "kmem_cache_alloc K Scan_slab (ticks s) (\<lambda>a. scan_objects s a \<noteq> None) = Some p"
  shows "\<exists>ret s'. insert_scan_cache_record K f s = Some (ret, s') \<and> cache_inv d s' \<and>
     (ret = 0 \<and> scan_recs s' = insert (new_record K f s) (others (fi_inode_number f) s) \<or>
      ret = -1 \<and> scan_recs s' = others (fi_inode_number f) s) \<and>
     (lru_room K (Suc (Suc (ticks s))) (lru_objects s) \<longrightarrow>
      getnstimeofday K (Suc (ticks s)) \<notin> sc_time_stamp ` others (fi_inode_number f) s \<longrightarrow> ret = 0)"
proof -
  let ?w = "written K f p s" and ?r = "new_record K f s"
  have pn: "scan_objects s p = None" using kernel_ok_alloc [OF K al] by simp
  note W = written_pending [OF K I pn f]
  have T: "node_table (scan_objects ?w) (scan_record_ok d) scan_rank (scan_cache_rb_tree s)"
    and ok: "scan_record_ok d ?r" and rp: "scan_objects ?w p = Some ?r"
    using W(1) by (simp_all add: pending_def orphan_def scan_table_def) (simp_all add: written_def)
  have R: "recs (scan_objects ?w) (scan_cache_rb_tree s) = scan_recs s"
    using W(2) by (simp add: scan_recs_def written_def)
  note U = insert_scan_unfold [OF cache_invD(1) [OF I] al, of f]
  show ?thesis
  proof (cases "\<exists>q\<in>scan_recs s. sc_inode_number q = fi_inode_number f")
    case True
    then obtain q where q: "q \<in> scan_recs s" "sc_inode_number q = fi_inode_number f" by blast
    have id: "?w\<lparr>scan_cache_rb_tree := scan_cache_rb_tree s\<rparr> = ?w" by (simp add: written_def)
    have "scan_rank ?r = scan_rank q" using q(2) by (simp add: scan_rank_eq)
    with scan_ins.insert_dup [OF T ok, of q] q(1) R U id
    have "insert_scan_cache_record K f s = find_and_update_scan_cache_record K (Some p) ?w" by simp
    then show ?thesis
      using update_scan_correct [OF K W(1), of q] q W(2-5) by simp
  next
    case False
    then have "\<forall>r'\<in>recs (scan_objects ?w) (scan_cache_rb_tree s). scan_rank r' \<noteq> scan_rank ?r"
      using R by (auto simp: scan_rank_eq)
    from scan_ins.insert_new [OF kernel_ok_rb [OF K] T ok rp ok refl this]
    obtain t' where t': "RB_INSERT (rbtree K) (scan_cache_rb_tree s) p
        (\<lambda>n. do { q \<leftarrow> scan_objects ?w n;
                  Some (scan_cache_insert_compare_table (Some ?r) (Some q)) }) = Some (0, t')"
      "node_table (scan_objects ?w) (scan_record_ok d) scan_rank t'"
      "set (inorder t') = insert p (set (inorder (scan_cache_rb_tree ?w)))"
      "recs (scan_objects ?w) t' = insert ?r (scan_recs ?w)"
      using R W(2) by (auto simp: written_def)
    have oth: "others (fi_inode_number f) s = scan_recs s" using False by (auto simp: others_def)
    show ?thesis
      using insert_new_correct [OF K W(1) _ t'(2-4)] U t'(1) False W(2-5) oth by simp
  qed
qed

section \<open>Removal\<close>

text \<open>Removing a scan record together with its LRU record keeps the invariant.\<close>

lemma evict_pair:
  assumes K: "kernel_ok K" and I: "cache_inv d s"
    and q: "q \<in> set (inorder (scan_cache_rb_tree s))" "scan_objects s q = Some r"
    and p: "p \<in> set (inorder (lru_cache_rb_tree s))" "lru_objects s p = Some (lru_of r)"
  shows "\<exists>s1 s2. remove_lru_cache_record K (Some p) s = Some s1 \<and> lru_only s s1 \<and>
     remove_scan_cache_record K (Some q) s1 = Some s2 \<and> cache_inv d s2 \<and>
     scan_recs s2 = scan_recs s - {r} \<and>
     inorder (lru_cache_rb_tree s2) = remove1 p (inorder (lru_cache_rb_tree s)) \<and>
     lru_objects s2 = (lru_objects s)(p := None)"
proof -
  note D = cache_invD [OF I]
  have l: "lru_of r \<in> lru_recs s" using p by (rule lru_node_rec)
  obtain s1 where s1: "remove_lru_cache_record K (Some p) s = Some s1" "lru_only s s1" "lru_table s1"
    "inorder (lru_cache_rb_tree s1) = remove1 p (inorder (lru_cache_rb_tree s))"
    "lru_objects s1 = (lru_objects s)(p := None)" "lru_recs s1 = lru_recs s - {lru_of r}"
    using remove_lru_correct [OF K D(1,3) l p] by blast
  note F = lru_only_frame [OF s1(2)]
  obtain s2 where s2: "remove_scan_cache_record K (Some q) s1 = Some s2" "quiescent s2"
    "scan_table d s2" "scan_objects s2 = (scan_objects s)(q := None)"
    "set (inorder (scan_cache_rb_tree s2)) = set (inorder (scan_cache_rb_tree s)) - {q}"
    "scan_recs s2 = scan_recs s - {r}"
    "lru_objects s2 = lru_objects s1" "lru_cache_rb_tree s2 = lru_cache_rb_tree s1"
    using remove_scan_correct [OF K, of s1 d q r] F D q by auto
  note G = lru_frame [OF s2(7,8)]
  have r: "r \<in> scan_recs s" using q by (rule scan_node_rec)
  have "cache_inv d s2"
    unfolding cache_inv_def
    using s2 G s1(3,6) D(4,5) lru_of_image_remove [OF D(2) r] by auto
  then show ?thesis using s1 s2 by auto
qed

lemma file_key_ok:
  "fi_dev_id f = d \<Longrightarrow> uint (fi_inode_number f) < 2 ^ 63 \<Longrightarrow> scan_key_ok d (file_key f)"
  by (simp add: scan_key_ok_def file_key_def)

lemma find_remove_hit:
  assumes K: "kernel_ok K" and I: "cache_inv d s" and f: "fi_dev_id f = d" "uint (fi_inode_number f) < 2 ^ 63"
    and r: "r \<in> scan_recs s" "sc_inode_number r = fi_inode_number f"
      "sc_inode_generation r = fi_inode_generation f"
  shows "\<exists>s'. find_remove_scan_cache_record K f s = Some (True, s') \<and> cache_inv d s' \<and>
     scan_recs s' = others (fi_inode_number f) s"
proof -
  note D = cache_invD [OF I]
  obtain q where q: "q \<in> set (inorder (scan_cache_rb_tree s))" "scan_objects s q = Some r"
    using scan_node_of [OF D(2) r(1)] .
  obtain p where p: "p \<in> set (inorder (lru_cache_rb_tree s))" "lru_objects s p = Some (lru_of r)"
    using lru_node_of [OF D(3) cache_inv_record_ok(3) [OF I r(1)]] .
  have hit: "find_scan_cache_record (Some (file_key f)) s = Some (Some q, s)"
    using find_scan_hit [OF D(1,2) q file_key_ok [OF f]] r by (simp add: file_key_def)
  have lru: "find_lru_cache_record (Some \<lparr>lru_key_time_stamp = sc_time_stamp r\<rparr>) s = Some (Some p, s)"
    using find_lru_hit [OF D(1,3) p] by (simp add: lru_time_of)
  obtain s1 s2 where "remove_lru_cache_record K (Some p) s = Some s1" "lru_only s s1"
    "remove_scan_cache_record K (Some q) s1 = Some s2" "cache_inv d s2" "scan_recs s2 = scan_recs s - {r}"
    using evict_pair [OF K I q p] by blast
  then show ?thesis
    using hit lru q(2) others_remove [OF D(2) r(1)] r(2)
    by (simp add: find_remove_scan_cache_record_def find_remove_lru_cache_record_def file_key_def)
qed

lemma find_remove_miss:
  assumes I: "cache_inv d s" and f: "fi_dev_id f = d" "uint (fi_inode_number f) < 2 ^ 63"
    and miss: "\<And>r. r \<in> scan_recs s \<Longrightarrow> sc_inode_number r = fi_inode_number f \<Longrightarrow>
       sc_inode_generation r \<noteq> fi_inode_generation f"
  shows "find_remove_scan_cache_record K f s = Some (False, s)"
proof -
  have "find_scan_cache_record (Some (file_key f)) s = Some (None, s)"
    using find_scan_miss [OF cache_invD(1,2) [OF I] file_key_ok [OF f]] miss
    by (simp add: file_key_def)
  then show ?thesis by (simp add: find_remove_scan_cache_record_def file_key_def)
qed

section \<open>Eviction in LRU order\<close>

lemma set_lru_order: "set (lru_order s) = lru_recs s"
  by (simp add: lru_order_def lru_recs_def recs_def)

lemma lru_order_sorted:
  "lru_table s \<Longrightarrow> sorted_wrt (<) (map (\<lambda>l. timespec_rank (lru_time_stamp l)) (lru_order s))"
  by (simp add: lru_table_def node_table_def ordered_by_def lru_order_def lru_rank_def comp_def)

lemma lru_order_tl:
  assumes "lru_table s" and "inorder (lru_cache_rb_tree s) = p # ps"
    and "inorder (lru_cache_rb_tree s') = ps" and "lru_objects s' = (lru_objects s)(p := None)"
  shows "lru_order s' = tl (lru_order s)"
proof -
  have "p \<notin> set ps"
    using assms(1,2) node_table_distinct [of "lru_objects s" lru_record_ok lru_rank "lru_cache_rb_tree s"]
    by (simp add: lru_table_def)
  then show ?thesis using assms by (auto simp: lru_order_def)
qed

lemma contents_subset:
  assumes "cache_inv d s" and "cache_inv d s'" and "scan_recs s' \<subseteq> scan_recs s"
  shows "contents s' = contents s |` (lru_inode_number ` lru_recs s')"
proof (rule contents_eqI [OF cache_invD(2) [OF assms(2)]])
  fix i e
  have L: "i \<in> lru_inode_number ` lru_recs s' \<longleftrightarrow> (\<exists>r\<in>scan_recs s'. sc_inode_number r = i)"
    using cache_invD(5) [OF assms(2)] by (auto simp: lru_of_def image_iff)
  show "(contents s |` (lru_inode_number ` lru_recs s')) i = Some e \<longleftrightarrow>
      (\<exists>r\<in>scan_recs s'. scan_entry r = (i, e))"
    using L contents_Some_iff [OF cache_invD(2) [OF assms(1)], of i e] assms(3)
      scan_recs_inode_inj [OF cache_invD(2) [OF assms(1)]]
    by (auto simp: restrict_map_def scan_entry_def)
qed

lemma remove_cache_entry_step:
  assumes K: "kernel_ok K" and I: "cache_inv d s" and ne: "inorder (lru_cache_rb_tree s) = p # ps"
  shows "\<exists>s'. cache_inv d s' \<and> scan_recs s' \<subseteq> scan_recs s \<and> lru_order s' = tl (lru_order s) \<and>
     inorder (lru_cache_rb_tree s') = ps \<and> lru_objects s' = (lru_objects s)(p := None) \<and>
     remove_cache_entry_loop K count k s =
       (if k + 1 \<ge> count then Some s' else remove_cache_entry_loop K count (k + 1) s')"
proof -
  note D = cache_invD [OF I]
  have pin: "p \<in> set (inorder (lru_cache_rb_tree s))" using ne by simp
  then obtain l where l: "lru_objects s p = Some l"
    using lru_live [OF D(3)] by blast
  then have "l \<in> lru_of ` scan_recs s" using lru_node_rec [OF pin l] D(5) by simp
  then obtain r where r: "r \<in> scan_recs s" "l = lru_of r" by blast
  obtain q where q: "q \<in> set (inorder (scan_cache_rb_tree s))" "scan_objects s q = Some r"
    using scan_node_of [OF D(2) r(1)] .
  have hit: "find_scan_cache_record (Some \<lparr>key_dev_id = lru_dev_id l,
      key_inode_number = lru_inode_number l, key_inode_generation = lru_inode_generation l\<rparr>) s
      = Some (Some q, s)"
    using find_scan_hit [OF D(1,2) q] cache_inv_record_ok(1) [OF I r(1)]
    by (simp add: r(2) lru_of_def scan_key_ok_def scan_record_ok_def)
  obtain s1 s2 where s2: "remove_lru_cache_record K (Some p) s = Some s1" "lru_only s s1"
    "remove_scan_cache_record K (Some q) s1 = Some s2" "cache_inv d s2" "scan_recs s2 = scan_recs s - {r}"
    "inorder (lru_cache_rb_tree s2) = remove1 p (inorder (lru_cache_rb_tree s))"
    "lru_objects s2 = (lru_objects s)(p := None)"
    using evict_pair [OF K I q pin] l r(2) by blast
  have "\<not> RB_EMPTY_ROOT (lru_cache_rb_tree s)" using ne by (auto simp: RB_EMPTY_ROOT_def)
  moreover have "RB_FIRST (rbtree K) (lru_cache_rb_tree s) = Some p"
    using RB_FIRST_inorder [OF kernel_ok_rb [OF K]] ne by simp
  ultimately have "remove_cache_entry_loop K count k s =
      (if k + 1 \<ge> count then Some s2 else remove_cache_entry_loop K count (k + 1) s2)"
    using l hit s2(1,3) by (subst remove_cache_entry_loop.simps) simp
  moreover have "inorder (lru_cache_rb_tree s2) = ps" using s2(6) ne by simp
  moreover from this have "lru_order s2 = tl (lru_order s)"
    using lru_order_tl [OF D(3) ne _ s2(7)] by simp
  ultimately show ?thesis using s2(4,5,7) by blast
qed

lemma remove_cache_entry_loop_correct:
  assumes "kernel_ok K" and "cache_inv d s" and "k < count"
  shows "\<exists>s'. remove_cache_entry_loop K count k s = Some s' \<and> cache_inv d s' \<and>
     scan_recs s' \<subseteq> scan_recs s \<and> lru_order s' = drop (nat (count - k)) (lru_order s)"
  using assms(2,3)
proof (induction "inorder (lru_cache_rb_tree s)" arbitrary: s k)
  case Nil
  then have "lru_cache_rb_tree s = \<langle>\<rangle>" by (metis inorder_eq_Nil)
  then show ?case using Nil.prems
    by (subst remove_cache_entry_loop.simps) (simp add: RB_EMPTY_ROOT_def lru_order_def)
next
  case (Cons p ps)
  obtain s1 where s1: "cache_inv d s1" "scan_recs s1 \<subseteq> scan_recs s" "lru_order s1 = tl (lru_order s)"
    "inorder (lru_cache_rb_tree s1) = ps"
    "remove_cache_entry_loop K count k s =
       (if k + 1 \<ge> count then Some s1 else remove_cache_entry_loop K count (k + 1) s1)"
    using remove_cache_entry_step [OF assms(1) Cons.prems(1) Cons.hyps(2) [symmetric]] by blast
  show ?case
  proof (cases "k + 1 \<ge> count")
    case True
    then have "nat (count - k) = 1" using Cons.prems(2) by linarith
    then show ?thesis using True s1 by (simp add: drop_Suc)
  next
    case False
    have "nat (count - k) = Suc (nat (count - (k + 1)))" using False by linarith
    then have "drop (nat (count - k)) (lru_order s) = drop (nat (count - (k + 1))) (lru_order s1)"
      using s1(3) by (simp add: drop_Suc)
    then show ?thesis
      using Cons.hyps(1) [OF s1(4) [symmetric] s1(1), of "k + 1"] False s1(2,5) by auto
  qed
qed

text \<open>Eviction only frees linked LRU objects.\<close>

lemma remove_cache_entry_loop_unlinked:
  assumes "kernel_ok K" and "cache_inv d s" and "k < count"
  shows "\<exists>s'. remove_cache_entry_loop K count k s = Some s' \<and> cache_inv d s' \<and>
     dom (lru_objects s') - set (inorder (lru_cache_rb_tree s')) \<subseteq>
     dom (lru_objects s) - set (inorder (lru_cache_rb_tree s))"
  using assms(2,3)
proof (induction "inorder (lru_cache_rb_tree s)" arbitrary: s k)
  case Nil
  then have "lru_cache_rb_tree s = \<langle>\<rangle>" by (metis inorder_eq_Nil)
  then show ?case using Nil.prems
    by (subst remove_cache_entry_loop.simps) (simp add: RB_EMPTY_ROOT_def)
next
  case (Cons p ps)
  obtain s1 where s1: "cache_inv d s1" "inorder (lru_cache_rb_tree s1) = ps"
    "lru_objects s1 = (lru_objects s)(p := None)"
    "remove_cache_entry_loop K count k s =
       (if k + 1 \<ge> count then Some s1 else remove_cache_entry_loop K count (k + 1) s1)"
    using remove_cache_entry_step [OF assms(1) Cons.prems(1) Cons.hyps(2) [symmetric]] by blast
  have sub: "dom (lru_objects s1) - set (inorder (lru_cache_rb_tree s1)) \<subseteq>
      dom (lru_objects s) - set (inorder (lru_cache_rb_tree s))"
    using s1(2,3) by (auto simp flip: Cons.hyps(2))
  show ?case
  proof (cases "k + 1 \<ge> count")
    case True
    then show ?thesis using s1(1,4) sub by simp
  next
    case False
    then obtain s2 where "remove_cache_entry_loop K count (k + 1) s1 = Some s2" "cache_inv d s2"
      "dom (lru_objects s2) - set (inorder (lru_cache_rb_tree s2)) \<subseteq>
       dom (lru_objects s1) - set (inorder (lru_cache_rb_tree s1))"
      using Cons.hyps(1) [OF s1(2) [symmetric] s1(1), of "k + 1"] by auto
    then show ?thesis using False s1(4) sub by auto
  qed
qed

section \<open>Purging\<close>

lemma purge_lru_correct:
  assumes "kernel_ok K" and "\<not> lru_cache_lock s" and "lru_table s"
  shows "purge_lru_cache K s = Some (s\<lparr>lru_cache_rb_tree := \<langle>\<rangle>,
     lru_objects := lru_objects s |` (- set (inorder (lru_cache_rb_tree s)))\<rparr>)"
  using assms(2,3)
proof (induction "inorder (lru_cache_rb_tree s)" arbitrary: s)
  case Nil
  then have "lru_cache_rb_tree s = \<langle>\<rangle>" by (metis inorder_eq_Nil)
  then show ?case
    by (subst purge_lru_cache.simps) (cases s, simp add: RB_EMPTY_ROOT_def)
next
  case (Cons p ps)
  have pin: "p \<in> set (inorder (lru_cache_rb_tree s))" using Cons.hyps(2) by (metis list.set_intros(1))
  then obtain l where l: "lru_objects s p = Some l"
    using lru_live [OF Cons.prems(2)] by blast
  let ?s = "s\<lparr>lru_cache_rb_tree := rb_erase (rbtree K) p (lru_cache_rb_tree s),
            lru_objects := (lru_objects s)(p := None)\<rparr>"
  note E = erase_table [OF kernel_ok_rb [OF assms(1)] Cons.prems(2) [unfolded lru_table_def] pin]
  have ps: "inorder (rb_erase (rbtree K) p (lru_cache_rb_tree s)) = ps"
    using E(1) Cons.hyps(2) by (metis remove1.simps(2))
  have "\<not> RB_EMPTY_ROOT (lru_cache_rb_tree s)" using pin by (auto simp: RB_EMPTY_ROOT_def)
  moreover have "RB_FIRST (rbtree K) (lru_cache_rb_tree s) = Some p"
    using RB_FIRST_inorder [OF kernel_ok_rb [OF assms(1)]] Cons.hyps(2) by (metis list_head_simps(2))
  ultimately have "purge_lru_cache K s = purge_lru_cache K ?s"
    using l remove_lru_effect [OF Cons.prems(1) pin l, of K]
    by (subst purge_lru_cache.simps) simp
  also have "\<dots> = Some (?s\<lparr>lru_cache_rb_tree := \<langle>\<rangle>, lru_objects := lru_objects ?s |` (- set ps)\<rparr>)"
    using Cons.hyps(1) [of ?s] ps E(3) Cons.prems(1) by (simp add: lru_table_def)
  also have "lru_objects ?s |` (- set ps) = lru_objects s |` (- set (inorder (lru_cache_rb_tree s)))"
    by (auto simp: restrict_map_def fun_eq_iff simp flip: Cons.hyps(2))
  finally show ?case by simp
qed

lemma purge_scan_correct:
  assumes "kernel_ok K" and "\<not> scan_cache_lock s" and "scan_table d s"
  shows "purge_scan_cache K s = Some (s\<lparr>scan_cache_rb_tree := \<langle>\<rangle>,
     scan_objects := scan_objects s |` (- set (inorder (scan_cache_rb_tree s)))\<rparr>)"
  using assms(2,3)
proof (induction "inorder (scan_cache_rb_tree s)" arbitrary: s)
  case Nil
  then have "scan_cache_rb_tree s = \<langle>\<rangle>" by (metis inorder_eq_Nil)
  then show ?case
    by (subst purge_scan_cache.simps) (cases s, simp add: RB_EMPTY_ROOT_def)
next
  case (Cons p ps)
  have pin: "p \<in> set (inorder (scan_cache_rb_tree s))" using Cons.hyps(2) by (metis list.set_intros(1))
  then obtain r where r: "scan_objects s p = Some r"
    using scan_live [OF Cons.prems(2)] by blast
  let ?s = "s\<lparr>scan_cache_rb_tree := rb_erase (rbtree K) p (scan_cache_rb_tree s),
            scan_objects := (scan_objects s)(p := None)\<rparr>"
  note E = erase_table [OF kernel_ok_rb [OF assms(1)] Cons.prems(2) [unfolded scan_table_def] pin]
  have ps: "inorder (rb_erase (rbtree K) p (scan_cache_rb_tree s)) = ps"
    using E(1) Cons.hyps(2) by (metis remove1.simps(2))
  have "\<not> RB_EMPTY_ROOT (scan_cache_rb_tree s)" using pin by (auto simp: RB_EMPTY_ROOT_def)
  moreover have "RB_FIRST (rbtree K) (scan_cache_rb_tree s) = Some p"
    using RB_FIRST_inorder [OF kernel_ok_rb [OF assms(1)]] Cons.hyps(2) by (metis list_head_simps(2))
  ultimately have "purge_scan_cache K s = purge_scan_cache K ?s"
    using r remove_scan_effect [OF Cons.prems(1) pin r, of K]
    by (subst purge_scan_cache.simps) simp
  also have "\<dots> = Some (?s\<lparr>scan_cache_rb_tree := \<langle>\<rangle>, scan_objects := scan_objects ?s |` (- set ps)\<rparr>)"
    using Cons.hyps(1) [of ?s] ps E(3) Cons.prems(1) by (simp add: scan_table_def)
  also have "scan_objects ?s |` (- set ps) = scan_objects s |` (- set (inorder (scan_cache_rb_tree s)))"
    by (auto simp: restrict_map_def fun_eq_iff simp flip: Cons.hyps(2))
  finally show ?case by simp
qed

end
