(* ===== verification/Cache_Properties.thy ===== *)
theory Cache_Properties
  imports Cache_Correct
begin

text \<open>
  The properties of the scan cache: each public operation against the map it implements,
  initialisation and shutdown, and the two defects that modelling the
  code exposed (the device comparison and the LRU record lost on equal time stamps). A
  reference kernel shows that the assumptions on the kernel services can be met.
\<close>

section \<open>A kernel that meets the contract\<close>

function balanced :: "addr list \<Rightarrow> addr tree" where
  "balanced xs =
     (if xs = [] then \<langle>\<rangle>
      else let k = length xs div 2
           in \<langle>balanced (take k xs), xs ! k, balanced (drop (Suc k) xs)\<rangle>)"
  by pat_completeness auto
termination by (relation "measure length") auto

declare balanced.simps [simp del]

definition next_in :: "addr \<Rightarrow> addr list \<Rightarrow> addr option" where
  "next_in a xs = list_head (tl (dropWhile (\<lambda>x. x \<noteq> a) xs))"

definition ref_rb_lib :: rb_lib where
  "ref_rb_lib =
     \<lparr>rb_link_node = (\<lambda>a p t. set_slot p \<langle>\<langle>\<rangle>, a, \<langle>\<rangle>\<rangle> t),
      rb_insert_color = (\<lambda>a t. balanced (inorder t)),
      rb_erase = (\<lambda>a t. balanced (remove1 a (inorder t))),
      rb_replace_node = (\<lambda>a b t. map_tree (\<lambda>x. if x = a then b else x) t),
      rb_first = (\<lambda>t. list_head (inorder t)),
      rb_last = (\<lambda>t. list_head (rev (inorder t))),
      rb_next = (\<lambda>a t. next_in a (inorder t)),
      rb_prev = (\<lambda>a t. next_in a (rev (inorder t)))\<rparr>"

definition ref_time :: "nat \<Rightarrow> timespec" where
  "ref_time n = \<lparr>tv_sec = 5, tv_nsec = (if n < 900 then word_of_nat n else 0)\<rparr>"

definition ref_kernel :: kernel_api where
  "ref_kernel =
     \<lparr>rbtree = ref_rb_lib, kmem_cache_create = (\<lambda>_ _. True),
      kmem_cache_alloc = (\<lambda>_ _ live. find (\<lambda>a. \<not> live a) [1..<20]),
      fresh_scan_object = (\<lambda>_. \<lparr>sc_dev_id = 0, sc_inode_number = 0, sc_inode_generation = 0,
         sc_status = STATE_UNKNOWN, sc_time_stamp = \<lparr>tv_sec = 0, tv_nsec = 0\<rparr>\<rparr>),
      fresh_lru_object = (\<lambda>_. \<lparr>lru_time_stamp = \<lparr>tv_sec = 0, tv_nsec = 0\<rparr>, lru_dev_id = 0,
         lru_inode_number = 0, lru_inode_generation = 0\<rparr>),
      getnstimeofday = ref_time\<rparr>"

lemma inorder_balanced [simp]: "inorder (balanced xs) = xs"
proof (induction xs rule: balanced.induct)
  case (1 xs)
  show ?case
  proof (cases "xs = []")
    case False
    then have "length xs div 2 < length xs" by (cases xs) auto
    with False 1 show ?thesis
      by (simp add: balanced.simps [of xs] Let_def id_take_nth_drop [symmetric])
  qed (simp add: balanced.simps)
qed

lemma next_in_split:
  assumes "distinct (xs @ a # ys)" shows "next_in a (xs @ a # ys) = list_head ys"
proof -
  have "dropWhile (\<lambda>x. x \<noteq> a) (xs @ a # ys) = a # ys"
    using assms by (induction xs) auto
  then show ?thesis by (simp add: next_in_def)
qed

lemma next_in_rev_split:
  assumes "distinct (xs @ a # ys)" shows "next_in a (rev (xs @ a # ys)) = list_head (rev xs)"
  using next_in_split [of "rev ys" a "rev xs"] assms by auto

lemma ref_rb_lib_ok: "rb_lib_ok ref_rb_lib"
  unfolding rb_lib_ok_def
  by (auto simp: ref_rb_lib_def inorder_map next_in_split next_in_rev_split simp del: rev_append)

lemma ref_time_ok: "timespec_ok (ref_time n)"
proof (cases "n < 900")
  case True
  then have "sint (word_of_nat n :: 64 word) = int n"
    by (simp add: signed_of_nat signed_take_bit_int_eq_self)
  with True show ?thesis by (simp add: timespec_ok_def ref_time_def)
qed (simp add: timespec_ok_def ref_time_def)

lemma ref_kernel_ok: "kernel_ok ref_kernel"
  unfolding kernel_ok_def
  by (auto simp: ref_kernel_def ref_rb_lib_ok ref_time_ok find_Some_iff)

lemma ref_kernel_simps [simp]:
  "rbtree ref_kernel = ref_rb_lib"
  "kmem_cache_alloc ref_kernel sl n live = find (\<lambda>a. \<not> live a) [1..<20]"
  "getnstimeofday ref_kernel n = ref_time n"
  by (simp_all add: ref_kernel_def)

lemma find_free_first [simp]: "find (\<lambda>a. True) [Suc 0..<20] = Some (1 :: addr)"
  by (simp add: upt_rec)

definition ready_state :: cache_state where
  "ready_state = snd (init_scan_cache ref_kernel initial_cache_state)"

lemma ready_state_eq:
  "ready_state = initial_cache_state\<lparr>ptr_scan_cache_slab := True, ptr_lru_cache_slab := True, ticks := 2\<rparr>"
  by (simp add: ready_state_def init_scan_cache_def ref_kernel_def initial_cache_state_def Let_def)

lemma ready_state_inv: "cache_inv d ready_state"
  by (simp add: ready_state_eq initial_cache_state_def cache_inv_def quiescent_def scan_table_def
      lru_table_def lru_recs_def scan_recs_def)

definition test_file :: fileInfo where
  "test_file = \<lparr>fi_dev_id = 100, fi_inode_number = 1001, fi_inode_generation = 12345\<rparr>"

lemma test_file_simps [simp]:
  "fi_dev_id test_file = 100" "fi_inode_number test_file = 1001" "fi_inode_generation test_file = 12345"
  by (simp_all add: test_file_def)

lemma ready_state_simps [simp]:
  "ticks ready_state = 2" "scan_objects ready_state = Map.empty"
  "lru_objects ready_state = Map.empty" "contents ready_state = Map.empty"
  by (simp_all add: ready_state_eq initial_cache_state_def contents_def)

section \<open>Insertion\<close>

lemma insert_scan_ENOMEM:
  assumes "cache_inv d s"
    and "kmem_cache_alloc K Scan_slab (ticks s) (\<lambda>a. scan_objects s a \<noteq> None) = None"
  shows "insert_scan_cache_record K f s = Some (- 12, s\<lparr>ticks := Suc (ticks s)\<rparr>)"
  using assms by (simp add: insert_scan_cache_record_def scan_cache_alloc_def cache_inv_def quiescent_def)

lemma cache_inv_ticks [simp]: "cache_inv d (s\<lparr>ticks := n\<rparr>) = cache_inv d s"
  by (simp add: cache_inv_def quiescent_def scan_table_def lru_table_def lru_recs_def scan_recs_def)

lemma contents_ticks [simp]: "contents (s\<lparr>ticks := n\<rparr>) = contents s"
  by (simp add: contents_def)

text \<open>
  C3: On a well-formed cache \<open>insert_scan_cache_record\<close> never faults and keeps the
  invariant. It returns 0 and the inode maps to the new generation and time stamp; or -1 and
  the inode has no entry any more, also when it had one; or -ENOMEM and nothing changed.
\<close>

theorem insert_scan_cache_record_refines:
  assumes "kernel_ok K" and "cache_inv d s"
    and "fi_dev_id f = d" and "uint (fi_inode_number f) < 2 ^ 63"
  shows "\<exists>ret s'. insert_scan_cache_record K f s = Some (ret, s') \<and> cache_inv d s' \<and>
     (ret = 0 \<and> contents s' = (contents s)(fi_inode_number f \<mapsto>
        (fi_inode_generation f, getnstimeofday K (Suc (ticks s)))) \<or>
      ret = -1 \<and> contents s' = (contents s)(fi_inode_number f := None) \<or>
      ret = - ENOMEM \<and> contents s' = contents s)"
proof (cases "kmem_cache_alloc K Scan_slab (ticks s) (\<lambda>a. scan_objects s a \<noteq> None)")
  case None
  then show ?thesis using insert_scan_ENOMEM [OF assms(2)] assms(2) by simp
next
  case (Some p)
  obtain ret s' where S: "insert_scan_cache_record K f s = Some (ret, s')" "cache_inv d s'"
    "ret = 0 \<and> scan_recs s' = insert (new_record K f s) (others (fi_inode_number f) s) \<or>
     ret = -1 \<and> scan_recs s' = others (fi_inode_number f) s"
    using insert_scan_correct [OF assms Some] by blast
  note T = cache_invD(2) [OF assms(2)] cache_invD(2) [OF S(2)]
  from S(3) show ?thesis
    using S(1,2) contents_insert [OF T, of "new_record K f s"] contents_delete [OF T]
    unfolding others_def by auto
qed

theorem insert_scan_cache_record_refines_witness:
  "\<exists>ret s'. insert_scan_cache_record ref_kernel test_file ready_state = Some (ret, s') \<and>
     cache_inv 100 s' \<and>
     (ret = 0 \<and> contents s' = [1001 \<mapsto> (12345, ref_time 3)] \<or>
      ret = -1 \<and> contents s' = Map.empty \<or> ret = - 12 \<and> contents s' = Map.empty)"
  using insert_scan_cache_record_refines [OF ref_kernel_ok ready_state_inv, of test_file 100]
  by simp

text \<open>
  C7: An insertion succeeds whenever the scan slab and the LRU slab have room and no other
  inode was stamped at the same instant, for new and for already cached inodes alike.
\<close>

theorem insert_scan_cache_record_succeeds:
  assumes "kernel_ok K" and "cache_inv d s"
    and "fi_dev_id f = d" and "uint (fi_inode_number f) < 2 ^ 63"
    and "kmem_cache_alloc K Scan_slab (ticks s) (\<lambda>a. scan_objects s a \<noteq> None) \<noteq> None"
    and "lru_room K (Suc (Suc (ticks s))) (lru_objects s)"
    and "\<And>i g. i \<noteq> fi_inode_number f \<Longrightarrow>
           contents s i \<noteq> Some (g, getnstimeofday K (Suc (ticks s)))"
  shows "\<exists>s'. insert_scan_cache_record K f s = Some (0, s') \<and> cache_inv d s' \<and>
     contents s' = (contents s)(fi_inode_number f \<mapsto>
        (fi_inode_generation f, getnstimeofday K (Suc (ticks s))))"
proof -
  obtain p where p: "kmem_cache_alloc K Scan_slab (ticks s) (\<lambda>a. scan_objects s a \<noteq> None) = Some p"
    using assms(5) by blast
  have "getnstimeofday K (Suc (ticks s)) \<notin> sc_time_stamp ` others (fi_inode_number f) s"
    using assms(7) contents_Some_iff [OF cache_invD(2) [OF assms(2)]]
    by (fastforce simp: others_def scan_entry_def)
  then obtain s' where S: "insert_scan_cache_record K f s = Some (0, s')" "cache_inv d s'"
    "scan_recs s' = insert (new_record K f s) (others (fi_inode_number f) s)"
    using insert_scan_correct [OF assms(1-4) p] assms(6) by auto
  show ?thesis
    using S contents_insert [OF cache_invD(2) [OF assms(2)] cache_invD(2) [OF S(2)], of "new_record K f s"]
    by (simp add: others_def)
qed

lemma ref_lru_room: "lru_room ref_kernel n Map.empty"
proof -
  have "find (\<lambda>a. m' a = None) [Suc 0..<20] = Some 1" if "m' \<subseteq>\<^sub>m Map.empty"
    for m' :: "lru_cache_record heap"
    using map_le_implies_dom_le [OF that] by simp
  then show ?thesis by (simp add: lru_room_def)
qed

theorem insert_scan_cache_record_succeeds_witness:
  "\<exists>s'. insert_scan_cache_record ref_kernel test_file ready_state = Some (0, s') \<and>
     cache_inv 100 s' \<and> contents s' = [1001 \<mapsto> (12345, ref_time 3)]"
  using insert_scan_cache_record_succeeds [OF ref_kernel_ok ready_state_inv, of test_file 100]
  by (simp add: ref_lru_room)

section \<open>Lookup and removal\<close>

text \<open>
  \<open>find_remove_scan_cache_record\<close> returns true exactly when the cache holds the inode
  with the requested generation; then the entry is gone, from both trees. Otherwise it
  returns false and changes nothing.
\<close>

theorem find_remove_scan_cache_record_refines:
  assumes "kernel_ok K" and "cache_inv d s"
    and "fi_dev_id f = d" and "uint (fi_inode_number f) < 2 ^ 63"
  shows "if \<exists>ts. contents s (fi_inode_number f) = Some (fi_inode_generation f, ts)
     then \<exists>s'. find_remove_scan_cache_record K f s = Some (True, s') \<and> cache_inv d s' \<and>
            contents s' = (contents s)(fi_inode_number f := None)
     else find_remove_scan_cache_record K f s = Some (False, s)"
proof -
  note C = contents_Some_iff [OF cache_invD(2) [OF assms(2)]]
  show ?thesis
  proof (cases "\<exists>ts. contents s (fi_inode_number f) = Some (fi_inode_generation f, ts)")
    case True
    then obtain r where r: "r \<in> scan_recs s" "sc_inode_number r = fi_inode_number f"
      "sc_inode_generation r = fi_inode_generation f"
      using C by (auto simp: scan_entry_def)
    obtain s' where s': "find_remove_scan_cache_record K f s = Some (True, s')" "cache_inv d s'"
      "scan_recs s' = others (fi_inode_number f) s"
      using find_remove_hit [OF assms r] by blast
    then show ?thesis
      using True contents_delete [OF cache_invD(2) [OF assms(2)] cache_invD(2) [OF s'(2)]]
      by (simp add: others_def)
  next
    case False
    have "sc_inode_generation r \<noteq> fi_inode_generation f"
      if "r \<in> scan_recs s" "sc_inode_number r = fi_inode_number f" for r
      using False C that by (auto simp: scan_entry_def)
    then show ?thesis using False find_remove_miss [OF assms(2-4)] by simp
  qed
qed

theorem find_remove_scan_cache_record_refines_witness:
  "find_remove_scan_cache_record ref_kernel test_file ready_state = Some (False, ready_state)"
  using find_remove_scan_cache_record_refines [OF ref_kernel_ok ready_state_inv, of test_file 100]
  by simp

text \<open>
  C8: A successful insertion is found again: \<open>find_remove_scan_cache_record\<close> with the
  same file information returns true and leaves the cache without that inode.
\<close>

theorem insert_then_find_remove:
  assumes "kernel_ok K" and "cache_inv d s"
    and "fi_dev_id f = d" and "uint (fi_inode_number f) < 2 ^ 63"
    and "insert_scan_cache_record K f s = Some (0, s1)"
  shows "\<exists>s2. find_remove_scan_cache_record K f s1 = Some (True, s2) \<and> cache_inv d s2 \<and>
     contents s2 = (contents s)(fi_inode_number f := None)"
proof -
  have al: "kmem_cache_alloc K Scan_slab (ticks s) (\<lambda>a. scan_objects s a \<noteq> None) \<noteq> None"
    using insert_scan_ENOMEM [OF assms(2), of K f] assms(5) by auto
  then obtain p where p: "kmem_cache_alloc K Scan_slab (ticks s) (\<lambda>a. scan_objects s a \<noteq> None) = Some p"
    by blast
  have S: "cache_inv d s1" "scan_recs s1 = insert (new_record K f s) (others (fi_inode_number f) s)"
    using insert_scan_correct [OF assms(1-4) p] assms(5) by auto
  obtain s2 where s2: "find_remove_scan_cache_record K f s1 = Some (True, s2)" "cache_inv d s2"
    "scan_recs s2 = others (fi_inode_number f) s1"
    using find_remove_hit [OF assms(1) S(1) assms(3,4), of "new_record K f s"] S(2) by auto
  have "scan_recs s2 = {q \<in> scan_recs s. sc_inode_number q \<noteq> fi_inode_number f}"
    using s2(3) S(2) by (auto simp: others_def)
  then show ?thesis
    using s2 contents_delete [OF cache_invD(2) [OF assms(2)] cache_invD(2) [OF s2(2)]] by blast
qed

lemma test_insert_ok: "\<exists>s1. insert_scan_cache_record ref_kernel test_file ready_state = Some (0, s1)"
proof -
  obtain s1 where "insert_scan_cache_record ref_kernel test_file ready_state = Some (0, s1)"
    using insert_scan_correct [OF ref_kernel_ok ready_state_inv, of test_file 100 1]
    by (auto simp: ref_lru_room others_def scan_recs_def ready_state_eq initial_cache_state_def)
  then show ?thesis by blast
qed

theorem insert_then_find_remove_witness:
  "\<exists>s1 s2. insert_scan_cache_record ref_kernel test_file ready_state = Some (0, s1) \<and>
     find_remove_scan_cache_record ref_kernel test_file s1 = Some (True, s2) \<and> contents s2 = Map.empty"
  using test_insert_ok insert_then_find_remove [OF ref_kernel_ok ready_state_inv, of test_file 100]
  by fastforce

section \<open>Eviction\<close>

text \<open>
  C6: \<open>remove_cache_entry count\<close> terminates without fault and removes the \<open>count\<close>
  oldest entries, by time stamp, from both trees; fewer when the cache holds fewer, and none
  when \<open>count\<close> is not positive.
\<close>

theorem remove_cache_entry_evicts_oldest:
  assumes "kernel_ok K" and "cache_inv d s"
  shows "\<exists>s'. remove_cache_entry K count s = Some s' \<and> cache_inv d s' \<and>
     sorted_wrt (<) (map (\<lambda>l. timespec_rank (lru_time_stamp l)) (lru_order s)) \<and>
     lru_order s' = drop (nat count) (lru_order s) \<and>
     contents s' = contents s |` (lru_inode_number ` set (drop (nat count) (lru_order s)))"
proof -
  obtain s' where s': "remove_cache_entry K count s = Some s'" "cache_inv d s'"
    "scan_recs s' \<subseteq> scan_recs s" "lru_order s' = drop (nat count) (lru_order s)"
  proof (cases "count \<le> 0")
    case True
    then show thesis using that [of s] assms(2) by (simp add: remove_cache_entry_def)
  next
    case False
    then show thesis
      using remove_cache_entry_loop_correct [OF assms, of 0 count] that
      by (auto simp: remove_cache_entry_def)
  qed
  show ?thesis
    using s' contents_subset [OF assms(2) s'(2,3)] lru_order_sorted [OF cache_invD(3) [OF assms(2)]]
    by (metis set_lru_order)
qed

theorem remove_cache_entry_evicts_oldest_witness:
  "\<exists>s1 s'. insert_scan_cache_record ref_kernel test_file ready_state = Some (0, s1) \<and> contents s1 1001 \<noteq> None \<and>
     remove_cache_entry ref_kernel 1 s1 = Some s' \<and> cache_inv 100 s' \<and> contents s' = Map.empty"
proof -
  let ?r = "new_record ref_kernel test_file ready_state"
  obtain s1 where s1: "insert_scan_cache_record ref_kernel test_file ready_state = Some (0, s1)" "cache_inv 100 s1"
    "scan_recs s1 = {?r}"
    using insert_scan_correct [OF ref_kernel_ok ready_state_inv, of test_file 100 1]
    by (auto simp: ref_lru_room others_def scan_recs_def ready_state_eq initial_cache_state_def)
  note D = cache_invD [OF s1(2)]
  obtain s' where s': "remove_cache_entry ref_kernel 1 s1 = Some s'" "cache_inv 100 s'"
    "sorted_wrt (<) (map (\<lambda>l. timespec_rank (lru_time_stamp l)) (lru_order s1))"
    "contents s' = contents s1 |` (lru_inode_number ` set (drop (nat 1) (lru_order s1)))"
    using remove_cache_entry_evicts_oldest [OF ref_kernel_ok s1(2), of 1] by blast
  have "set (lru_order s1) = {lru_of ?r}" using D(5) s1(3) by (simp add: set_lru_order)
  then have "length (lru_order s1) = 1"
    using distinct_card [OF sorted_wrt_less_distinct [OF s'(3)]] by simp
  then have "contents s' = Map.empty" using s'(4) by simp
  moreover have "contents s1 1001 = Some (sc_inode_generation ?r, sc_time_stamp ?r)"
    unfolding contents_Some_iff [OF D(2)] using s1(3) by (auto simp: scan_entry_def)
  ultimately show ?thesis using s1(1) s'(1,2) by auto
qed

section \<open>Initialisation and shutdown\<close>

text \<open>
  \<open>init_scan_cache\<close> returns 0 exactly when both slabs were created, and -ENOMEM
  otherwise; after a successful return the static state is a well-formed empty cache.
\<close>

theorem init_scan_cache_establishes:
  assumes "init_scan_cache K initial_cache_state = (ret, s)"
  shows "(ret = 0 \<longleftrightarrow> kmem_cache_create K Scan_slab 0 \<and> kmem_cache_create K Lru_slab 1) \<and>
     (ret = 0 \<or> ret = - ENOMEM) \<and> contents s = Map.empty \<and> (ret = 0 \<longrightarrow> cache_inv d s)"
  using assms
  by (auto simp: init_scan_cache_def initial_cache_state_def Let_def contents_def cache_inv_def
      quiescent_def scan_table_def lru_table_def lru_recs_def scan_recs_def split: if_splits)

theorem init_scan_cache_establishes_witness:
  "fst (init_scan_cache ref_kernel initial_cache_state) = 0 \<and> cache_inv 7 ready_state"
  using init_scan_cache_establishes [of ref_kernel "fst (init_scan_cache ref_kernel initial_cache_state)"
      ready_state 7]
  by (simp add: ready_state_def ref_kernel_def)

lemma purge_cache_correct:
  assumes "kernel_ok K" and "cache_inv d s"
  shows "\<exists>s'. purge_cache K s = Some s' \<and> cache_inv d s' \<and> scan_objects s' = Map.empty \<and>
     scan_cache_rb_tree s' = \<langle>\<rangle> \<and> lru_cache_rb_tree s' = \<langle>\<rangle> \<and>
     lru_objects s' = lru_objects s |` (- set (inorder (lru_cache_rb_tree s)))"
proof -
  note D = cache_invD [OF assms(2)]
  have Q: "\<not> scan_cache_lock s" "\<not> lru_cache_lock s" using D(1) by (simp_all add: quiescent_def)
  let ?s1 = "s\<lparr>scan_cache_rb_tree := \<langle>\<rangle>,
     scan_objects := scan_objects s |` (- set (inorder (scan_cache_rb_tree s)))\<rparr>"
  have e: "scan_objects s |` (- set (inorder (scan_cache_rb_tree s))) = Map.empty"
    using D(4) by (auto simp: restrict_map_def fun_eq_iff)
  have "purge_lru_cache K ?s1 = Some (?s1\<lparr>lru_cache_rb_tree := \<langle>\<rangle>,
     lru_objects := lru_objects s |` (- set (inorder (lru_cache_rb_tree s)))\<rparr>)"
    using purge_lru_correct [OF assms(1), of ?s1] Q D(3) by (simp add: lru_table_def)
  then show ?thesis
    using purge_scan_correct [OF assms(1) Q(1) D(2)] D(1) e
    by (simp add: purge_cache_def cache_inv_def quiescent_def scan_table_def lru_table_def
        lru_recs_def scan_recs_def)
qed

text \<open>
  \<open>exit_scan_cache\<close> terminates without fault, empties both trees, frees every scan
  record and every linked LRU record and destroys both slabs; the LRU objects left over are
  among those that were live but not linked when it was called.
\<close>

theorem exit_scan_cache_releases:
  assumes "kernel_ok K" and "cache_inv d s"
  shows "\<exists>s'. exit_scan_cache K s = Some s' \<and>
     scan_cache_rb_tree s' = \<langle>\<rangle> \<and> lru_cache_rb_tree s' = \<langle>\<rangle> \<and> scan_objects s' = Map.empty \<and>
     dom (lru_objects s') \<subseteq> dom (lru_objects s) - set (inorder (lru_cache_rb_tree s)) \<and>
     \<not> ptr_scan_cache_slab s' \<and> \<not> ptr_lru_cache_slab s' \<and>
     \<not> scan_cache_lock s' \<and> \<not> lru_cache_lock s'"
proof -
  obtain s1 where s1: "remove_cache_entry K 2 s = Some s1" "cache_inv d s1"
    "dom (lru_objects s1) - set (inorder (lru_cache_rb_tree s1)) \<subseteq>
     dom (lru_objects s) - set (inorder (lru_cache_rb_tree s))"
    using remove_cache_entry_loop_unlinked [OF assms, of 0 2] by (auto simp: remove_cache_entry_def)
  obtain s2 where s2: "purge_cache K s1 = Some s2" "cache_inv d s2" "scan_objects s2 = Map.empty"
    "scan_cache_rb_tree s2 = \<langle>\<rangle>" "lru_cache_rb_tree s2 = \<langle>\<rangle>"
    "lru_objects s2 = lru_objects s1 |` (- set (inorder (lru_cache_rb_tree s1)))"
    using purge_cache_correct [OF assms(1) s1(2)] by blast
  have Q: "ptr_scan_cache_slab s2" "ptr_lru_cache_slab s2" "\<not> scan_cache_lock s2" "\<not> lru_cache_lock s2"
    using cache_invD(1) [OF s2(2)] by (simp_all add: quiescent_def)
  have "dom (lru_objects s2) \<subseteq> dom (lru_objects s) - set (inorder (lru_cache_rb_tree s))"
    using s1(3) s2(6) by auto
  then show ?thesis
    using s1(1) s2 Q by (simp add: exit_scan_cache_def)
qed

theorem exit_scan_cache_releases_witness:
  "\<exists>s'. exit_scan_cache ref_kernel ready_state = Some s' \<and> scan_cache_rb_tree s' = \<langle>\<rangle> \<and>
     lru_objects s' = Map.empty"
  using exit_scan_cache_releases [OF ref_kernel_ok ready_state_inv] by auto

section \<open>Defects\<close>

definition tip :: "addr \<Rightarrow> addr tree" where
  "tip a = Node Leaf a Leaf"

text \<open>
  C38: The device comparison is not an order. Two records of different devices each compare
  greater than the other, because the 32-bit difference is zero-extended before its sign is
  tested; so in a balanced tree of three records of different devices the record in the left
  child is never found, although it is in the tree.
\<close>

theorem device_comparison_loses_record:
  assumes "scan_cache_rb_tree s = \<langle>tip a, b, tip c\<rangle>" and "\<not> scan_cache_lock s"
    and "scan_objects s a = Some ra" and "scan_objects s b = Some rb" and "scan_objects s c = Some rc"
    and "sc_dev_id ra \<noteq> sc_dev_id rb" and "sc_dev_id ra \<noteq> sc_dev_id rc"
  shows "scan_cache_insert_compare_table (Some ra) (Some rb) = 1 \<and>
     scan_cache_insert_compare_table (Some rb) (Some ra) = 1 \<and>
     find_remove_scan_cache_record K \<lparr>fi_dev_id = sc_dev_id ra, fi_inode_number = sc_inode_number ra,
        fi_inode_generation = sc_inode_generation ra\<rparr> s = Some (False, s)"
  using assms
  by (simp add: tip_def scan_cache_insert_compare_table_def scan_cache_find_compare_table_def
      find_remove_scan_cache_record_def find_scan_cache_record_def lock_defs Let_def)

text \<open>Three insertions that lead there: devices 100, 99 and 98, as in \<^verbatim>\<open>rbtree_test.c\<close>.\<close>

definition device_file :: "u32 \<Rightarrow> fileInfo" where
  "device_file d = \<lparr>fi_dev_id = d, fi_inode_number = 1006, fi_inode_generation = 12350\<rparr>"

definition three_devices :: "cache_state option" where
  "three_devices = do {
     (_, s) \<leftarrow> insert_scan_cache_record ref_kernel (device_file 100) ready_state;
     (_, s) \<leftarrow> insert_scan_cache_record ref_kernel (device_file 99) s;
     (_, s) \<leftarrow> insert_scan_cache_record ref_kernel (device_file 98) s;
     Some s }"

lemma three_devices_shape:
  "map_option (\<lambda>s. (scan_cache_rb_tree s, scan_cache_lock s,
       map (\<lambda>a. map_option sc_dev_id (scan_objects s a)) [1, 2, 3],
       map (\<lambda>a. map_option sc_inode_number (scan_objects s a)) [1],
       map (\<lambda>a. map_option sc_inode_generation (scan_objects s a)) [1])) three_devices =
   Some (\<langle>tip 1, 2, tip 3\<rangle>, False, [Some 100, Some 99, Some 98], [Some 1006], [Some 12350])"
  by code_simp

theorem device_comparison_loses_record_witness:
  "\<exists>s. three_devices = Some s \<and> 1 \<in> set (inorder (scan_cache_rb_tree s)) \<and>
     find_remove_scan_cache_record ref_kernel (device_file 100) s = Some (False, s)"
proof -
  obtain s where s: "three_devices = Some s" using three_devices_shape by (cases three_devices) auto
  from three_devices_shape [unfolded s] obtain ra rb rc where
    "scan_cache_rb_tree s = \<langle>tip 1, 2, tip 3\<rangle>" "\<not> scan_cache_lock s"
    "scan_objects s 1 = Some ra" "scan_objects s 2 = Some rb" "scan_objects s 3 = Some rc"
    "sc_dev_id ra = 100" "sc_dev_id rb = 99" "sc_dev_id rc = 98"
    "sc_inode_number ra = 1006" "sc_inode_generation ra = 12350" by auto
  then show ?thesis
    using device_comparison_loses_record [of s 1 2 3 ra rb rc ref_kernel] s
    by (intro exI [of _ s]) (simp add: device_file_def tip_def)
qed

text \<open>
  When the time stamp is already in the LRU tree, \<open>insert_lru_cache_record\<close> fails
  and the object it allocated stays live but unlinked: nothing can free it any more.
\<close>

theorem equal_time_stamp_leaks_lru_object:
  assumes "kernel_ok K" and "cache_inv d s"
    and "kmem_cache_alloc K Lru_slab (ticks s) (\<lambda>a. lru_objects s a \<noteq> None) = Some p"
    and "ts \<in> lru_time_stamp ` set (lru_order s)"
  shows "\<exists>s'. insert_lru_cache_record K ts dev ino gen s = Some (-1, s') \<and> cache_inv d s' \<and>
     p \<notin> dom (lru_objects s) \<and> p \<in> dom (lru_objects s') \<and>
     p \<notin> set (inorder (lru_cache_rb_tree s'))"
proof -
  note D = cache_invD [OF assms(2)]
  have dup: "ts \<in> lru_time_stamp ` lru_recs s" using assms(4) by (simp add: set_lru_order)
  then have ts: "timespec_ok ts" using lru_recs_ok [OF D(3)] by (auto simp: lru_record_ok_def)
  have pn: "p \<notin> set (inorder (lru_cache_rb_tree s))"
    using assms(1) D(3) assms(3) by (rule fresh_lru_object)
  have "p \<notin> dom (lru_objects s)" using kernel_ok_alloc [OF assms(1,3)] by auto
  then show ?thesis
    using insert_lru_dup [OF assms(1) D(1,3) ts assms(3) dup, of dev ino gen] pn assms(2)
    by (simp add: cache_inv_def quiescent_def scan_table_def lru_table_def lru_recs_def scan_recs_def)
qed

definition one_entry :: "cache_state option" where
  "one_entry = map_option snd (insert_scan_cache_record ref_kernel test_file ready_state)"

lemma one_entry_shape:
  "map_option (\<lambda>s. (map lru_time_stamp (lru_order s),
      kmem_cache_alloc ref_kernel Lru_slab (ticks s) (\<lambda>a. lru_objects s a \<noteq> None))) one_entry =
   Some ([ref_time 3], Some 2)"
  by code_simp

lemma one_entry_inv: "\<exists>s. one_entry = Some s \<and> cache_inv 100 s"
  using insert_scan_correct [OF ref_kernel_ok ready_state_inv, of test_file 100 1]
  by (auto simp: one_entry_def)

theorem equal_time_stamp_leaks_lru_object_witness:
  "\<exists>s s'. one_entry = Some s \<and>
     insert_lru_cache_record ref_kernel (ref_time 3) 100 1002 1 s = Some (-1, s') \<and>
     2 \<in> dom (lru_objects s') - set (inorder (lru_cache_rb_tree s'))"
proof -
  obtain s where s: "one_entry = Some s" "cache_inv 100 s" using one_entry_inv by blast
  from one_entry_shape [unfolded s(1)] have "map lru_time_stamp (lru_order s) = [ref_time 3]"
    and al: "kmem_cache_alloc ref_kernel Lru_slab (ticks s) (\<lambda>a. lru_objects s a \<noteq> None) = Some 2"
    by auto
  then have "ref_time 3 \<in> lru_time_stamp ` set (lru_order s)" by auto
  from equal_time_stamp_leaks_lru_object [OF ref_kernel_ok s(2) al this, of 100 1002 1] s(1)
  show ?thesis by blast
qed

end
