(* ===== verification/Cache_Spec.thy ===== *)
theory Cache_Spec
  imports Cache_Properties
begin

text \<open>
  The scan cache as its callers see it: a finite map from inodes to a generation and a time
  stamp, and for each call the answers and the next maps that are allowed. A run of calls on the
  code gives answers that the map can give as well. The step from single calls to runs is
  the locale \<open>answers_refine\<close>, interpreted on the calls of the cache for each device.
\<close>

section \<open>Refinement of calls with answers\<close>

fun run_all :: "('c \<Rightarrow> 's \<Rightarrow> ('o \<times> 's) option) \<Rightarrow> 'c list \<Rightarrow> 's \<Rightarrow> ('o list \<times> 's) option" where
  "run_all step [] s = Some ([], s)"
| "run_all step (c # cs) s = do {
     (out, s) \<leftarrow> step c s;
     (outs, s) \<leftarrow> run_all step cs s;
     Some (out # outs, s) }"

inductive spec_run :: "('c \<Rightarrow> 'm \<Rightarrow> 'o \<Rightarrow> 'm \<Rightarrow> bool) \<Rightarrow> 'c list \<Rightarrow> 'm \<Rightarrow> 'o list \<Rightarrow> 'm \<Rightarrow> bool"
  for spec where
  no_call: "spec_run spec [] m [] m"
| one_call: "spec c m out m' \<Longrightarrow> spec_run spec cs m' outs m'' \<Longrightarrow> spec_run spec (c # cs) m (out # outs) m''"

inductive_cases spec_run_NilE [elim!]: "spec_run spec [] m outs m'"
inductive_cases spec_run_ConsE: "spec_run spec (c # cs) m outs m'"

locale answers_refine =
  fixes step :: "'c \<Rightarrow> 's \<Rightarrow> ('o \<times> 's) option" and inv :: "'s \<Rightarrow> bool" and abs :: "'s \<Rightarrow> 'm"
    and legal :: "'c \<Rightarrow> bool" and spec :: "'c \<Rightarrow> 'm \<Rightarrow> 'o \<Rightarrow> 'm \<Rightarrow> bool"
  assumes refines: "inv s \<Longrightarrow> legal c \<Longrightarrow>
    \<exists>out s'. step c s = Some (out, s') \<and> inv s' \<and> spec c (abs s) out (abs s')"
begin

lemma run_refines:
  assumes "inv s" and "list_all legal cs"
  shows "\<exists>outs s'. run_all step cs s = Some (outs, s') \<and> inv s' \<and> spec_run spec cs (abs s) outs (abs s')"
  using assms
proof (induction cs arbitrary: s)
  case (Cons c cs)
  obtain out s1 where s1: "step c s = Some (out, s1)" "inv s1" "spec c (abs s) out (abs s1)"
    using refines [of s c] Cons.prems by auto
  obtain outs s2 where "run_all step cs s1 = Some (outs, s2)" "inv s2" "spec_run spec cs (abs s1) outs (abs s2)"
    using Cons.IH [OF s1(2)] Cons.prems by auto
  then show ?case using s1 one_call by fastforce
qed (auto intro: no_call)

end

section \<open>Calls\<close>

text \<open>The calls other parts of a module make on the cache, and those on the records of one device.\<close>

datatype cache_call =
    Insert_call fileInfo
  | Find_remove_call fileInfo
  | Evict_call int
  | Purge_call

fun call_on_device :: "u32 \<Rightarrow> cache_call \<Rightarrow> bool" where
  "call_on_device d (Insert_call f) \<longleftrightarrow> fi_dev_id f = d \<and> uint (fi_inode_number f) < 2 ^ 63"
| "call_on_device d (Find_remove_call f) \<longleftrightarrow> fi_dev_id f = d \<and> uint (fi_inode_number f) < 2 ^ 63"
| "call_on_device d (Evict_call n) \<longleftrightarrow> True"
| "call_on_device d Purge_call \<longleftrightarrow> True"

section \<open>The map\<close>

type_synonym scan_map = "u64 \<rightharpoonup> u32 \<times> timespec"

datatype answer = Ret int | Hit bool | Nothing

text \<open>The entries that were stamped before \<open>ts\<close>; an entry survives an eviction of \<open>n\<close> entries when at
  least \<open>n\<close> are older.\<close>

definition older :: "scan_map \<Rightarrow> timespec \<Rightarrow> u64 set" where
  "older m ts = {j. \<exists>g ts'. m j = Some (g, ts') \<and> timespec_rank ts' < timespec_rank ts}"

definition survivors :: "int \<Rightarrow> scan_map \<Rightarrow> u64 set" where
  "survivors n m = {i. \<exists>g ts. m i = Some (g, ts) \<and> n \<le> int (card (older m ts))}"

inductive cache_spec :: "cache_call \<Rightarrow> scan_map \<Rightarrow> answer \<Rightarrow> scan_map \<Rightarrow> bool" where
  inserted: "timespec_ok ts \<Longrightarrow> \<forall>j g. j \<noteq> fi_inode_number f \<longrightarrow> m j \<noteq> Some (g, ts) \<Longrightarrow>
     cache_spec (Insert_call f) m (Ret 0) (m(fi_inode_number f \<mapsto> (fi_inode_generation f, ts)))"
| refused: "cache_spec (Insert_call f) m (Ret (-1)) (m(fi_inode_number f := None))"
| no_memory: "cache_spec (Insert_call f) m (Ret (- ENOMEM)) m"
| removed: "m (fi_inode_number f) = Some (fi_inode_generation f, ts) \<Longrightarrow>
     cache_spec (Find_remove_call f) m (Hit True) (m(fi_inode_number f := None))"
| absent: "\<forall>ts. m (fi_inode_number f) \<noteq> Some (fi_inode_generation f, ts) \<Longrightarrow>
     cache_spec (Find_remove_call f) m (Hit False) m"
| evicted: "cache_spec (Evict_call n) m Nothing (m |` survivors n m)"
| purged: "cache_spec Purge_call m Nothing Map.empty"

inductive_cases cache_spec_InsertE: "cache_spec (Insert_call f) m out m'"
inductive_cases cache_spec_EvictE: "cache_spec (Evict_call n) m out m'"
inductive_cases cache_spec_PurgeE: "cache_spec Purge_call m out m'"

fun answer_call :: "kernel_api \<Rightarrow> cache_call \<Rightarrow> cache_state \<Rightarrow> (answer \<times> cache_state) option" where
  "answer_call K (Insert_call f) s = do { (ret, s) \<leftarrow> insert_scan_cache_record K f s; Some (Ret ret, s) }"
| "answer_call K (Find_remove_call f) s = do { (hit, s) \<leftarrow> find_remove_scan_cache_record K f s; Some (Hit hit, s) }"
| "answer_call K (Evict_call n) s = do { s \<leftarrow> remove_cache_entry K n s; Some (Nothing, s) }"
| "answer_call K Purge_call s = do { s \<leftarrow> purge_cache K s; Some (Nothing, s) }"

section \<open>Eviction on the map\<close>

lemma strictly_sorted_drop:
  fixes f :: "'a \<Rightarrow> int"
  assumes "sorted_wrt (<) (map f xs)"
  shows "x \<in> set (drop n xs) \<longleftrightarrow> x \<in> set xs \<and> n \<le> card {y \<in> set xs. f y < f x}"
  using assms
proof (induction xs arbitrary: n)
  case (Cons y ys)
  have y: "\<And>z. z \<in> set ys \<Longrightarrow> f y < f z" using Cons.prems by simp
  show ?case
  proof (cases n)
    case (Suc m)
    show ?thesis
    proof (cases "x \<in> set ys")
      case True
      then have "{z \<in> set (y # ys). f z < f x} = insert y {z \<in> set ys. f z < f x}" using y by auto
      moreover have "y \<notin> set ys" using y by fastforce
      ultimately have "card {z \<in> set (y # ys). f z < f x} = Suc (card {z \<in> set ys. f z < f x})" by simp
      then show ?thesis using Cons.IH [of m] Cons.prems True Suc by simp
    next
      case False
      have "{z \<in> set (y # ys). f z < f y} = {}" using y by fastforce
      then have "card {z \<in> set (y # ys). f z < f y} = 0" by (simp only: card.empty)
      then have "\<not> (x \<in> set (y # ys) \<and> n \<le> card {z \<in> set (y # ys). f z < f x})"
        using False Suc by (metis Suc_neq_Zero le_zero_eq set_ConsD)
      moreover have "x \<notin> set (drop n (y # ys))" using False Suc by (auto dest: in_set_dropD)
      ultimately show ?thesis by blast
    qed
  qed simp
qed simp

text \<open>The list of the LRU tree and the map of the scan tree agree on what is old.\<close>

lemma older_contents:
  assumes I: "cache_inv d s" and l: "l \<in> lru_recs s"
  shows "card (older (contents s) (lru_time_stamp l)) =
    card {l' \<in> lru_recs s. timespec_rank (lru_time_stamp l') < timespec_rank (lru_time_stamp l)}"
proof -
  note D = cache_invD [OF I]
  let ?A = "{l' \<in> lru_recs s. timespec_rank (lru_time_stamp l') < timespec_rank (lru_time_stamp l)}"
  have "older (contents s) (lru_time_stamp l) = lru_inode_number ` ?A"
  proof -
    let ?J = "{j. \<exists>r\<in>scan_recs s. sc_inode_number r = j \<and>
      timespec_rank (sc_time_stamp r) < timespec_rank (lru_time_stamp l)}"
    have "older (contents s) (lru_time_stamp l) = ?J"
      unfolding older_def contents_Some_iff [OF D(2)] scan_entry_def by blast
    also have "?J = lru_inode_number ` ?A"
      unfolding D(5) by (force simp: lru_of_def)
    finally show ?thesis .
  qed
  moreover have "inj_on lru_inode_number ?A"
  proof -
    have inode: "lru_inode_number (lru_of r) = sc_inode_number r" for r by (simp add: lru_of_def)
    have "inj_on lru_inode_number (lru_of ` scan_recs s)"
      by (auto simp: inj_on_def inode dest: scan_recs_inode_inj [OF D(2)])
    then show ?thesis unfolding D(5) by (rule inj_on_subset) blast
  qed
  ultimately show ?thesis by (simp add: card_image)
qed

lemma survivors_contents:
  assumes I: "cache_inv d s"
  shows "lru_inode_number ` set (drop (nat n) (lru_order s)) = survivors n (contents s)"
proof -
  note D = cache_invD [OF I]
  have drop: "l \<in> set (drop (nat n) (lru_order s)) \<longleftrightarrow>
      l \<in> lru_recs s \<and> n \<le> int (card (older (contents s) (lru_time_stamp l)))" for l
    using strictly_sorted_drop [OF lru_order_sorted [OF D(3)], of l "nat n"] older_contents [OF I, of l]
    by (auto simp: set_lru_order nat_le_iff)
  have "i \<in> survivors n (contents s) \<longleftrightarrow> (\<exists>r\<in>scan_recs s. sc_inode_number r = i \<and>
      n \<le> int (card (older (contents s) (sc_time_stamp r))))" for i
    unfolding survivors_def contents_Some_iff [OF D(2)] by (auto simp: scan_entry_def)
  moreover have "i \<in> lru_inode_number ` set (drop (nat n) (lru_order s)) \<longleftrightarrow> (\<exists>r\<in>scan_recs s. sc_inode_number r = i \<and>
      n \<le> int (card (older (contents s) (sc_time_stamp r))))" for i
    unfolding image_iff Bex_def drop D(5) by (auto simp: lru_of_def)
  ultimately show ?thesis by blast
qed

section \<open>The code refines the map\<close>

text \<open>Two entries of the map never carry the same time stamp.\<close>

lemma contents_stamps:
  assumes I: "cache_inv d s" and "contents s i = Some (g, ts)" and "contents s j = Some (g', ts)"
  shows "i = j"
proof -
  note D = cache_invD [OF I]
  obtain r r' where r: "r \<in> scan_recs s" "scan_entry r = (i, g, ts)" "r' \<in> scan_recs s" "scan_entry r' = (j, g', ts)"
    using assms(2,3) contents_Some_iff [OF D(2)] by blast
  then have "lru_of r = lru_of r'"
    using lru_recs_time_inj [OF D(3), of "lru_of r" "lru_of r'"] D(5) by (simp add: lru_time_of scan_entry_def)
  then show ?thesis using r lru_of_inj [OF D(2)] by (auto simp: scan_entry_def)
qed

lemma insert_refines:
  assumes K: "kernel_ok K" and I: "cache_inv d s" and f: "fi_dev_id f = d" "uint (fi_inode_number f) < 2 ^ 63"
  shows "\<exists>ret s'. insert_scan_cache_record K f s = Some (ret, s') \<and> cache_inv d s' \<and>
    cache_spec (Insert_call f) (contents s) (Ret ret) (contents s')"
proof (cases "kmem_cache_alloc K Scan_slab (ticks s) (\<lambda>a. scan_objects s a \<noteq> None)")
  case None
  then show ?thesis
    using insert_scan_ENOMEM [OF I None, of f] I no_memory [of f "contents s"] by simp
next
  case (Some p)
  let ?i = "fi_inode_number f" and ?ts = "getnstimeofday K (Suc (ticks s))"
  obtain ret s' where S: "insert_scan_cache_record K f s = Some (ret, s')" "cache_inv d s'"
    "ret = 0 \<and> scan_recs s' = insert (new_record K f s) (others ?i s) \<or> ret = -1 \<and> scan_recs s' = others ?i s"
    using insert_scan_correct [OF K I f Some] by blast
  note T = cache_invD(2) [OF I] cache_invD(2) [OF S(2)]
  have "cache_spec (Insert_call f) (contents s) (Ret ret) (contents s')"
    using S(3)
  proof (elim disjE conjE)
    assume "ret = 0" and R: "scan_recs s' = insert (new_record K f s) (others ?i s)"
    have c: "contents s' = (contents s)(?i \<mapsto> (fi_inode_generation f, ?ts))"
      using contents_insert [OF T, of "new_record K f s"] R by (simp add: others_def)
    have "contents s j \<noteq> Some (g, ?ts)" if "j \<noteq> ?i" for j g
      using contents_stamps [OF S(2), of j g ?ts ?i] c that by auto
    then show ?thesis using c \<open>ret = 0\<close> K inserted by simp
  next
    assume "ret = -1" and "scan_recs s' = others ?i s"
    then show ?thesis using contents_delete [OF T] refused by (simp add: others_def)
  qed
  then show ?thesis using S(1,2) by blast
qed

lemma find_remove_refines:
  assumes K: "kernel_ok K" and I: "cache_inv d s" and f: "fi_dev_id f = d" "uint (fi_inode_number f) < 2 ^ 63"
  shows "\<exists>hit s'. find_remove_scan_cache_record K f s = Some (hit, s') \<and> cache_inv d s' \<and>
    cache_spec (Find_remove_call f) (contents s) (Hit hit) (contents s')"
proof (cases "\<exists>r\<in>scan_recs s. sc_inode_number r = fi_inode_number f \<and> sc_inode_generation r = fi_inode_generation f")
  case True
  then obtain r where r: "r \<in> scan_recs s" "sc_inode_number r = fi_inode_number f"
    "sc_inode_generation r = fi_inode_generation f" by blast
  obtain s' where s': "find_remove_scan_cache_record K f s = Some (True, s')" "cache_inv d s'"
    "scan_recs s' = others (fi_inode_number f) s"
    using find_remove_hit [OF K I f r] by blast
  have "contents s (fi_inode_number f) = Some (fi_inode_generation f, sc_time_stamp r)"
    unfolding contents_Some_iff [OF cache_invD(2) [OF I]] using r by (auto simp: scan_entry_def)
  moreover have "contents s' = (contents s)(fi_inode_number f := None)"
    using contents_delete [OF cache_invD(2) [OF I] cache_invD(2) [OF s'(2)]] s'(3) by (simp add: others_def)
  ultimately have "cache_spec (Find_remove_call f) (contents s) (Hit True) (contents s')"
    using removed by simp
  then show ?thesis using s'(1,2) by blast
next
  case False
  then have "find_remove_scan_cache_record K f s = Some (False, s)"
    using find_remove_miss [OF I f] by blast
  moreover have "\<forall>ts. contents s (fi_inode_number f) \<noteq> Some (fi_inode_generation f, ts)"
    unfolding contents_Some_iff [OF cache_invD(2) [OF I]] using False by (auto simp: scan_entry_def)
  ultimately show ?thesis using I absent by blast
qed

lemma evict_refines:
  assumes K: "kernel_ok K" and I: "cache_inv d s"
  shows "\<exists>s'. remove_cache_entry K n s = Some s' \<and> cache_inv d s' \<and>
    contents s' = contents s |` survivors n (contents s)"
proof -
  obtain s' where s': "remove_cache_entry K n s = Some s'" "cache_inv d s'" "scan_recs s' \<subseteq> scan_recs s"
    "lru_order s' = drop (nat n) (lru_order s)"
  proof (cases "n \<le> 0")
    case True
    then show thesis using that [of s] I by (simp add: remove_cache_entry_def)
  next
    case False
    then show thesis
      using remove_cache_entry_loop_correct [OF K I, of 0 n] that by (auto simp: remove_cache_entry_def)
  qed
  have "contents s' = contents s |` (lru_inode_number ` set (drop (nat n) (lru_order s)))"
    using contents_subset [OF I s'(2,3)] s'(4) by (metis set_lru_order)
  then show ?thesis using s'(1,2) survivors_contents [OF I] by simp
qed

lemma answer_call_refines:
  assumes K: "kernel_ok K" and I: "cache_inv d s" and c: "call_on_device d c"
  shows "\<exists>out s'. answer_call K c s = Some (out, s') \<and> cache_inv d s' \<and> cache_spec c (contents s) out (contents s')"
proof (cases c)
  case (Insert_call f)
  then show ?thesis using insert_refines [OF K I, of f] c by fastforce
next
  case (Find_remove_call f)
  then show ?thesis using find_remove_refines [OF K I, of f] c by fastforce
next
  case (Evict_call n)
  then show ?thesis using evict_refines [OF K I, of n] evicted [of n "contents s"] by auto
next
  case Purge_call
  obtain s' where "purge_cache K s = Some s'" "cache_inv d s'" "scan_cache_rb_tree s' = \<langle>\<rangle>"
    using purge_cache_correct [OF K I] by blast
  then show ?thesis using Purge_call purged by (simp add: contents_def)
qed

interpretation scan_cache: answers_refine "answer_call K" "\<lambda>s. kernel_ok K \<and> cache_inv d s" contents
  "call_on_device d" cache_spec for K d
  by unfold_locales (use answer_call_refines in blast)

text \<open>
  C1: Every sequence of calls on one device runs without a fault, and the answers it gives and
  the contents it leaves are those of the map: a hit exactly for the cached generation of an
  inode, an insertion that replaces the entry, is refused and then drops it, or has no effect
  for lack of memory, and evictions that drop the oldest entries and no others.
\<close>

theorem cache_runs_refine_map:
  assumes "kernel_ok K" and "cache_inv d s" and "list_all (call_on_device d) cs"
  shows "\<exists>outs s'. run_all (answer_call K) cs s = Some (outs, s') \<and> cache_inv d s' \<and>
     spec_run cache_spec cs (contents s) outs (contents s')"
  using scan_cache.run_refines [of K d s cs] assms by blast

theorem cache_runs_refine_map_witness:
  "\<exists>outs s'. run_all (answer_call ref_kernel) [Insert_call test_file, Evict_call 1, Find_remove_call test_file] ready_state =
       Some (outs, s') \<and> cache_inv 100 s' \<and>
     spec_run cache_spec [Insert_call test_file, Evict_call 1, Find_remove_call test_file] Map.empty outs (contents s')"
  using cache_runs_refine_map [OF ref_kernel_ok ready_state_inv, where cs =
      "[Insert_call test_file, Evict_call 1, Find_remove_call test_file]"]
  by simp

section \<open>No hit without an insertion\<close>


text \<open>The contents of the cache in front of the \<open>l\<close>-th call of a run.\<close>

definition contents_before :: "kernel_api \<Rightarrow> cache_call list \<Rightarrow> cache_state \<Rightarrow> nat \<Rightarrow> scan_map" where
  "contents_before K cs s l =
     (case run_all (answer_call K) (take l cs) s of Some (outs, s') \<Rightarrow> contents s' | None \<Rightarrow> Map.empty)"



lemma contents_before_0 [simp]: "contents_before K cs s 0 = contents s"
  by (simp add: contents_before_def)









end
