(* ===== verification/Cache_Safety.thy ===== *)
theory Cache_Safety
  imports Cache_Spec
begin

text \<open>
  What the scan cache guarantees for every mixture of devices, inode numbers and time stamps,
  also where its comparison functions are no orders: the structure of the two trees, that no
  call faults, that unloading frees every record that is linked, and how much can leak. The
  invariant \<open>cache_sound\<close> says nothing of the order of the trees and nothing of their
  agreement; \<open>stray\<close> are the LRU objects that no tree refers to any more.
\<close>

section \<open>The structural invariant\<close>

text \<open>\<open>A\<close> are the live scan objects that are in no tree: none between two calls.\<close>

definition cache_sound :: "addr set \<Rightarrow> cache_state \<Rightarrow> bool" where
  "cache_sound A s \<longleftrightarrow> quiescent s \<and>
     distinct (inorder (scan_cache_rb_tree s)) \<and> distinct (inorder (lru_cache_rb_tree s)) \<and>
     dom (scan_objects s) = A \<union> set (inorder (scan_cache_rb_tree s)) \<and>
     A \<inter> set (inorder (scan_cache_rb_tree s)) = {} \<and>
     set (inorder (lru_cache_rb_tree s)) \<subseteq> dom (lru_objects s)"

definition stray :: "cache_state \<Rightarrow> addr set" where
  "stray s = dom (lru_objects s) - set (inorder (lru_cache_rb_tree s))"

text \<open>At most \<open>n\<close> LRU objects become stray from \<open>s\<close> to \<open>s'\<close>.\<close>

definition leaks :: "nat \<Rightarrow> cache_state \<Rightarrow> cache_state \<Rightarrow> bool" where
  "leaks n s s' \<longleftrightarrow> (\<exists>X. finite X \<and> card X \<le> n \<and> stray s' \<subseteq> stray s \<union> X)"

definition same_scan :: "cache_state \<Rightarrow> cache_state \<Rightarrow> bool" where
  "same_scan s s' \<longleftrightarrow> scan_objects s' = scan_objects s \<and> scan_cache_rb_tree s' = scan_cache_rb_tree s"

lemma leaks_subset: "stray s' \<subseteq> stray s \<Longrightarrow> leaks n s s'"
  unfolding leaks_def by (rule exI [of _ "{}"]) simp

lemma leaks_refl [simp]: "leaks n s s"
  by (rule leaks_subset) simp

lemma leaks_trans:
  assumes "leaks m s s'" and "leaks n s' s''"
  shows "leaks (m + n) s s''"
proof -
  obtain X Y where X: "finite X" "card X \<le> m" "stray s' \<subseteq> stray s \<union> X"
    and Y: "finite Y" "card Y \<le> n" "stray s'' \<subseteq> stray s' \<union> Y"
    using assms by (auto simp: leaks_def)
  then show ?thesis
    unfolding leaks_def using card_Un_le [of X Y] by (intro exI [of _ "X \<union> Y"]) auto
qed

lemma leaks_mono: "leaks m s s' \<Longrightarrow> m \<le> n \<Longrightarrow> leaks n s s'"
  unfolding leaks_def by (meson order_trans)

lemma leaks_step: "leaks 0 s s' \<Longrightarrow> leaks n s' s'' \<Longrightarrow> leaks n s s''"
  using leaks_trans [of 0] by simp

lemma leaks_by_one: "stray s' \<subseteq> insert p (stray s) \<Longrightarrow> leaks 1 s s'"
  unfolding leaks_def by (rule exI [of _ "{p}"]) auto

lemma stray_cong:
  "lru_objects s' = lru_objects s \<Longrightarrow> lru_cache_rb_tree s' = lru_cache_rb_tree s \<Longrightarrow> stray s' = stray s"
  by (simp add: stray_def)

lemma cache_soundD:
  assumes "cache_sound A s"
  shows "quiescent s" "distinct (inorder (scan_cache_rb_tree s))" "distinct (inorder (lru_cache_rb_tree s))"
    "dom (scan_objects s) = A \<union> set (inorder (scan_cache_rb_tree s))"
    "A \<inter> set (inorder (scan_cache_rb_tree s)) = {}"
    "set (inorder (lru_cache_rb_tree s)) \<subseteq> dom (lru_objects s)"
  using assms by (simp_all add: cache_sound_def)

lemma sound_scan_live: "cache_sound A s \<Longrightarrow> p \<in> A \<union> set (inorder (scan_cache_rb_tree s)) \<Longrightarrow> \<exists>r. scan_objects s p = Some r"
  using cache_soundD(4) by blast

lemma sound_lru_live: "cache_sound A s \<Longrightarrow> p \<in> set (inorder (lru_cache_rb_tree s)) \<Longrightarrow> \<exists>l. lru_objects s p = Some l"
  using cache_soundD(6) by blast

section \<open>The parts of an operation\<close>

lemma remove_lru_sound:
  assumes "kernel_ok K" and "cache_sound A s" and "p \<in> set (inorder (lru_cache_rb_tree s))"
  shows "\<exists>s'. remove_lru_cache_record K (Some p) s = Some s' \<and> cache_sound A s' \<and> same_scan s s' \<and>
     stray s' = stray s \<and> inorder (lru_cache_rb_tree s') = remove1 p (inorder (lru_cache_rb_tree s))"
proof -
  note D = cache_soundD [OF assms(2)]
  obtain l where l: "lru_objects s p = Some l" using sound_lru_live [OF assms(2,3)] by blast
  have i: "inorder (rb_erase (rbtree K) p (lru_cache_rb_tree s)) = remove1 p (inorder (lru_cache_rb_tree s))"
    using inorder_rb_erase [OF kernel_ok_rb [OF assms(1)] D(3) assms(3)] .
  show ?thesis
    using remove_lru_effect [OF _ assms(3) l, of K] assms(3) D i
    by (auto simp: cache_sound_def quiescent_def same_scan_def stray_def set_remove1_eq)
qed

lemma remove_scan_sound:
  assumes "kernel_ok K" and "cache_sound A s" and "p \<in> set (inorder (scan_cache_rb_tree s))"
  shows "\<exists>s'. remove_scan_cache_record K (Some p) s = Some s' \<and> cache_sound A s' \<and> stray s' = stray s \<and>
     inorder (scan_cache_rb_tree s') = remove1 p (inorder (scan_cache_rb_tree s)) \<and>
     lru_cache_rb_tree s' = lru_cache_rb_tree s \<and> lru_objects s' = lru_objects s"
proof -
  note D = cache_soundD [OF assms(2)]
  obtain r where r: "scan_objects s p = Some r" using sound_scan_live [OF assms(2)] assms(3) by blast
  have i: "inorder (rb_erase (rbtree K) p (scan_cache_rb_tree s)) = remove1 p (inorder (scan_cache_rb_tree s))"
    using inorder_rb_erase [OF kernel_ok_rb [OF assms(1)] D(2) assms(3)] .
  have "dom ((scan_objects s)(p := None)) = A \<union> (set (inorder (scan_cache_rb_tree s)) - {p})"
    using D(4,5) assms(3) by auto
  then show ?thesis
    using remove_scan_effect [OF _ assms(3) r, of K] D i
    by (auto simp: cache_sound_def quiescent_def stray_def set_remove1_eq)
qed

lemma free_scan_sound:
  assumes "cache_sound (insert p A) s" and "p \<notin> A"
  shows "\<exists>s'. kmem_cache_free_scan p s = Some s' \<and> cache_sound A s' \<and> stray s' = stray s"
proof -
  note D = cache_soundD [OF assms(1)]
  obtain r where "scan_objects s p = Some r" using sound_scan_live [OF assms(1)] by blast
  moreover have "dom ((scan_objects s)(p := None)) = A \<union> set (inorder (scan_cache_rb_tree s))"
    using D(4,5) assms(2) by auto
  ultimately show ?thesis
    using D by (auto simp: kmem_cache_free_scan_def heap_simps cache_sound_def quiescent_def stray_def)
qed

lemma insert_lru_sound:
  assumes "kernel_ok K" and "cache_sound A s"
  shows "\<exists>ret s'. insert_lru_cache_record K ts dv ino gen s = Some (ret, s') \<and> cache_sound A s' \<and>
     same_scan s s' \<and> leaks (if ret = 0 then 0 else 1) s s'"
proof (cases "kmem_cache_alloc K Lru_slab (ticks s) (\<lambda>a. lru_objects s a \<noteq> None)")
  case None
  have "stray (s\<lparr>ticks := Suc (ticks s)\<rparr>) = stray s" by (simp add: stray_def)
  then show ?thesis
    using None assms(2) by (simp add: insert_lru_cache_record_def lru_cache_alloc_def cache_sound_def
        quiescent_def same_scan_def leaks_subset)
next
  case (Some p)
  note D = cache_soundD [OF assms(2)]
  let ?l = "\<lparr>lru_time_stamp = ts, lru_dev_id = dv, lru_inode_number = ino, lru_inode_generation = gen\<rparr>"
  let ?m = "(lru_objects s)(p \<mapsto> ?l)"
  let ?c = "\<lambda>n. do { q \<leftarrow> ?m n; Some (lru_cache_insert_compare_table ?l q) }"
  have p: "lru_objects s p = None" using kernel_ok_alloc [OF assms(1) Some] by simp
  have "p \<notin> set (inorder (lru_cache_rb_tree s))" "\<forall>n\<in>set (inorder (lru_cache_rb_tree s)). ?c n \<noteq> None"
    using D(6) p by auto
  from RB_INSERT_total [OF kernel_ok_rb [OF assms(1)] D(3) this]
  obtain ret t where R: "RB_INSERT (rbtree K) (lru_cache_rb_tree s) p ?c = Some (ret, t)"
    "distinct (inorder t)"
    "ret = -1 \<and> t = lru_cache_rb_tree s \<or> ret = 0 \<and> set (inorder t) = insert p (set (inorder (lru_cache_rb_tree s)))"
    using D(3) by auto
  let ?s = "s\<lparr>ticks := Suc (ticks s), lru_objects := ?m, lru_cache_rb_tree := t\<rparr>"
  have "stray ?s \<subseteq> insert p (stray s)" and "ret = 0 \<Longrightarrow> stray ?s \<subseteq> stray s"
    using R(3) by (auto simp: stray_def)
  then have "leaks (if ret = 0 then 0 else 1) s ?s"
    using leaks_subset leaks_by_one by simp
  moreover have "cache_sound A ?s"
    using D R(2,3) by (auto simp: cache_sound_def quiescent_def)
  ultimately show ?thesis
    using insert_lru_unfold [OF D(1) Some, of ts dv ino gen] R(1) by (simp add: same_scan_def)
qed

lemma search_scan_total:
  assumes "cache_sound A s" and "\<And>q. f q \<noteq> None"
  shows "\<exists>found. RB_SEARCH (scan_cache_rb_tree s) (\<lambda>n. Option.bind (scan_objects s n) f) = Some found \<and>
     (\<forall>p. found = Some p \<longrightarrow> p \<in> set (inorder (scan_cache_rb_tree s)))"
proof -
  have "\<forall>n\<in>set (inorder (scan_cache_rb_tree s)). Option.bind (scan_objects s n) f \<noteq> None"
    using cache_soundD(4) [OF assms(1)] assms(2) by (force simp: bind_eq_None_conv)
  from RB_SEARCH_total [OF this] show ?thesis using RB_SEARCH_member by blast
qed

lemma search_lru_total:
  assumes "cache_sound A s" and "\<And>q. f q \<noteq> None"
  shows "\<exists>found. RB_SEARCH (lru_cache_rb_tree s) (\<lambda>n. Option.bind (lru_objects s n) f) = Some found \<and>
     (\<forall>p. found = Some p \<longrightarrow> p \<in> set (inorder (lru_cache_rb_tree s)))"
proof -
  have "\<forall>n\<in>set (inorder (lru_cache_rb_tree s)). Option.bind (lru_objects s n) f \<noteq> None"
    using cache_soundD(6) [OF assms(1)] assms(2) by (force simp: bind_eq_None_conv)
  from RB_SEARCH_total [OF this] show ?thesis using RB_SEARCH_member by blast
qed

lemma find_scan_sound:
  assumes "cache_sound A s"
  shows "\<exists>found. find_scan_cache_record (Some k) s = Some (found, s) \<and>
     (\<forall>p. found = Some p \<longrightarrow> p \<in> set (inorder (scan_cache_rb_tree s)))"
  using search_scan_total [OF assms, of "\<lambda>q. Some (scan_cache_find_compare_table (Some k) (Some q))"]
    cache_soundD(1) [OF assms]
  by (auto simp: find_scan_cache_record_def lock_defs quiescent_def)

lemma find_lru_sound:
  assumes "cache_sound A s"
  shows "\<exists>found. find_lru_cache_record (Some k) s = Some (found, s) \<and>
     (\<forall>p. found = Some p \<longrightarrow> p \<in> set (inorder (lru_cache_rb_tree s)))"
  using search_lru_total [OF assms, of "\<lambda>q. Some (lru_cache_find_compare_table k q)"]
    cache_soundD(1) [OF assms]
  by (auto simp: find_lru_cache_record_def lock_defs quiescent_def)

lemma same_scan_trans: "same_scan s s' \<Longrightarrow> same_scan s' s'' \<Longrightarrow> same_scan s s''"
  by (simp add: same_scan_def)

lemma update_lru_sound:
  assumes "kernel_ok K" and "cache_sound A s"
    and "scan_objects s old = Some r" and "scan_objects s new = Some r'"
  shows "\<exists>ret s'. find_and_update_lru_cache_record K old new s = Some (ret, s') \<and> cache_sound A s' \<and>
     same_scan s s' \<and> leaks (if ret = 0 then 0 else 1) s s'"
proof -
  note Q = cache_soundD(1) [OF assms(2), unfolded quiescent_def]
  obtain found where f: "RB_SEARCH (lru_cache_rb_tree s) (\<lambda>n. do { q \<leftarrow> lru_objects s n;
      Some (lru_cache_find_compare_table \<lparr>lru_key_time_stamp = sc_time_stamp r\<rparr> q) }) = Some found"
    "\<And>p. found = Some p \<Longrightarrow> p \<in> set (inorder (lru_cache_rb_tree s))"
    using search_lru_total [OF assms(2), of
        "\<lambda>q. Some (lru_cache_find_compare_table \<lparr>lru_key_time_stamp = sc_time_stamp r\<rparr> q)"] by auto
  show ?thesis
  proof (cases found)
    case None
    then show ?thesis
      using f(1) Q assms(2,3) by (simp add: find_and_update_lru_cache_record_def lock_defs same_scan_def)
  next
    case (Some p)
    obtain s1 where s1: "remove_lru_cache_record K (Some p) s = Some s1" "cache_sound A s1"
      "same_scan s s1" "stray s1 = stray s"
      using remove_lru_sound [OF assms(1,2) f(2) [OF Some]] by blast
    obtain ret s2 where s2: "insert_lru_cache_record K (sc_time_stamp r') (sc_dev_id r')
        (sc_inode_number r') (sc_inode_generation r') s1 = Some (ret, s2)" "cache_sound A s2"
      "same_scan s1 s2" "leaks (if ret = 0 then 0 else 1) s1 s2"
      using insert_lru_sound [OF assms(1) s1(2)] by blast
    have "leaks (if ret = 0 then 0 else 1) s s2"
      using s2(4) s1(4) by (simp add: leaks_def)
    then show ?thesis
      using f(1) Some Q assms(3,4) s1 s2 same_scan_trans [OF s1(3) s2(3)]
      by (simp add: find_and_update_lru_cache_record_def lock_defs same_scan_def)
  qed
qed

lemma replace_sound:
  assumes K: "kernel_ok K" and S: "cache_sound {new} s" and old: "old \<in> set (inorder (scan_cache_rb_tree s))"
  shows "cache_sound {old} (s\<lparr>scan_cache_rb_tree := rb_replace_node (rbtree K) old new (scan_cache_rb_tree s)\<rparr>)"
    and "set (inorder (rb_replace_node (rbtree K) old new (scan_cache_rb_tree s))) =
      insert new (set (inorder (scan_cache_rb_tree s)) - {old})"
proof -
  note D = cache_soundD [OF S]
  have new: "new \<notin> set (inorder (scan_cache_rb_tree s))" using D(5) by simp
  have i: "inorder (rb_replace_node (rbtree K) old new (scan_cache_rb_tree s)) =
      map (\<lambda>x. if x = old then new else x) (inorder (scan_cache_rb_tree s))"
    using inorder_rb_replace [OF kernel_ok_rb [OF K] D(2) old new] .
  then show set: "set (inorder (rb_replace_node (rbtree K) old new (scan_cache_rb_tree s))) =
      insert new (set (inorder (scan_cache_rb_tree s)) - {old})"
    using old by auto
  have "inj_on (\<lambda>x. if x = old then new else x) (set (inorder (scan_cache_rb_tree s)))"
    using new by (auto simp: inj_on_def)
  then have "distinct (inorder (rb_replace_node (rbtree K) old new (scan_cache_rb_tree s)))"
    using i D(2) by (simp add: distinct_map)
  then show "cache_sound {old} (s\<lparr>scan_cache_rb_tree := rb_replace_node (rbtree K) old new (scan_cache_rb_tree s)\<rparr>)"
    using D set old new by (auto simp: cache_sound_def quiescent_def)
qed

lemma update_scan_sound:
  assumes K: "kernel_ok K" and S: "cache_sound {p} s"
  shows "\<exists>ret s'. find_and_update_scan_cache_record K (Some p) s = Some (ret, s') \<and> cache_sound {} s' \<and>
     leaks (if ret = 0 then 0 else 1) s s'"
proof -
  note Q = cache_soundD(1) [OF S, unfolded quiescent_def]
  obtain r where r: "scan_objects s p = Some r" using sound_scan_live [OF S] by blast
  obtain found where f: "RB_SEARCH (scan_cache_rb_tree s) (\<lambda>n. do { q \<leftarrow> scan_objects s n;
      Some (scan_cache_insert_compare_table (Some r) (Some q)) }) = Some found"
    "\<And>a. found = Some a \<Longrightarrow> a \<in> set (inorder (scan_cache_rb_tree s))"
    using search_scan_total [OF S, of "\<lambda>q. Some (scan_cache_insert_compare_table (Some r) (Some q))"] by auto
  show ?thesis
  proof (cases found)
    case None
    obtain s' where "kmem_cache_free_scan p s = Some s'" "cache_sound {} s'" "stray s' = stray s"
      using free_scan_sound [of p "{}" s] S by auto
    then show ?thesis
      using None f(1) r Q by (simp add: find_and_update_scan_cache_record_def lock_defs leaks_subset)
  next
    case (Some old)
    have old: "old \<in> set (inorder (scan_cache_rb_tree s))" using f(2) [OF Some] .
    let ?s1 = "s\<lparr>scan_cache_rb_tree := rb_replace_node (rbtree K) old p (scan_cache_rb_tree s)\<rparr>"
    note R = replace_sound [OF K S old]
    have new: "p \<notin> set (inorder (scan_cache_rb_tree s))" using cache_soundD(5) [OF S] by simp
    obtain ro where ro: "scan_objects s old = Some ro" using sound_scan_live [OF S] old by blast
    obtain ret s2 where s2: "find_and_update_lru_cache_record K old p ?s1 = Some (ret, s2)" "cache_sound {old} s2"
      "same_scan ?s1 s2" "leaks (if ret = 0 then 0 else 1) ?s1 s2"
      using update_lru_sound [OF K R(1), of old ro p r] r ro by auto
    have p2: "p \<in> set (inorder (scan_cache_rb_tree s2))"
      using s2(3) R(2) by (simp add: same_scan_def)
    obtain s3 where s3: "(if ret \<noteq> 0 then remove_scan_cache_record K (Some p) s2 else Some s2) = Some s3"
      "cache_sound {old} s3" "stray s3 = stray s2"
      using remove_scan_sound [OF K s2(2) p2] s2(2) by (cases "ret = 0") auto
    obtain s4 where s4: "kmem_cache_free_scan old s3 = Some s4" "cache_sound {} s4" "stray s4 = stray s3"
      using free_scan_sound [of old "{}" s3] s3(2) by auto
    have "leaks (if ret = 0 then 0 else 1) s s4"
      using s2(4) s3(3) s4(3) by (simp add: leaks_def stray_def)
    then show ?thesis
      using Some f(1) r Q old new s2(1) s3(1) s4
      by (simp add: find_and_update_scan_cache_record_def lock_defs RB_REPLACE_def)
  qed
qed

section \<open>The operations\<close>

text \<open>A new record that was linked gets its LRU record, or is taken out again.\<close>

lemma insert_rest_sound:
  assumes K: "kernel_ok K" and S: "cache_sound {} s" and p: "p \<in> set (inorder (scan_cache_rb_tree s))"
  shows "\<exists>ret s'. do {
       (ret, s) \<leftarrow> insert_lru_cache_record K ts dv ino gen s;
       s \<leftarrow> (if ret \<noteq> 0 then remove_scan_cache_record K (Some p) s else Some s);
       Some (ret, s) } = Some (ret, s') \<and> cache_sound {} s' \<and> leaks (if ret = 0 then 0 else 1) s s'"
proof -
  obtain ret s1 where s1: "insert_lru_cache_record K ts dv ino gen s = Some (ret, s1)" "cache_sound {} s1"
    "same_scan s s1" "leaks (if ret = 0 then 0 else 1) s s1"
    using insert_lru_sound [OF K S] by blast
  have p1: "p \<in> set (inorder (scan_cache_rb_tree s1))" using s1(3) p by (simp add: same_scan_def)
  obtain s2 where "(if ret \<noteq> 0 then remove_scan_cache_record K (Some p) s1 else Some s1) = Some s2"
    "cache_sound {} s2" "stray s2 = stray s1"
    using remove_scan_sound [OF K s1(2) p1] s1(2) by (cases "ret = 0") auto
  then show ?thesis using s1(1,4) by (simp add: leaks_def)
qed

lemma insert_scan_sound:
  assumes K: "kernel_ok K" and S: "cache_sound {} s"
  shows "\<exists>ret s'. insert_scan_cache_record K f s = Some (ret, s') \<and> cache_sound {} s' \<and>
     leaks (if ret = 0 then 0 else 1) s s'"
proof (cases "kmem_cache_alloc K Scan_slab (ticks s) (\<lambda>a. scan_objects s a \<noteq> None)")
  case None
  have "stray (s\<lparr>ticks := Suc (ticks s)\<rparr>) = stray s" by (simp add: stray_def)
  then show ?thesis
    using None S by (simp add: insert_scan_cache_record_def scan_cache_alloc_def cache_sound_def
        quiescent_def leaks_subset)
next
  case (Some p)
  note D = cache_soundD [OF S]
  let ?w = "written K f p s"
  let ?c = "\<lambda>n. do { q \<leftarrow> scan_objects ?w n;
    Some (scan_cache_insert_compare_table (Some (new_record K f s)) (Some q)) }"
  have fresh: "p \<notin> set (inorder (scan_cache_rb_tree s))" using D(4) kernel_ok_alloc [OF K Some] by auto
  have "scan_objects ?w n \<noteq> None" if "n \<in> set (inorder (scan_cache_rb_tree s))" for n
    using D(4) that by (auto simp: written_def)
  then have "\<forall>n\<in>set (inorder (scan_cache_rb_tree s)). ?c n \<noteq> None" by (auto simp: bind_eq_None_conv)
  from RB_INSERT_total [OF kernel_ok_rb [OF K] D(2) fresh this]
  obtain ret t where R: "RB_INSERT (rbtree K) (scan_cache_rb_tree s) p ?c = Some (ret, t)" "distinct (inorder t)"
    "ret = -1 \<and> t = scan_cache_rb_tree s \<or> ret = 0 \<and> set (inorder t) = insert p (set (inorder (scan_cache_rb_tree s)))"
    using D(2) by auto
  let ?s = "?w\<lparr>scan_cache_rb_tree := t\<rparr>"
  note U = insert_scan_unfold [OF D(1) Some, of f]
  have stray: "stray ?s = stray s" by (simp add: stray_def written_def)
  have sound: "cache_sound (if ret = 0 then {} else {p}) ?s"
    using R(2,3) D fresh by (auto simp: cache_sound_def quiescent_def written_def)
  show ?thesis
  proof (cases "ret = 0")
    case False
    then show ?thesis using update_scan_sound [OF K, of p ?s] sound U R(1) stray by (simp add: leaks_def)
  next
    case True
    then have "p \<in> set (inorder (scan_cache_rb_tree ?s))" using R(3) by auto
    from insert_rest_sound [OF K _ this] show ?thesis using sound True U R(1) stray by (simp add: leaks_def)
  qed
qed

lemma find_remove_sound:
  assumes K: "kernel_ok K" and S: "cache_sound {} s"
  shows "\<exists>found s'. find_remove_scan_cache_record K f s = Some (found, s') \<and> cache_sound {} s' \<and> leaks 0 s s'"
proof -
  obtain found where f: "find_scan_cache_record (Some (file_key f)) s = Some (found, s)"
    "\<And>p. found = Some p \<Longrightarrow> p \<in> set (inorder (scan_cache_rb_tree s))"
    using find_scan_sound [OF S] by blast
  show ?thesis
  proof (cases found)
    case None
    then have "find_remove_scan_cache_record K f s = Some (False, s)"
      using f(1) by (simp add: find_remove_scan_cache_record_def file_key_def)
    then show ?thesis using S leaks_refl by blast
  next
    case (Some p)
    obtain r where r: "scan_objects s p = Some r" using sound_scan_live [OF S] f(2) [OF Some] by blast
    obtain lru where l: "find_lru_cache_record (Some \<lparr>lru_key_time_stamp = sc_time_stamp r\<rparr>) s = Some (lru, s)"
      "\<And>q. lru = Some q \<Longrightarrow> q \<in> set (inorder (lru_cache_rb_tree s))"
      using find_lru_sound [OF S] by blast
    obtain b s1 where s1: "find_remove_lru_cache_record K (sc_time_stamp r) s = Some (b, s1)"
      "cache_sound {} s1" "same_scan s s1" "stray s1 = stray s"
    proof (cases lru)
      case None
      with that [of False s] l(1) S show thesis by (simp add: find_remove_lru_cache_record_def same_scan_def)
    next
      case (Some q)
      with that l remove_lru_sound [OF K S, of q] show thesis
        by (auto simp: find_remove_lru_cache_record_def)
    qed
    have "p \<in> set (inorder (scan_cache_rb_tree s1))"
      using s1(3) f(2) [OF Some] by (simp add: same_scan_def)
    from remove_scan_sound [OF K s1(2) this]
    obtain s2 where "remove_scan_cache_record K (Some p) s1 = Some s2" "cache_sound {} s2" "stray s2 = stray s1"
      by blast
    then show ?thesis
      using Some f(1) r s1 by (simp add: find_remove_scan_cache_record_def file_key_def leaks_subset ex_bool_eq)
  qed
qed

lemma evict_sound:
  assumes K: "kernel_ok K" and "cache_sound {} s"
  shows "\<exists>s'. remove_cache_entry_loop K count k s = Some s' \<and> cache_sound {} s' \<and> leaks 0 s s'"
  using assms(2)
proof (induction "length (inorder (lru_cache_rb_tree s))" arbitrary: s k)
  case 0
  then show ?case by (subst remove_cache_entry_loop.simps) (simp add: RB_EMPTY_ROOT_def)
next
  case (Suc n)
  then obtain p ps where pps: "inorder (lru_cache_rb_tree s) = p # ps" by (metis Suc_length_conv)
  then have p: "p \<in> set (inorder (lru_cache_rb_tree s))" by simp
  have ne: "lru_cache_rb_tree s \<noteq> \<langle>\<rangle>" using pps by auto
  have first: "RB_FIRST (rbtree K) (lru_cache_rb_tree s) = Some p"
    using RB_FIRST_inorder [OF kernel_ok_rb [OF K]] pps by simp
  obtain l where l: "lru_objects s p = Some l" using sound_lru_live [OF Suc.prems p] by blast
  obtain found where f: "find_scan_cache_record (Some \<lparr>key_dev_id = lru_dev_id l,
      key_inode_number = lru_inode_number l, key_inode_generation = lru_inode_generation l\<rparr>) s = Some (found, s)"
    "\<And>q. found = Some q \<Longrightarrow> q \<in> set (inorder (scan_cache_rb_tree s))"
    using find_scan_sound [OF Suc.prems] by blast
  show ?case
  proof (cases found)
    case None
    then show ?thesis
      using Suc.prems first l f(1) ne by (subst remove_cache_entry_loop.simps) (simp add: RB_EMPTY_ROOT_def)
  next
    case (Some q)
    obtain s1 where s1: "remove_lru_cache_record K (Some p) s = Some s1" "cache_sound {} s1" "same_scan s s1"
      "stray s1 = stray s" "inorder (lru_cache_rb_tree s1) = ps"
      using remove_lru_sound [OF K Suc.prems p] pps by auto
    have "q \<in> set (inorder (scan_cache_rb_tree s1))" using f(2) [OF Some] s1(3) by (simp add: same_scan_def)
    from remove_scan_sound [OF K s1(2) this]
    obtain s2 where s2: "remove_scan_cache_record K (Some q) s1 = Some s2" "cache_sound {} s2"
      "stray s2 = stray s1" "lru_cache_rb_tree s2 = lru_cache_rb_tree s1" by blast
    have leak: "leaks 0 s s2" using s1(4) s2(3) by (simp add: leaks_subset)
    have "n = length (inorder (lru_cache_rb_tree s2))" using Suc.hyps(2) pps s1(5) s2(4) by simp
    from Suc.hyps(1) [OF this s2(2), of "k + 1"]
    obtain s3 where "remove_cache_entry_loop K count (k + 1) s2 = Some s3" "cache_sound {} s3" "leaks 0 s2 s3"
      by blast
    then show ?thesis
      using first l f(1) Some s1(1) s2(1,2) leak ne leaks_step [OF leak]
      by (subst remove_cache_entry_loop.simps) (auto simp: RB_EMPTY_ROOT_def)
  qed
qed

lemma purge_scan_sound:
  assumes K: "kernel_ok K" and "cache_sound {} s"
  shows "\<exists>s'. purge_scan_cache K s = Some s' \<and> cache_sound {} s' \<and> scan_cache_rb_tree s' = \<langle>\<rangle> \<and> stray s' = stray s"
  using assms(2)
proof (induction "length (inorder (scan_cache_rb_tree s))" arbitrary: s)
  case 0
  then show ?case by (subst purge_scan_cache.simps) (simp add: RB_EMPTY_ROOT_def)
next
  case (Suc n)
  then obtain p ps where pps: "inorder (scan_cache_rb_tree s) = p # ps" by (metis Suc_length_conv)
  then have p: "p \<in> set (inorder (scan_cache_rb_tree s))" by simp
  have ne: "scan_cache_rb_tree s \<noteq> \<langle>\<rangle>" using pps by auto
  obtain r where r: "scan_objects s p = Some r" using sound_scan_live [OF Suc.prems] p by blast
  obtain s1 where s1: "remove_scan_cache_record K (Some p) s = Some s1" "cache_sound {} s1" "stray s1 = stray s"
    "inorder (scan_cache_rb_tree s1) = ps"
    using remove_scan_sound [OF K Suc.prems p] pps by auto
  have "n = length (inorder (scan_cache_rb_tree s1))" using Suc.hyps(2) pps s1(4) by simp
  from Suc.hyps(1) [OF this s1(2)] show ?case
    using RB_FIRST_inorder [OF kernel_ok_rb [OF K], of "scan_cache_rb_tree s"] pps r s1(1,3) ne
    by (subst purge_scan_cache.simps) (simp add: RB_EMPTY_ROOT_def)
qed

lemma purge_lru_sound:
  assumes K: "kernel_ok K" and "cache_sound {} s"
  shows "\<exists>s'. purge_lru_cache K s = Some s' \<and> cache_sound {} s' \<and> lru_cache_rb_tree s' = \<langle>\<rangle> \<and>
     same_scan s s' \<and> stray s' = stray s"
  using assms(2)
proof (induction "length (inorder (lru_cache_rb_tree s))" arbitrary: s)
  case 0
  then show ?case by (subst purge_lru_cache.simps) (simp add: RB_EMPTY_ROOT_def same_scan_def)
next
  case (Suc n)
  then obtain p ps where pps: "inorder (lru_cache_rb_tree s) = p # ps" by (metis Suc_length_conv)
  then have p: "p \<in> set (inorder (lru_cache_rb_tree s))" by simp
  have ne: "lru_cache_rb_tree s \<noteq> \<langle>\<rangle>" using pps by auto
  obtain l where l: "lru_objects s p = Some l" using sound_lru_live [OF Suc.prems p] by blast
  obtain s1 where s1: "remove_lru_cache_record K (Some p) s = Some s1" "cache_sound {} s1" "same_scan s s1"
    "stray s1 = stray s" "inorder (lru_cache_rb_tree s1) = ps"
    using remove_lru_sound [OF K Suc.prems p] pps by auto
  have "n = length (inorder (lru_cache_rb_tree s1))" using Suc.hyps(2) pps s1(5) by simp
  from Suc.hyps(1) [OF this s1(2)] show ?case
    using RB_FIRST_inorder [OF kernel_ok_rb [OF K], of "lru_cache_rb_tree s"] pps l s1(1,4) ne
      same_scan_trans [OF s1(3)]
    by (subst purge_lru_cache.simps) (auto simp: RB_EMPTY_ROOT_def)
qed

lemma purge_sound:
  assumes "kernel_ok K" and "cache_sound {} s"
  shows "\<exists>s'. purge_cache K s = Some s' \<and> cache_sound {} s' \<and> scan_cache_rb_tree s' = \<langle>\<rangle> \<and>
     lru_cache_rb_tree s' = \<langle>\<rangle> \<and> leaks 0 s s'"
proof -
  obtain s1 where "purge_scan_cache K s = Some s1" "cache_sound {} s1" "scan_cache_rb_tree s1 = \<langle>\<rangle>" "stray s1 = stray s"
    using purge_scan_sound [OF assms] by blast
  then show ?thesis
    using purge_lru_sound [OF assms(1), of s1] by (auto simp: purge_cache_def same_scan_def leaks_subset)
qed

section \<open>Runs\<close>

fun failed :: "answer \<Rightarrow> bool" where
  "failed (Ret ret) \<longleftrightarrow> ret \<noteq> 0"
| "failed _ \<longleftrightarrow> False"

definition failures :: "answer list \<Rightarrow> nat" where
  "failures outs = length (filter failed outs)"

text \<open>What a call may do to the LRU objects, as a specification of calls with answers.\<close>

definition leak_spec :: "cache_call \<Rightarrow> cache_state \<Rightarrow> answer \<Rightarrow> cache_state \<Rightarrow> bool" where
  "leak_spec c s out s' \<longleftrightarrow> leaks (if failed out then 1 else 0) s s'"

lemma answer_call_sound:
  assumes K: "kernel_ok K" and S: "cache_sound {} s"
  shows "\<exists>out s'. answer_call K c s = Some (out, s') \<and> cache_sound {} s' \<and> leak_spec c s out s'"
proof (cases c)
  case (Insert_call f)
  then show ?thesis using insert_scan_sound [OF K S, of f] by (fastforce simp: leak_spec_def)
next
  case (Find_remove_call f)
  then show ?thesis using find_remove_sound [OF K S, of f] by (fastforce simp: leak_spec_def)
next
  case (Evict_call n)
  moreover obtain s' where "remove_cache_entry K n s = Some s'" "cache_sound {} s'" "leaks 0 s s'"
    using evict_sound [OF K S, of n 0] S leaks_refl [of 0 s]
    by (cases "n \<le> 0") (auto simp: remove_cache_entry_def)
  ultimately show ?thesis by (intro exI [of _ Nothing] exI [of _ s']) (simp add: leak_spec_def)
next
  case Purge_call
  moreover obtain s' where "purge_cache K s = Some s'" "cache_sound {} s'" "leaks 0 s s'"
    using purge_sound [OF K S] by blast
  ultimately show ?thesis by (intro exI [of _ Nothing] exI [of _ s']) (simp add: leak_spec_def)
qed

interpretation sound_cache: answers_refine "answer_call K" "\<lambda>s. kernel_ok K \<and> cache_sound {} s" "\<lambda>s. s"
  "\<lambda>_. True" leak_spec for K
  by unfold_locales (use answer_call_sound in blast)

lemma run_leaks: "spec_run leak_spec cs s outs s' \<Longrightarrow> leaks (failures outs) s s'"
proof (induction rule: spec_run.induct)
  case (one_call c s out s' cs outs s'')
  then show ?case
    using leaks_trans [of "if failed out then 1 else 0" s s' "failures outs" s''] by (simp add: leak_spec_def failures_def split: if_splits)
qed simp

lemma run_sound:
  assumes "kernel_ok K" and "cache_sound {} s"
  shows "\<exists>outs s'. run_all (answer_call K) cs s = Some (outs, s') \<and> cache_sound {} s' \<and> leaks (failures outs) s s'"
  using sound_cache.run_refines [of K s cs] assms run_leaks by (auto simp: list_all_iff)

lemma exit_sound:
  assumes "kernel_ok K" and "cache_sound {} s"
  shows "\<exists>s'. exit_scan_cache K s = Some s' \<and> scan_objects s' = Map.empty \<and> scan_cache_rb_tree s' = \<langle>\<rangle> \<and>
     lru_cache_rb_tree s' = \<langle>\<rangle> \<and> dom (lru_objects s') \<subseteq> stray s \<and>
     \<not> ptr_scan_cache_slab s' \<and> \<not> ptr_lru_cache_slab s'"
proof -
  obtain s1 where s1: "remove_cache_entry K 2 s = Some s1" "cache_sound {} s1" "leaks 0 s s1"
    using evict_sound [OF assms, of 2 0] by (auto simp: remove_cache_entry_def)
  obtain s2 where s2: "purge_cache K s1 = Some s2" "cache_sound {} s2" "scan_cache_rb_tree s2 = \<langle>\<rangle>"
    "lru_cache_rb_tree s2 = \<langle>\<rangle>" "leaks 0 s1 s2"
    using purge_sound [OF assms(1) s1(2)] by blast
  have "dom (lru_objects s2) \<subseteq> stray s"
    using leaks_step [OF s1(3) s2(5)] s2(4) by (auto simp: leaks_def stray_def)
  moreover have "dom (scan_objects s2) = {}" using cache_soundD(4) [OF s2(2)] s2(3) by simp
  ultimately show ?thesis
    using s1(1) s2 cache_soundD(1) [OF s2(2)] by (simp add: exit_scan_cache_def quiescent_def)
qed

lemma init_sound:
  assumes "init_scan_cache K initial_cache_state = (0, s)"
  shows "cache_sound {} s" and "stray s = {}"
  using assms by (auto simp: init_scan_cache_def initial_cache_state_def cache_sound_def quiescent_def
      stray_def Let_def split: if_splits)

text \<open>
  C4: The whole life of the cache, for any mixture of devices, inode numbers and time stamps:
  after a successful initialisation every sequence of insertions, removals, evictions and
  purges runs without a fault and ends, and so does the shutdown after it. It frees every
  scan record and leaves at most one LRU object behind for each insertion that failed, and
  none when all of them succeeded.
\<close>

theorem cache_lifetime_safe:
  assumes "kernel_ok K" and "init_scan_cache K initial_cache_state = (0, s)"
  shows "\<exists>outs s1 s2. run_all (answer_call K) cs s = Some (outs, s1) \<and> exit_scan_cache K s1 = Some s2 \<and>
     scan_objects s2 = Map.empty \<and> scan_cache_rb_tree s2 = \<langle>\<rangle> \<and> lru_cache_rb_tree s2 = \<langle>\<rangle> \<and>
     finite (dom (lru_objects s2)) \<and> card (dom (lru_objects s2)) \<le> failures outs \<and>
     \<not> ptr_scan_cache_slab s2 \<and> \<not> ptr_lru_cache_slab s2"
proof -
  note I = init_sound [OF assms(2)]
  obtain outs s1 where s1: "run_all (answer_call K) cs s = Some (outs, s1)" "cache_sound {} s1" "leaks (failures outs) s s1"
    using run_sound [OF assms(1) I(1)] by blast
  obtain s2 where s2: "exit_scan_cache K s1 = Some s2" "scan_objects s2 = Map.empty" "scan_cache_rb_tree s2 = \<langle>\<rangle>"
    "lru_cache_rb_tree s2 = \<langle>\<rangle>" "dom (lru_objects s2) \<subseteq> stray s1" "\<not> ptr_scan_cache_slab s2" "\<not> ptr_lru_cache_slab s2"
    using exit_sound [OF assms(1) s1(2)] by blast
  obtain X where X: "finite X" "card X \<le> failures outs" "stray s1 \<subseteq> X"
    using s1(3) I(2) by (auto simp: leaks_def)
  have "dom (lru_objects s2) \<subseteq> X" using X(3) s2(5) by simp
  then have "finite (dom (lru_objects s2))" "card (dom (lru_objects s2)) \<le> failures outs"
    using finite_subset [OF _ X(1)] card_mono [OF X(1)] X(2) order_trans by blast+
  then show ?thesis using s1(1) s2 by blast
qed

theorem cache_lifetime_safe_witness:
  "\<exists>outs s1 s2. run_all (answer_call ref_kernel) [Insert_call test_file, Insert_call (test_file\<lparr>fi_dev_id := 7\<rparr>), Evict_call 1]
       ready_state = Some (outs, s1) \<and> exit_scan_cache ref_kernel s1 = Some s2 \<and> scan_objects s2 = Map.empty \<and>
     card (dom (lru_objects s2)) \<le> failures outs"
proof -
  have "init_scan_cache ref_kernel initial_cache_state = (0, ready_state)"
    by (simp add: ready_state_eq init_scan_cache_def ref_kernel_def Let_def initial_cache_state_def)
  from cache_lifetime_safe [OF ref_kernel_ok this] show ?thesis by blast
qed

end
