(* ===== verification/Owned_Threads.thy ===== *)
theory Owned_Threads
  imports Kernel_Prelude
begin

text \<open>
  Threads over a shared state, as functions from a position and the state to the next position and
  the state. The locale \<open>owned_threads\<close> is the contract of threads that own disjoint parts of the
  state: a step of a thread succeeds, keeps the common part in order, changes no view but that of
  the key the thread owns, and brings the thread closer to its end. Any number of such threads can
  then be interleaved in any way.
\<close>

section \<open>Interleaving\<close>

text \<open>The threads \<open>T\<close> in any order; a thread that has halted takes no more steps.\<close>

inductive scheduled ::
    "('pc \<Rightarrow> 's \<Rightarrow> ('pc \<times> 's) option) \<Rightarrow> ('pc \<Rightarrow> bool) \<Rightarrow> nat set \<Rightarrow>
     (nat \<Rightarrow> 'pc) \<times> 's \<Rightarrow> (nat \<Rightarrow> 'pc) \<times> 's \<Rightarrow> bool"
  for step halted T where
  thread: "i \<in> T \<Longrightarrow> \<not> halted (pcs i) \<Longrightarrow> step (pcs i) s = Some (pc, s') \<Longrightarrow>
     scheduled step halted T (pcs, s) (pcs(i := pc), s')"

inductive_cases scheduledE: "scheduled step halted T (pcs, s) (pcs', s')"

text \<open>
  Thread \<open>i\<close> works on the job \<open>jobs i\<close>, which owns the key \<open>key (jobs i)\<close>; \<open>rest\<close> is what holds of the
  views that no thread owns.
\<close>

definition owned_inv ::
    "('s \<Rightarrow> bool) \<Rightarrow> ('n \<Rightarrow> 's \<Rightarrow> 'v) \<Rightarrow> ('j \<Rightarrow> 'pc \<Rightarrow> 'v \<Rightarrow> bool) \<Rightarrow> ('j \<Rightarrow> 'n) \<Rightarrow>
     (nat \<Rightarrow> 'j) \<Rightarrow> nat set \<Rightarrow> ('n \<Rightarrow> 'v \<Rightarrow> bool) \<Rightarrow> (nat \<Rightarrow> 'pc) \<times> 's \<Rightarrow> bool" where
  "owned_inv common view ok key jobs T rest c \<longleftrightarrow> (case c of (pcs, s) \<Rightarrow>
     common s \<and> (\<forall>n. n \<notin> (\<lambda>i. key (jobs i)) ` T \<longrightarrow> rest n (view n s)) \<and>
     (\<forall>i\<in>T. ok (jobs i) (pcs i) (view (key (jobs i)) s)))"

lemma owned_invD:
  assumes "owned_inv common view ok key jobs T rest (pcs, s)"
  shows "common s" and "n \<notin> (\<lambda>i. key (jobs i)) ` T \<Longrightarrow> rest n (view n s)"
    and "i \<in> T \<Longrightarrow> ok (jobs i) (pcs i) (view (key (jobs i)) s)"
  using assms by (auto simp: owned_inv_def)

section \<open>Threads that own their keys\<close>

locale owned_threads =
  fixes step :: "'pc \<Rightarrow> 's \<Rightarrow> ('pc \<times> 's) option" and halted :: "'pc \<Rightarrow> bool"
    and common :: "'s \<Rightarrow> bool" and view :: "'n \<Rightarrow> 's \<Rightarrow> 'v"
    and legal :: "'j \<Rightarrow> bool" and key :: "'j \<Rightarrow> 'n" and ok :: "'j \<Rightarrow> 'pc \<Rightarrow> 'v \<Rightarrow> bool" and left :: "'pc \<Rightarrow> nat"
  assumes progress: "common s \<Longrightarrow> legal j \<Longrightarrow> ok j pc (view (key j) s) \<Longrightarrow>
      \<exists>pc' s'. step pc s = Some (pc', s') \<and> common s' \<and> ok j pc' (view (key j) s') \<and>
        (\<forall>n. n \<noteq> key j \<longrightarrow> view n s' = view n s)"
    and decreases: "ok j pc v \<Longrightarrow> \<not> halted pc \<Longrightarrow> step pc s = Some (pc', s') \<Longrightarrow> left pc' < left pc"
begin

lemma never_stuck:
  assumes "\<forall>i\<in>T. legal (jobs i)" and "owned_inv common view ok key jobs T rest (pcs, s)" and "i \<in> T"
  shows "step (pcs i) s \<noteq> None"
  using progress [OF owned_invD(1) [OF assms(2)] _ owned_invD(3) [OF assms(2,3)]] assms(1,3) by auto

lemma inv_step:
  assumes legal: "\<forall>i\<in>T. legal (jobs i)" and inj: "inj_on (\<lambda>i. key (jobs i)) T"
    and st: "scheduled step halted T c c'" and I: "owned_inv common view ok key jobs T rest c"
  shows "owned_inv common view ok key jobs T rest c'"
  using st
proof cases
  case (thread i pcs s pc s')
  let ?k = "\<lambda>i. key (jobs i)"
  note D = owned_invD [OF I [unfolded thread(1)]]
  have s': "common s'" "ok (jobs i) pc (view (?k i) s')" "\<And>n. n \<noteq> ?k i \<Longrightarrow> view n s' = view n s"
    using progress [OF D(1) _ D(3) [OF thread(3)]] legal thread(3,5) by auto
  have "ok (jobs j) ((pcs(i := pc)) j) (view (?k j) s')" if "j \<in> T" for j
  proof (cases "j = i")
    case False
    then have "?k j \<noteq> ?k i" using inj that thread(3) by (auto dest: inj_onD)
    then show ?thesis using D(3) [OF that] s'(3) False by simp
  qed (use s'(2) in simp)
  moreover have "rest n (view n s')" if "n \<notin> ?k ` T" for n
  proof -
    have "n \<noteq> ?k i" using that thread(3) by blast
    then show ?thesis using D(2) [OF that] s'(3) by simp
  qed
  ultimately show ?thesis using s'(1) thread(2) by (simp add: owned_inv_def)
qed

lemma inv_reachable:
  assumes "\<forall>i\<in>T. legal (jobs i)" and "inj_on (\<lambda>i. key (jobs i)) T"
    and "owned_inv common view ok key jobs T rest c" and "(scheduled step halted T ^^ k) c c'"
  shows "owned_inv common view ok key jobs T rest c'"
  using assms(4) by (induction k arbitrary: c') (auto intro: assms(3) inv_step [OF assms(1,2)])

text \<open>Every step uses up one of the steps that the threads have left.\<close>

lemma bounded:
  assumes "\<forall>i\<in>T. legal (jobs i)" and "inj_on (\<lambda>i. key (jobs i)) T"
    and "owned_inv common view ok key jobs T rest (pcs, s)" and "finite T"
    and "(scheduled step halted T ^^ k) (pcs, s) (pcs', s')"
  shows "k + (\<Sum>i\<in>T. left (pcs' i)) \<le> (\<Sum>i\<in>T. left (pcs i))"
  using assms(5)
proof (induction k arbitrary: pcs' s')
  case (Suc k)
  then obtain pcs1 s1 where c1: "(scheduled step halted T ^^ k) (pcs, s) (pcs1, s1)"
    "scheduled step halted T (pcs1, s1) (pcs', s')" by auto
  have I: "owned_inv common view ok key jobs T rest (pcs1, s1)" by (rule inv_reachable [OF assms(1-3) c1(1)])
  from c1(2) obtain i pc where i: "i \<in> T" "pcs' = pcs1(i := pc)" "\<not> halted (pcs1 i)" "step (pcs1 i) s1 = Some (pc, s')"
    by (auto elim: scheduledE)
  have "left pc < left (pcs1 i)" by (rule decreases [OF owned_invD(3) [OF I i(1)] i(3,4)])
  then have "(\<Sum>i\<in>T. left (pcs' i)) < (\<Sum>i\<in>T. left (pcs1 i))"
    using i(1,2) assms(4) by (intro sum_strict_mono_ex1) auto
  then show ?case using Suc.IH [OF c1(1)] by simp
qed simp

end

end
