(* ===== verification/Cache_Steps.thy ===== *)
theory Cache_Steps
  imports Cache_Properties Owned_Threads
begin

text \<open>
  The functions of the scan cache cut at their lock operations, for threads that are inside the
  cache at the same time. Each function takes a lock for one search or one change of a tree and
  releases it again, and reads records outside of the locks. A thread is a position in its
  function with the local variables that are alive there; a step is one section under a lock, one
  access to a shared record outside of the locks, or work on an object that no other thread knows
  yet. Running the steps of one thread alone is the function of \<open>Scan_Cache\<close>.
\<close>

section \<open>\<^verbatim>\<open>find_remove_scan_cache_record\<close>\<close>

datatype remove_pc =
    Call fileInfo
  | Found addr
  | Stamped addr timespec
  | Lru_found addr addr
  | Lru_unlinked addr addr
  | Lru_gone addr
  | Scan_unlinked addr
  | Return bool

definition unlink_lru :: "kernel_api \<Rightarrow> addr \<Rightarrow> cache_state \<Rightarrow> cache_state option" where
  "unlink_lru K q s = do {
     s \<leftarrow> spin_lock_lru s;
     t \<leftarrow> RB_REMOVE (rbtree K) (lru_cache_rb_tree s) q;
     Some (spin_unlock_lru (s\<lparr>lru_cache_rb_tree := t\<rparr>)) }"

definition unlink_scan :: "kernel_api \<Rightarrow> addr \<Rightarrow> cache_state \<Rightarrow> cache_state option" where
  "unlink_scan K p s = do {
     s \<leftarrow> spin_lock_scan s;
     t \<leftarrow> RB_REMOVE (rbtree K) (scan_cache_rb_tree s) p;
     Some (spin_unlock_scan (s\<lparr>scan_cache_rb_tree := t\<rparr>)) }"

fun remove_step :: "kernel_api \<Rightarrow> remove_pc \<Rightarrow> cache_state \<Rightarrow> (remove_pc \<times> cache_state) option" where
  "remove_step K (Call filp) s = do {
     (found, s) \<leftarrow> find_scan_cache_record
        (Some \<lparr>key_dev_id = fi_dev_id filp, key_inode_number = fi_inode_number filp,
               key_inode_generation = fi_inode_generation filp\<rparr>) s;
     case found of None \<Rightarrow> Some (Return False, s) | Some p \<Rightarrow> Some (Found p, s) }"
| "remove_step K (Found p) s = do { r \<leftarrow> scan_objects s p; Some (Stamped p (sc_time_stamp r), s) }"
| "remove_step K (Stamped p time_stamp) s = do {
     (found, s) \<leftarrow> find_lru_cache_record (Some \<lparr>lru_key_time_stamp = time_stamp\<rparr>) s;
     case found of None \<Rightarrow> Some (Lru_gone p, s) | Some q \<Rightarrow> Some (Lru_found p q, s) }"
| "remove_step K (Lru_found p q) s = do { s \<leftarrow> unlink_lru K q s; Some (Lru_unlinked p q, s) }"
| "remove_step K (Lru_unlinked p q) s = do { s \<leftarrow> kmem_cache_free_lru q s; Some (Lru_gone p, s) }"
| "remove_step K (Lru_gone p) s = do { s \<leftarrow> unlink_scan K p s; Some (Scan_unlinked p, s) }"
| "remove_step K (Scan_unlinked p) s = do { s \<leftarrow> kmem_cache_free_scan p s; Some (Return True, s) }"
| "remove_step K (Return b) s = Some (Return b, s)"

section \<open>\<^verbatim>\<open>insert_scan_cache_record\<close>\<close>

text \<open>Allocating a record and filling it in; no other thread has its address yet.\<close>

definition write_scan ::
    "kernel_api \<Rightarrow> fileInfo \<Rightarrow> cache_state \<Rightarrow> (addr option \<times> cache_state) option" where
  "write_scan K filp s = do {
     (scan_cache_record_ptr, s) \<leftarrow> scan_cache_alloc K s;
     case scan_cache_record_ptr of
       None \<Rightarrow> Some (None, s)
     | Some p \<Rightarrow> do {
         r \<leftarrow> scan_objects s p;
         let (now, s) = get_time_stamp K s;
         let r = r\<lparr>sc_dev_id := fi_dev_id filp, sc_inode_number := fi_inode_number filp,
                   sc_inode_generation := fi_inode_generation filp, sc_time_stamp := now\<rparr>;
         Some (Some p, s\<lparr>scan_objects := (scan_objects s)(p \<mapsto> r)\<rparr>) } }"

definition write_lru ::
    "kernel_api \<Rightarrow> scan_cache_record \<Rightarrow> cache_state \<Rightarrow> (addr option \<times> cache_state) option" where
  "write_lru K n s = do {
     (lru_cache_record_ptr, s) \<leftarrow> lru_cache_alloc K s;
     case lru_cache_record_ptr of
       None \<Rightarrow> Some (None, s)
     | Some q \<Rightarrow> do {
         r \<leftarrow> lru_objects s q;
         let r = r\<lparr>lru_time_stamp := sc_time_stamp n, lru_dev_id := sc_dev_id n,
                   lru_inode_number := sc_inode_number n, lru_inode_generation := sc_inode_generation n\<rparr>;
         Some (Some q, s\<lparr>lru_objects := (lru_objects s)(q \<mapsto> r)\<rparr>) } }"

text \<open>The sections under the locks.\<close>

definition link_scan :: "kernel_api \<Rightarrow> addr \<Rightarrow> cache_state \<Rightarrow> (int \<times> cache_state) option" where
  "link_scan K p s = do {
     r \<leftarrow> scan_objects s p;
     s \<leftarrow> spin_lock_scan s;
     (ret, t) \<leftarrow> RB_INSERT (rbtree K) (scan_cache_rb_tree s) p
        (\<lambda>this. do { q \<leftarrow> scan_objects s this;
                     Some (scan_cache_insert_compare_table (Some r) (Some q)) });
     Some (ret, spin_unlock_scan (s\<lparr>scan_cache_rb_tree := t\<rparr>)) }"

definition link_lru :: "kernel_api \<Rightarrow> addr \<Rightarrow> cache_state \<Rightarrow> (int \<times> cache_state) option" where
  "link_lru K q s = do {
     r \<leftarrow> lru_objects s q;
     s \<leftarrow> spin_lock_lru s;
     (ret, t) \<leftarrow> RB_INSERT (rbtree K) (lru_cache_rb_tree s) q
        (\<lambda>this. do { l \<leftarrow> lru_objects s this; Some (lru_cache_insert_compare_table r l) });
     Some (ret, spin_unlock_lru (s\<lparr>lru_cache_rb_tree := t\<rparr>)) }"

definition search_same :: "addr \<Rightarrow> cache_state \<Rightarrow> (addr option \<times> cache_state) option" where
  "search_same p s = do {
     s \<leftarrow> spin_lock_scan s;
     found \<leftarrow> RB_SEARCH (scan_cache_rb_tree s)
        (\<lambda>this. do { new \<leftarrow> scan_objects s p; q \<leftarrow> scan_objects s this;
                     Some (scan_cache_insert_compare_table (Some new) (Some q)) });
     Some (found, spin_unlock_scan s) }"

definition replace_scan :: "kernel_api \<Rightarrow> addr \<Rightarrow> addr \<Rightarrow> cache_state \<Rightarrow> cache_state option" where
  "replace_scan K old p s = do {
     s \<leftarrow> spin_lock_scan s;
     t \<leftarrow> RB_REPLACE (rbtree K) (scan_cache_rb_tree s) old p;
     Some (spin_unlock_scan (s\<lparr>scan_cache_rb_tree := t\<rparr>)) }"

text \<open>
  The positions with \<open>Upd\<close> are those inside \<^verbatim>\<open>find_and_update_scan_cache_record\<close>, with the new
  record and the record it replaces.
\<close>

datatype insert_pc =
    Ins_call fileInfo
  | Ins_written addr
  | Ins_linked addr
  | Ins_lru_written addr addr
  | Ins_undo addr int
  | Ins_undo_unlinked addr int
  | Upd_search addr
  | Upd_none addr
  | Upd_found addr addr
  | Upd_replaced addr addr
  | Upd_stamped addr addr timespec
  | Upd_lru_found addr addr addr
  | Upd_lru_unlinked addr addr addr
  | Upd_lru_freed addr addr
  | Upd_lru_written addr addr addr
  | Upd_undo addr addr int
  | Upd_undo_unlinked addr addr int
  | Upd_free addr int
  | Ins_return int

fun insert_step :: "kernel_api \<Rightarrow> insert_pc \<Rightarrow> cache_state \<Rightarrow> (insert_pc \<times> cache_state) option" where
  "insert_step K (Ins_call filp) s = do {
     (ptr, s) \<leftarrow> write_scan K filp s;
     case ptr of None \<Rightarrow> Some (Ins_return (- ENOMEM), s) | Some p \<Rightarrow> Some (Ins_written p, s) }"
| "insert_step K (Ins_written p) s = do {
     (ret, s) \<leftarrow> link_scan K p s;
     Some (if ret \<noteq> 0 then Upd_search p else Ins_linked p, s) }"
| "insert_step K (Ins_linked p) s = do {
     r \<leftarrow> scan_objects s p;
     (ptr, s) \<leftarrow> write_lru K r s;
     case ptr of None \<Rightarrow> Some (Ins_undo p (-1), s) | Some q \<Rightarrow> Some (Ins_lru_written p q, s) }"
| "insert_step K (Ins_lru_written p q) s = do {
     (ret, s) \<leftarrow> link_lru K q s;
     Some (if ret \<noteq> 0 then Ins_undo p ret else Ins_return ret, s) }"
| "insert_step K (Ins_undo p ret) s = do { s \<leftarrow> unlink_scan K p s; Some (Ins_undo_unlinked p ret, s) }"
| "insert_step K (Ins_undo_unlinked p ret) s = do { s \<leftarrow> kmem_cache_free_scan p s; Some (Ins_return ret, s) }"
| "insert_step K (Upd_search p) s = do {
     (found, s) \<leftarrow> search_same p s;
     case found of None \<Rightarrow> Some (Upd_none p, s) | Some old \<Rightarrow> Some (Upd_found p old, s) }"
| "insert_step K (Upd_none p) s = do { s \<leftarrow> kmem_cache_free_scan p s; Some (Ins_return (-1), s) }"
| "insert_step K (Upd_found p old) s = do { s \<leftarrow> replace_scan K old p s; Some (Upd_replaced p old, s) }"
| "insert_step K (Upd_replaced p old) s = do {
     r \<leftarrow> scan_objects s old; Some (Upd_stamped p old (sc_time_stamp r), s) }"
| "insert_step K (Upd_stamped p old time_stamp) s = do {
     (found, s) \<leftarrow> find_lru_cache_record (Some \<lparr>lru_key_time_stamp = time_stamp\<rparr>) s;
     case found of None \<Rightarrow> Some (Upd_undo p old (-1), s) | Some q \<Rightarrow> Some (Upd_lru_found p old q, s) }"
| "insert_step K (Upd_lru_found p old q) s = do { s \<leftarrow> unlink_lru K q s; Some (Upd_lru_unlinked p old q, s) }"
| "insert_step K (Upd_lru_unlinked p old q) s = do { s \<leftarrow> kmem_cache_free_lru q s; Some (Upd_lru_freed p old, s) }"
| "insert_step K (Upd_lru_freed p old) s = do {
     r \<leftarrow> scan_objects s p;
     (ptr, s) \<leftarrow> write_lru K r s;
     case ptr of None \<Rightarrow> Some (Upd_undo p old (-1), s) | Some q \<Rightarrow> Some (Upd_lru_written p old q, s) }"
| "insert_step K (Upd_lru_written p old q) s = do {
     (ret, s) \<leftarrow> link_lru K q s;
     Some (if ret \<noteq> 0 then Upd_undo p old ret else Upd_free old ret, s) }"
| "insert_step K (Upd_undo p old ret) s = do { s \<leftarrow> unlink_scan K p s; Some (Upd_undo_unlinked p old ret, s) }"
| "insert_step K (Upd_undo_unlinked p old ret) s = do { s \<leftarrow> kmem_cache_free_scan p s; Some (Upd_free old ret, s) }"
| "insert_step K (Upd_free old ret) s = do { s \<leftarrow> kmem_cache_free_scan old s; Some (Ins_return ret, s) }"
| "insert_step K (Ins_return ret) s = Some (Ins_return ret, s)"

section \<open>\<^verbatim>\<open>remove_cache_entry\<close>\<close>

text \<open>A position in the loop carries \<^verbatim>\<open>count\<close> and \<^verbatim>\<open>remove_count\<close>.\<close>

datatype evict_pc =
    Ev_call int
  | Ev_loop int int
  | Ev_nonempty int int
  | Ev_first int int addr
  | Ev_key int int addr scan_cache_record_compare
  | Ev_found int int addr addr
  | Ev_lru_unlinked int int addr addr
  | Ev_lru_freed int int addr
  | Ev_scan_unlinked int int addr
  | Ev_return

fun evict_step :: "kernel_api \<Rightarrow> evict_pc \<Rightarrow> cache_state \<Rightarrow> (evict_pc \<times> cache_state) option" where
  "evict_step K (Ev_call count) s = Some (if count \<le> 0 then Ev_return else Ev_loop count 0, s)"
| "evict_step K (Ev_loop count n) s =
     Some (if RB_EMPTY_ROOT (lru_cache_rb_tree s) then Ev_return else Ev_nonempty count n, s)"
| "evict_step K (Ev_nonempty count n) s =
     (case RB_FIRST (rbtree K) (lru_cache_rb_tree s) of
        None \<Rightarrow> Some (Ev_return, s) | Some p \<Rightarrow> Some (Ev_first count n p, s))"
| "evict_step K (Ev_first count n p) s = do {
     l \<leftarrow> lru_objects s p;
     Some (Ev_key count n p \<lparr>key_dev_id = lru_dev_id l, key_inode_number = lru_inode_number l,
                             key_inode_generation = lru_inode_generation l\<rparr>, s) }"
| "evict_step K (Ev_key count n p key) s = do {
     (found, s) \<leftarrow> find_scan_cache_record (Some key) s;
     case found of None \<Rightarrow> Some (Ev_return, s) | Some q \<Rightarrow> Some (Ev_found count n p q, s) }"
| "evict_step K (Ev_found count n p q) s = do {
     s \<leftarrow> unlink_lru K p s; Some (Ev_lru_unlinked count n p q, s) }"
| "evict_step K (Ev_lru_unlinked count n p q) s = do {
     s \<leftarrow> kmem_cache_free_lru p s; Some (Ev_lru_freed count n q, s) }"
| "evict_step K (Ev_lru_freed count n q) s = do {
     s \<leftarrow> unlink_scan K q s; Some (Ev_scan_unlinked count n q, s) }"
| "evict_step K (Ev_scan_unlinked count n q) s = do {
     s \<leftarrow> kmem_cache_free_scan q s;
     Some (if n + 1 \<ge> count then Ev_return else Ev_loop count (n + 1), s) }"
| "evict_step K Ev_return s = Some (Ev_return, s)"

section \<open>Threads\<close>

datatype cache_pc = Removing remove_pc | Inserting insert_pc | Evicting evict_pc

fun cache_step :: "kernel_api \<Rightarrow> cache_pc \<Rightarrow> cache_state \<Rightarrow> (cache_pc \<times> cache_state) option" where
  "cache_step K (Removing pc) s = do { (pc, s) \<leftarrow> remove_step K pc s; Some (Removing pc, s) }"
| "cache_step K (Inserting pc) s = do { (pc, s) \<leftarrow> insert_step K pc s; Some (Inserting pc, s) }"
| "cache_step K (Evicting pc) s = do { (pc, s) \<leftarrow> evict_step K pc s; Some (Evicting pc, s) }"

fun returned :: "cache_pc \<Rightarrow> bool" where
  "returned (Removing (Return b)) = True"
| "returned (Inserting (Ins_return ret)) = True"
| "returned (Evicting Ev_return) = True"
| "returned _ = False"

text \<open>One thread alone, from a position to its return.\<close>

partial_function (option) run_alone ::
    "kernel_api \<Rightarrow> cache_pc \<Rightarrow> cache_state \<Rightarrow> (cache_pc \<times> cache_state) option" where
  "run_alone K pc s =
     (if returned pc then Some (pc, s)
      else do { (pc, s) \<leftarrow> cache_step K pc s; run_alone K pc s })"

abbreviation interleave ::
    "kernel_api \<Rightarrow> nat set \<Rightarrow> (nat \<Rightarrow> cache_pc) \<times> cache_state \<Rightarrow> (nat \<Rightarrow> cache_pc) \<times> cache_state \<Rightarrow> bool" where
  "interleave K T \<equiv> scheduled (cache_step K) returned T"

section \<open>One thread alone\<close>

lemma run_alone_returned [simp]: "returned pc \<Longrightarrow> run_alone K pc s = Some (pc, s)"
  by (simp add: run_alone.simps)

lemma run_alone_step:
  assumes "\<not> returned pc"
  shows "run_alone K pc s = do { (pc, s) \<leftarrow> cache_step K pc s; run_alone K pc s }"
  by (subst run_alone.simps) (simp add: assms)

lemma returned_iff:
  "returned (Removing rpc) \<longleftrightarrow> (\<exists>b. rpc = Return b)"
  "returned (Inserting ipc) \<longleftrightarrow> (\<exists>ret. ipc = Ins_return ret)"
  "returned (Evicting epc) \<longleftrightarrow> epc = Ev_return"
    apply (cases rpc; simp)
   apply (cases ipc; simp)
  apply (cases epc; simp)
  done

lemma run_alone_kind:
  "\<forall>b. rpc \<noteq> Return b \<Longrightarrow>
     run_alone K (Removing rpc) s = do { (pc, s) \<leftarrow> remove_step K rpc s; run_alone K (Removing pc) s }"
  "\<forall>ret. ipc \<noteq> Ins_return ret \<Longrightarrow>
     run_alone K (Inserting ipc) s = do { (pc, s) \<leftarrow> insert_step K ipc s; run_alone K (Inserting pc) s }"
  "epc \<noteq> Ev_return \<Longrightarrow>
     run_alone K (Evicting epc) s = do { (pc, s) \<leftarrow> evict_step K epc s; run_alone K (Evicting pc) s }"
  by (simp_all add: run_alone_step returned_iff split_def)

lemma remove_lru_split:
  "remove_lru_cache_record K (Some q) s = do { s \<leftarrow> unlink_lru K q s; kmem_cache_free_lru q s }"
  by (simp add: remove_lru_cache_record_def unlink_lru_def Let_def)

lemma remove_scan_split:
  "remove_scan_cache_record K (Some p) s = do { s \<leftarrow> unlink_scan K p s; kmem_cache_free_scan p s }"
  by (simp add: remove_scan_cache_record_def unlink_scan_def Let_def)

subsection \<open>Removal\<close>

lemma run_alone_Lru_gone:
  "run_alone K (Removing (Lru_gone p)) s = do {
     s \<leftarrow> remove_scan_cache_record K (Some p) s; Some (Removing (Return True), s) }"
  by (simp add: run_alone_kind remove_scan_split)

lemma run_alone_Stamped:
  "run_alone K (Removing (Stamped p ts)) s = do {
     (_, s) \<leftarrow> find_remove_lru_cache_record K ts s;
     s \<leftarrow> remove_scan_cache_record K (Some p) s;
     Some (Removing (Return True), s) }"
  unfolding find_remove_lru_cache_record_def run_alone_kind(1) [of "Stamped p ts", simplified]
  by (cases "find_lru_cache_record (Some \<lparr>lru_key_time_stamp = ts\<rparr>) s")
    (auto simp: run_alone_Lru_gone remove_lru_split run_alone_kind(1) [of "Lru_found _ _"]
      run_alone_kind(1) [of "Lru_unlinked _ _"] split: option.split)

text \<open>
  The sequence of sections is the function: one thread that runs without interruption returns
  what the function returns, in the same state, and faults when it faults.
\<close>

lemma run_alone_remove:
  "run_alone K (Removing (Call filp)) s = do {
     (b, s) \<leftarrow> find_remove_scan_cache_record K filp s; Some (Removing (Return b), s) }"
  unfolding find_remove_scan_cache_record_def run_alone_kind(1) [of "Call filp", simplified]
  by (cases "find_scan_cache_record (Some \<lparr>key_dev_id = fi_dev_id filp,
        key_inode_number = fi_inode_number filp, key_inode_generation = fi_inode_generation filp\<rparr>) s")
    (auto simp: run_alone_Stamped run_alone_kind(1) [of "Found _"] split_def split: option.split)

subsection \<open>Insertion\<close>

lemma insert_lru_split:
  "insert_lru_cache_record K (sc_time_stamp n) (sc_dev_id n) (sc_inode_number n) (sc_inode_generation n) s = do {
     (ptr, s) \<leftarrow> write_lru K n s;
     case ptr of None \<Rightarrow> Some (-1, s) | Some q \<Rightarrow> link_lru K q s }"
  unfolding insert_lru_cache_record_def write_lru_def
  by (cases "lru_cache_alloc K s") (auto simp: link_lru_def lock_defs Let_def split: option.split)

lemma run_alone_undo:
  "run_alone K (Inserting (Ins_undo p ret)) s = do {
     s \<leftarrow> remove_scan_cache_record K (Some p) s; Some (Inserting (Ins_return ret), s) }"
  by (simp add: run_alone_kind remove_scan_split)

lemma run_alone_linked:
  "run_alone K (Inserting (Ins_linked p)) s = do {
     n \<leftarrow> scan_objects s p;
     (ret, s) \<leftarrow> insert_lru_cache_record K (sc_time_stamp n) (sc_dev_id n)
        (sc_inode_number n) (sc_inode_generation n) s;
     s \<leftarrow> (if ret \<noteq> 0 then remove_scan_cache_record K (Some p) s else Some s);
     Some (Inserting (Ins_return ret), s) }"
proof -
  have link: "run_alone K (Inserting (Ins_lru_written p q)) s1 = do {
      (ret, s) \<leftarrow> link_lru K q s1;
      s \<leftarrow> (if ret \<noteq> 0 then remove_scan_cache_record K (Some p) s else Some s);
      Some (Inserting (Ins_return ret), s) }" for q s1
    by (cases "link_lru K q s1")
      (auto simp: run_alone_kind(2) [of "Ins_lru_written _ _"] run_alone_undo)
  show ?thesis
    unfolding insert_lru_split run_alone_kind(2) [of "Ins_linked p", simplified]
    by (cases "scan_objects s p"; cases "write_lru K (the (scan_objects s p)) s")
      (auto simp: link run_alone_undo split_def split: option.split)
qed

lemma run_alone_upd_free:
  "run_alone K (Inserting (Upd_free old ret)) s = do {
     s \<leftarrow> kmem_cache_free_scan old s; Some (Inserting (Ins_return ret), s) }"
  by (simp add: run_alone_kind)

lemma run_alone_upd_undo:
  "run_alone K (Inserting (Upd_undo p old ret)) s = do {
     s \<leftarrow> remove_scan_cache_record K (Some p) s;
     s \<leftarrow> kmem_cache_free_scan old s; Some (Inserting (Ins_return ret), s) }"
  by (simp add: run_alone_kind remove_scan_split)

lemma run_alone_upd_freed:
  "run_alone K (Inserting (Upd_lru_freed p old)) s = do {
     n \<leftarrow> scan_objects s p;
     (ret, s) \<leftarrow> insert_lru_cache_record K (sc_time_stamp n) (sc_dev_id n)
        (sc_inode_number n) (sc_inode_generation n) s;
     s \<leftarrow> (if ret \<noteq> 0 then remove_scan_cache_record K (Some p) s else Some s);
     s \<leftarrow> kmem_cache_free_scan old s;
     Some (Inserting (Ins_return ret), s) }"
proof -
  have link: "run_alone K (Inserting (Upd_lru_written p old q)) s1 = do {
      (ret, s) \<leftarrow> link_lru K q s1;
      s \<leftarrow> (if ret \<noteq> 0 then remove_scan_cache_record K (Some p) s else Some s);
      s \<leftarrow> kmem_cache_free_scan old s;
      Some (Inserting (Ins_return ret), s) }" for q s1
    by (cases "link_lru K q s1")
      (auto simp: run_alone_kind(2) [of "Upd_lru_written _ _ _"] run_alone_upd_undo run_alone_upd_free)
  show ?thesis
    unfolding insert_lru_split run_alone_kind(2) [of "Upd_lru_freed p old", simplified]
    by (cases "scan_objects s p"; cases "write_lru K (the (scan_objects s p)) s")
      (auto simp: link run_alone_upd_undo split_def split: option.split)
qed

lemma run_alone_replaced:
  "run_alone K (Inserting (Upd_replaced p old)) s = do {
     (ret, s) \<leftarrow> find_and_update_lru_cache_record K old p s;
     s \<leftarrow> (if ret \<noteq> 0 then remove_scan_cache_record K (Some p) s else Some s);
     s \<leftarrow> kmem_cache_free_scan old s;
     Some (Inserting (Ins_return ret), s) }"
proof (cases "scan_objects s old")
  case None
  then show ?thesis
    by (simp add: run_alone_kind(2) [of "Upd_replaced p old"] find_and_update_lru_cache_record_def)
next
  case (Some r)
  show ?thesis
    unfolding find_and_update_lru_cache_record_def run_alone_kind(2) [of "Upd_replaced p old", simplified]
    by (cases "find_lru_cache_record (Some \<lparr>lru_key_time_stamp = sc_time_stamp r\<rparr>) s")
      (auto simp: Some run_alone_kind(2) [of "Upd_stamped _ _ _"] run_alone_kind(2) [of "Upd_lru_found _ _ _"]
        run_alone_kind(2) [of "Upd_lru_unlinked _ _ _"] run_alone_upd_freed run_alone_upd_undo
        remove_lru_split find_lru_cache_record_def Let_def split: option.splits Option.bind_splits)
qed

lemma run_alone_search:
  "run_alone K (Inserting (Upd_search p)) s = do {
     (ret, s) \<leftarrow> find_and_update_scan_cache_record K (Some p) s; Some (Inserting (Ins_return ret), s) }"
proof -
  have found: "run_alone K (Inserting (Upd_found p old)) s1 = do {
      s \<leftarrow> replace_scan K old p s1;
      (ret, s) \<leftarrow> find_and_update_lru_cache_record K old p s;
      s \<leftarrow> (if ret \<noteq> 0 then remove_scan_cache_record K (Some p) s else Some s);
      s \<leftarrow> kmem_cache_free_scan old s;
      Some (Inserting (Ins_return ret), s) }" for old s1
    by (simp add: run_alone_kind(2) [of "Upd_found p old"] run_alone_replaced)
  have none: "run_alone K (Inserting (Upd_none p)) s1 = do {
      s \<leftarrow> kmem_cache_free_scan p s1; Some (Inserting (Ins_return (-1)), s) }" for s1
    by (simp add: run_alone_kind)
  have call: "find_and_update_scan_cache_record K (Some p) s = do {
      (found, s) \<leftarrow> search_same p s;
      case found of
        Some old \<Rightarrow> do {
          s \<leftarrow> replace_scan K old p s;
          (ret, s) \<leftarrow> find_and_update_lru_cache_record K old p s;
          s \<leftarrow> (if ret \<noteq> 0 then remove_scan_cache_record K (Some p) s else Some s);
          s \<leftarrow> kmem_cache_free_scan old s;
          Some (ret, s) }
      | None \<Rightarrow> do { s \<leftarrow> kmem_cache_free_scan p s; Some (-1, s) } }"
    by (simp add: find_and_update_scan_cache_record_def search_same_def replace_scan_def Let_def cong: option.case_cong)
  show ?thesis
    unfolding call run_alone_kind(2) [of "Upd_search p", simplified]
    by (cases "search_same p s") (auto simp: found none split_def split: option.split)
qed

lemma insert_scan_split:
  "insert_scan_cache_record K filp s = do {
     (ptr, s) \<leftarrow> write_scan K filp s;
     case ptr of
       None \<Rightarrow> Some (- ENOMEM, s)
     | Some p \<Rightarrow> do {
         (ret, s) \<leftarrow> link_scan K p s;
         if ret \<noteq> 0 then find_and_update_scan_cache_record K (Some p) s
         else do {
           q \<leftarrow> scan_objects s p;
           (ret, s) \<leftarrow> insert_lru_cache_record K (sc_time_stamp q) (sc_dev_id q)
              (sc_inode_number q) (sc_inode_generation q) s;
           s \<leftarrow> (if ret \<noteq> 0 then remove_scan_cache_record K (Some p) s else Some s);
           Some (ret, s) } } }"
  unfolding insert_scan_cache_record_def write_scan_def
  by (cases "scan_cache_alloc K s")
    (auto simp: link_scan_def get_time_stamp_def lock_defs Let_def split_def cong: if_cong split: option.split)

lemma run_alone_insert:
  "run_alone K (Inserting (Ins_call filp)) s = do {
     (ret, s) \<leftarrow> insert_scan_cache_record K filp s; Some (Inserting (Ins_return ret), s) }"
proof -
  have written: "run_alone K (Inserting (Ins_written p)) s1 = do {
      (ret, s) \<leftarrow> link_scan K p s1;
      run_alone K (Inserting (if ret \<noteq> 0 then Upd_search p else Ins_linked p)) s }" for p s1
    by (simp add: run_alone_kind(2) [of "Ins_written p"] split_def)
  show ?thesis
    unfolding insert_scan_split run_alone_kind(2) [of "Ins_call filp", simplified]
    by (cases "write_scan K filp s")
      (auto simp: written run_alone_search run_alone_linked split_def if_distrib cong: if_cong split: option.split
        intro!: Option.bind_cong)
qed

subsection \<open>Eviction\<close>

text \<open>What is left of the function at each position.\<close>

fun evict_rank :: "evict_pc \<Rightarrow> nat" where
  "evict_rank (Ev_nonempty count n) = 6"
| "evict_rank (Ev_first count n p) = 5"
| "evict_rank (Ev_key count n p key) = 4"
| "evict_rank (Ev_found count n p q) = 3"
| "evict_rank (Ev_lru_unlinked count n p q) = 2"
| "evict_rank (Ev_lru_freed count n q) = 1"
| "evict_rank _ = 0"

function evict_rest :: "kernel_api \<Rightarrow> evict_pc \<Rightarrow> cache_state \<Rightarrow> cache_state option" where
  "evict_rest K (Ev_call count) s = remove_cache_entry K count s"
| "evict_rest K (Ev_loop count n) s = remove_cache_entry_loop K count n s"
| "evict_rest K (Ev_nonempty count n) s =
     (case RB_FIRST (rbtree K) (lru_cache_rb_tree s) of
        None \<Rightarrow> Some s | Some p \<Rightarrow> evict_rest K (Ev_first count n p) s)"
| "evict_rest K (Ev_first count n p) s = do {
     l \<leftarrow> lru_objects s p;
     evict_rest K (Ev_key count n p \<lparr>key_dev_id = lru_dev_id l, key_inode_number = lru_inode_number l,
       key_inode_generation = lru_inode_generation l\<rparr>) s }"
| "evict_rest K (Ev_key count n p key) s = do {
     (found, s) \<leftarrow> find_scan_cache_record (Some key) s;
     case found of None \<Rightarrow> Some s | Some q \<Rightarrow> evict_rest K (Ev_found count n p q) s }"
| "evict_rest K (Ev_found count n p q) s = do { s \<leftarrow> unlink_lru K p s; evict_rest K (Ev_lru_unlinked count n p q) s }"
| "evict_rest K (Ev_lru_unlinked count n p q) s = do { s \<leftarrow> kmem_cache_free_lru p s; evict_rest K (Ev_lru_freed count n q) s }"
| "evict_rest K (Ev_lru_freed count n q) s = do { s \<leftarrow> unlink_scan K q s; evict_rest K (Ev_scan_unlinked count n q) s }"
| "evict_rest K (Ev_scan_unlinked count n q) s = do {
     s \<leftarrow> kmem_cache_free_scan q s;
     if n + 1 \<ge> count then Some s else remove_cache_entry_loop K count (n + 1) s }"
| "evict_rest K Ev_return s = Some s"
  by pat_completeness auto
termination by (relation "measure (\<lambda>(_, pc, _). evict_rank pc)") simp_all

lemma evict_rest_loop:
  "remove_cache_entry_loop K count n s =
     (if RB_EMPTY_ROOT (lru_cache_rb_tree s) then Some s else evict_rest K (Ev_nonempty count n) s)"
  by (subst remove_cache_entry_loop.simps)
    (simp add: remove_lru_split remove_scan_split evict_rest.simps(7-9) [abs_def] cong: option.case_cong)

lemma evict_rest_step:
  "epc \<noteq> Ev_return \<Longrightarrow> evict_rest K epc s = do { (pc, s) \<leftarrow> evict_step K epc s; evict_rest K pc s }"
proof (cases epc)
  case (Ev_key count n p key)
  then show ?thesis
    by (cases "find_scan_cache_record (Some key) s") (auto split: option.split)
qed (auto simp: remove_cache_entry_def evict_rest_loop [of K _ _ s] split: option.split Option.bind_split)

lemma run_alone_evict_rest:
  assumes "run_alone K pc s = Some y" and "pc = Evicting epc"
  shows "fst y = Evicting Ev_return \<and> evict_rest K epc s = Some (snd y)"
  using assms(2)
proof (induction arbitrary: epc rule: run_alone.raw_induct [OF _ assms(1)])
  case (1 run K pc s y)
  show ?case
  proof (cases "epc = Ev_return")
    case True
    then show ?thesis using 1(2,3) by auto
  next
    case False
    then have "do { (pc, s) \<leftarrow> evict_step K epc s; run K (Evicting pc) s } = Some y"
      using 1(2,3) by (simp add: returned_iff split_def)
    then obtain pc1 s1 where st: "evict_step K epc s = Some (pc1, s1)" "run K (Evicting pc1) s1 = Some y"
      by (auto simp: bind_eq_Some_conv)
    show ?thesis using 1(1) [OF st(2) refl] st(1) evict_rest_step [OF False, of K s] by simp
  qed
qed

lemma run_alone_loop:
  assumes "remove_cache_entry_loop K count n s = Some s'"
  shows "run_alone K (Evicting (Ev_loop count n)) s = Some (Evicting Ev_return, s')"
proof (induction rule: remove_cache_entry_loop.raw_induct [OF _ assms])
  case (1 loop K count n s s')
  note alone = run_alone_kind(3) [of "Ev_loop _ _"] run_alone_kind(3) [of "Ev_nonempty _ _"]
    run_alone_kind(3) [of "Ev_first _ _ _"] run_alone_kind(3) [of "Ev_key _ _ _ _"]
  show ?case
  proof (cases "RB_EMPTY_ROOT (lru_cache_rb_tree s) \<or> RB_FIRST (rbtree K) (lru_cache_rb_tree s) = None")
    case True
    then show ?thesis using 1(2) by (auto simp: alone split: if_splits)
  next
    case False
    then obtain p l where p: "\<not> RB_EMPTY_ROOT (lru_cache_rb_tree s)" "RB_FIRST (rbtree K) (lru_cache_rb_tree s) = Some p"
      "lru_objects s p = Some l"
      using 1(2) by (cases "lru_objects s (the (RB_FIRST (rbtree K) (lru_cache_rb_tree s)))") auto
    let ?key = "\<lparr>key_dev_id = lru_dev_id l, key_inode_number = lru_inode_number l,
      key_inode_generation = lru_inode_generation l\<rparr>"
    obtain found s1 where f: "find_scan_cache_record (Some ?key) s = Some (found, s1)"
      using 1(2) p by (cases "find_scan_cache_record (Some ?key) s") auto
    show ?thesis
    proof (cases found)
      case None
      then show ?thesis using 1(2) p f by (simp add: alone)
    next
      case (Some q)
      then obtain s2 s3 s4 s5 where st: "unlink_lru K p s1 = Some s2" "kmem_cache_free_lru p s2 = Some s3"
        "unlink_scan K q s3 = Some s4" "kmem_cache_free_scan q s4 = Some s5"
        "(if n + 1 \<ge> count then Some s5 else loop K count (n + 1) s5) = Some s'"
        using 1(2) p f by (auto simp: remove_lru_split remove_scan_split bind_eq_Some_conv)
      have "run_alone K (Evicting (Ev_found count n p q)) s1 =
          run_alone K (Evicting (if n + 1 \<ge> count then Ev_return else Ev_loop count (n + 1))) s5"
        using st(1-4) by (simp add: run_alone_kind(3) [of "Ev_found _ _ _ _"] run_alone_kind(3) [of "Ev_lru_unlinked _ _ _ _"]
            run_alone_kind(3) [of "Ev_lru_freed _ _ _"] run_alone_kind(3) [of "Ev_scan_unlinked _ _ _"])
      also have "\<dots> = Some (Evicting Ev_return, s')"
        using st(5) 1(1) by (simp split: if_splits)
      finally show ?thesis using p f Some by (simp add: alone)
    qed
  qed
qed

lemma run_alone_evict:
  "run_alone K (Evicting (Ev_call count)) s = do {
     s \<leftarrow> remove_cache_entry K count s; Some (Evicting Ev_return, s) }"
proof (cases "remove_cache_entry K count s")
  case None
  then have "run_alone K (Evicting (Ev_call count)) s \<noteq> Some y" for y
    using run_alone_evict_rest [of K "Evicting (Ev_call count)" s y "Ev_call count"] by auto
  then show ?thesis using None by (cases "run_alone K (Evicting (Ev_call count)) s") auto
next
  case (Some s')
  then show ?thesis
    by (auto simp: remove_cache_entry_def run_alone_kind(3) [of "Ev_call count"] run_alone_loop split: if_splits)
qed

text \<open>
  Cutting the functions at their lock operations changes nothing for a thread that runs alone:
  the steps of a removal, an insertion and an eviction, run one after the other, return what
  \<open>find_remove_scan_cache_record\<close>, \<open>insert_scan_cache_record\<close> and \<open>remove_cache_entry\<close> return, in the same
  state, and fault or run forever exactly when these do.
\<close>

theorem steps_run_the_functions:
  "run_alone K (Removing (Call filp)) s = do {
     (b, s) \<leftarrow> find_remove_scan_cache_record K filp s; Some (Removing (Return b), s) } \<and>
   run_alone K (Inserting (Ins_call filp)) s = do {
     (ret, s) \<leftarrow> insert_scan_cache_record K filp s; Some (Inserting (Ins_return ret), s) } \<and>
   run_alone K (Evicting (Ev_call count)) s = do {
     s \<leftarrow> remove_cache_entry K count s; Some (Evicting Ev_return, s) }"
  by (simp add: run_alone_remove run_alone_insert run_alone_evict)

section \<open>One thread among others\<close>

lemma interleave_alone:
  assumes i: "i \<in> T" and "run_alone K pc s = Some y" and "pcs i = pc"
  shows "(interleave K T)\<^sup>*\<^sup>* (pcs, s) (pcs(i := fst y), snd y)"
  using assms(3)
proof (induction arbitrary: pcs rule: run_alone.raw_induct [OF _ assms(2)])
  case (1 run K pc s y)
  show ?case
  proof (cases "returned pc")
    case True
    then have "y = (pcs i, s)" using 1(2,3) by simp
    then have "(pcs(i := fst y), snd y) = (pcs, s)" by simp
    then show ?thesis by simp
  next
    case False
    then obtain pc1 s1 where st: "cache_step K pc s = Some (pc1, s1)" "run K pc1 s1 = Some y"
      using 1(2) by (auto simp: bind_eq_Some_conv)
    have "interleave K T (pcs, s) (pcs(i := pc1), s1)"
      using thread [OF i, of returned pcs "cache_step K" s pc1 s1] False 1(3) st(1) by simp
    moreover have "(interleave K T)\<^sup>*\<^sup>* (pcs(i := pc1), s1) (pcs(i := fst y), snd y)"
      using 1(1) [OF st(2), of "pcs(i := pc1)"] by (simp add: fun_upd_def cong: if_cong)
    ultimately show ?thesis by (rule converse_rtranclp_into_rtranclp)
  qed
qed

end
