(* ===== verification/Cache_Views.thy ===== *)
theory Cache_Views
  imports Cache_Steps
begin

text \<open>
  What a thread inside the cache knows and changes. The view of an inode is the set of its
  records, in the slabs and in the trees; every section of a function is described by its effect on
  that view, and every position of an inserting or removing thread by an assertion on it. Each step
  establishes the assertion of the next position and leaves the views of the other inodes alone.
\<close>

section \<open>The view of one inode\<close>

text \<open>The live objects of an inode, each with whether it is linked into its tree.\<close>

definition own :: "'r heap \<Rightarrow> addr tree \<Rightarrow> ('r \<Rightarrow> u64) \<Rightarrow> u64 \<Rightarrow> (addr \<times> 'r \<times> bool) set" where
  "own m t inode n = {(p, r, b). m p = Some r \<and> inode r = n \<and> b = (p \<in> set (inorder t))}"

lemma own_iff: "(p, r, b) \<in> own m t inode n \<longleftrightarrow> m p = Some r \<and> inode r = n \<and> b = (p \<in> set (inorder t))"
  by (simp add: own_def)

lemma own_eqI:
  assumes "\<And>p r b. (p, r, b) \<in> A \<longleftrightarrow> (p, r, b) \<in> B"
  shows "A = B"
  using assms by (auto intro: prod_cases3)

lemma own_unlink:
  assumes "m q = Some l" and "q \<in> set (inorder t)" and "set (inorder t') = set (inorder t) - {q}"
  shows "own m t' inode n =
    (if inode l = n then insert (q, l, False) (own m t inode n - {(q, l, True)}) else own m t inode n)"
proof (rule own_eqI)
  fix p r b
  show "(p, r, b) \<in> own m t' inode n \<longleftrightarrow>
    (p, r, b) \<in> (if inode l = n then insert (q, l, False) (own m t inode n - {(q, l, True)}) else own m t inode n)"
    using assms by (cases "p = q") (auto simp: own_iff)
qed

lemma own_link:
  assumes "m q = Some l" and "q \<notin> set (inorder t)" and "set (inorder t') = insert q (set (inorder t))"
  shows "own m t' inode n =
    (if inode l = n then insert (q, l, True) (own m t inode n - {(q, l, False)}) else own m t inode n)"
proof (rule own_eqI)
  fix p r b
  show "(p, r, b) \<in> own m t' inode n \<longleftrightarrow>
    (p, r, b) \<in> (if inode l = n then insert (q, l, True) (own m t inode n - {(q, l, False)}) else own m t inode n)"
    using assms by (cases "p = q") (auto simp: own_iff)
qed

lemma own_free:
  assumes "m q = Some l" and "q \<notin> set (inorder t)"
  shows "own (m(q := None)) t inode n = (if inode l = n then own m t inode n - {(q, l, False)} else own m t inode n)"
proof (rule own_eqI)
  fix p r b
  show "(p, r, b) \<in> own (m(q := None)) t inode n \<longleftrightarrow>
    (p, r, b) \<in> (if inode l = n then own m t inode n - {(q, l, False)} else own m t inode n)"
    using assms by (cases "p = q") (auto simp: own_iff)
qed

lemma own_alloc:
  assumes "m q = None" and "q \<notin> set (inorder t)"
  shows "own (m(q \<mapsto> l)) t inode n = (if inode l = n then insert (q, l, False) (own m t inode n) else own m t inode n)"
proof (rule own_eqI)
  fix p r b
  show "(p, r, b) \<in> own (m(q \<mapsto> l)) t inode n \<longleftrightarrow>
    (p, r, b) \<in> (if inode l = n then insert (q, l, False) (own m t inode n) else own m t inode n)"
    using assms by (cases "p = q") (auto simp: own_iff)
qed

abbreviation scan_own :: "u64 \<Rightarrow> cache_state \<Rightarrow> (addr \<times> scan_cache_record \<times> bool) set" where
  "scan_own n s \<equiv> own (scan_objects s) (scan_cache_rb_tree s) sc_inode_number n"

abbreviation lru_own :: "u64 \<Rightarrow> cache_state \<Rightarrow> (addr \<times> lru_cache_record \<times> bool) set" where
  "lru_own n s \<equiv> own (lru_objects s) (lru_cache_rb_tree s) lru_inode_number n"

type_synonym inode_view = "(addr \<times> scan_cache_record \<times> bool) set \<times> (addr \<times> lru_cache_record \<times> bool) set"

definition view :: "u64 \<Rightarrow> cache_state \<Rightarrow> inode_view" where
  "view n s = (scan_own n s, lru_own n s)"

definition shared :: "u32 \<Rightarrow> cache_state \<Rightarrow> bool" where
  "shared d s \<longleftrightarrow> quiescent s \<and> scan_table d s \<and> lru_table s"

text \<open>\<open>effect d n s s' v\<close>: the trees are still in order, the view of \<open>n\<close> is now \<open>v\<close>, and the other views
  are as before.\<close>

definition effect :: "u32 \<Rightarrow> u64 \<Rightarrow> cache_state \<Rightarrow> cache_state \<Rightarrow> inode_view \<Rightarrow> bool" where
  "effect d n s s' v \<longleftrightarrow> shared d s' \<and> view n s' = v \<and> (\<forall>m. m \<noteq> n \<longrightarrow> view m s' = view m s)"

definition linked :: "(addr \<times> lru_cache_record \<times> bool) set \<Rightarrow> (addr \<times> lru_cache_record) set" where
  "linked L = {(q, l). (q, l, True) \<in> L}"

lemma linked_simps [simp]:
  "linked (insert (q, l, True) L) = insert (q, l) (linked L)"
  "linked (insert (q, l, False) L) = linked L"
  "linked (L - {(q, l, True)}) = linked L - {(q, l)}"
  "linked (L - {(q, l, False)}) = linked L"
  by (auto simp: linked_def)

lemma linked_iff: "(q, l) \<in> linked L \<longleftrightarrow> (q, l, True) \<in> L"
  by (simp add: linked_def)

lemma scan_object: "(p, r, b) \<in> scan_own n s \<Longrightarrow> scan_objects s p = Some r"
  by (simp add: own_iff)

lemma effect_refl: "shared d s \<Longrightarrow> view n s = v \<Longrightarrow> effect d n s s v"
  by (simp add: effect_def)

lemma sharedD: "shared d s \<Longrightarrow> quiescent s" "shared d s \<Longrightarrow> scan_table d s" "shared d s \<Longrightarrow> lru_table s"
  by (simp_all add: shared_def)

text \<open>A step on one node, as an effect.\<close>

lemma scan_effectI:
  assumes "shared d s'" and "lru_objects s' = lru_objects s" and "lru_cache_rb_tree s' = lru_cache_rb_tree s"
    and "\<And>m. m \<noteq> n \<Longrightarrow> scan_own m s' = scan_own m s" and "scan_own n s' = S"
  shows "effect d n s s' (S, lru_own n s)"
  using assms by (simp add: effect_def view_def)

lemma lru_effectI:
  assumes "shared d s'" and "scan_objects s' = scan_objects s" and "scan_cache_rb_tree s' = scan_cache_rb_tree s"
    and "\<And>m. m \<noteq> n \<Longrightarrow> lru_own m s' = lru_own m s" and "lru_own n s' = L"
  shows "effect d n s s' (scan_own n s, L)"
  using assms by (simp add: effect_def view_def)

section \<open>Unlinking and freeing\<close>

lemma unlink_lru_effect:
  assumes K: "kernel_ok K" and C: "shared d s" and q: "(q, l, True) \<in> lru_own n s"
  shows "\<exists>s'. unlink_lru K q s = Some s' \<and>
     effect d n s s' (scan_own n s, insert (q, l, False) (lru_own n s - {(q, l, True)}))"
proof -
  let ?t = "rb_erase (rbtree K) q (lru_cache_rb_tree s)"
  let ?s = "s\<lparr>lru_cache_rb_tree := ?t\<rparr>"
  have q': "q \<in> set (inorder (lru_cache_rb_tree s))" "lru_objects s q = Some l" "lru_inode_number l = n"
    using q by (simp_all add: own_iff)
  note E = erase_table [OF kernel_ok_rb [OF K] sharedD(3) [OF C, unfolded lru_table_def] q'(1)]
  have "effect d n s ?s (scan_own n s, insert (q, l, False) (lru_own n s - {(q, l, True)}))"
  proof (rule lru_effectI)
    show "shared d ?s" using C E(2,3) by (simp add: shared_def quiescent_def scan_table_def lru_table_def)
  qed (use q' own_unlink [of "lru_objects s", OF q'(2,1) E(2)] in simp_all)
  moreover have "unlink_lru K q s = Some ?s"
    using C q'(1) by (simp add: unlink_lru_def lock_defs shared_def quiescent_def RB_REMOVE_def)
  ultimately show ?thesis by blast
qed

lemma unlink_scan_effect:
  assumes K: "kernel_ok K" and C: "shared d s" and p: "(p, r, True) \<in> scan_own n s"
  shows "\<exists>s'. unlink_scan K p s = Some s' \<and>
     effect d n s s' (insert (p, r, False) (scan_own n s - {(p, r, True)}), lru_own n s)"
proof -
  let ?t = "rb_erase (rbtree K) p (scan_cache_rb_tree s)"
  let ?s = "s\<lparr>scan_cache_rb_tree := ?t\<rparr>"
  have p': "p \<in> set (inorder (scan_cache_rb_tree s))" "scan_objects s p = Some r" "sc_inode_number r = n"
    using p by (simp_all add: own_iff)
  note E = erase_table [OF kernel_ok_rb [OF K] sharedD(2) [OF C, unfolded scan_table_def] p'(1)]
  have "effect d n s ?s (insert (p, r, False) (scan_own n s - {(p, r, True)}), lru_own n s)"
  proof (rule scan_effectI)
    show "shared d ?s" using C E(2,3) by (simp add: shared_def quiescent_def scan_table_def lru_table_def)
  qed (use p' own_unlink [of "scan_objects s", OF p'(2,1) E(2)] in simp_all)
  moreover have "unlink_scan K p s = Some ?s"
    using C p'(1) by (simp add: unlink_scan_def lock_defs shared_def quiescent_def RB_REMOVE_def)
  ultimately show ?thesis by blast
qed

lemma free_lru_effect:
  assumes C: "shared d s" and q: "(q, l, False) \<in> lru_own n s"
  shows "\<exists>s'. kmem_cache_free_lru q s = Some s' \<and> effect d n s s' (scan_own n s, lru_own n s - {(q, l, False)})"
proof -
  let ?s = "s\<lparr>lru_objects := (lru_objects s)(q := None)\<rparr>"
  have q': "q \<notin> set (inorder (lru_cache_rb_tree s))" "lru_objects s q = Some l" "lru_inode_number l = n"
    using q by (simp_all add: own_iff)
  have "effect d n s ?s (scan_own n s, lru_own n s - {(q, l, False)})"
  proof (rule lru_effectI)
    show "shared d ?s" using C q'(1) by (simp add: shared_def quiescent_def scan_table_def lru_table_def)
  qed (use q' own_free [of "lru_objects s", OF q'(2,1)] in simp_all)
  then show ?thesis using q'(2) by (simp add: kmem_cache_free_lru_def heap_simps)
qed

lemma free_scan_effect:
  assumes C: "shared d s" and p: "(p, r, False) \<in> scan_own n s"
  shows "\<exists>s'. kmem_cache_free_scan p s = Some s' \<and> effect d n s s' (scan_own n s - {(p, r, False)}, lru_own n s)"
proof -
  let ?s = "s\<lparr>scan_objects := (scan_objects s)(p := None)\<rparr>"
  have p': "p \<notin> set (inorder (scan_cache_rb_tree s))" "scan_objects s p = Some r" "sc_inode_number r = n"
    using p by (simp_all add: own_iff)
  have "effect d n s ?s (scan_own n s - {(p, r, False)}, lru_own n s)"
  proof (rule scan_effectI)
    show "shared d ?s" using C p'(1) by (simp add: shared_def quiescent_def scan_table_def lru_table_def)
  qed (use p' own_free [of "scan_objects s", OF p'(2,1)] in simp_all)
  then show ?thesis using p'(2) by (simp add: kmem_cache_free_scan_def heap_simps)
qed

section \<open>New records\<close>

definition new_ok :: "u32 \<Rightarrow> fileInfo \<Rightarrow> scan_cache_record \<Rightarrow> bool" where
  "new_ok d f r \<longleftrightarrow> sc_inode_number r = fi_inode_number f \<and> sc_inode_generation r = fi_inode_generation f \<and>
     scan_record_ok d r \<and> timespec_ok (sc_time_stamp r)"

lemma write_scan_effect:
  assumes K: "kernel_ok K" and C: "shared d s" and f: "fi_dev_id f = d" "uint (fi_inode_number f) < 2 ^ 63"
  shows "\<exists>s'. write_scan K f s = Some (None, s') \<and>
       effect d (fi_inode_number f) s s' (view (fi_inode_number f) s) \<or>
     (\<exists>p r. write_scan K f s = Some (Some p, s') \<and> new_ok d f r \<and> scan_objects s p = None \<and>
       effect d (fi_inode_number f) s s' (insert (p, r, False) (scan_own (fi_inode_number f) s), lru_own (fi_inode_number f) s))"
proof (cases "kmem_cache_alloc K Scan_slab (ticks s) (\<lambda>a. scan_objects s a \<noteq> None)")
  case None
  have "effect d n s (s\<lparr>ticks := Suc (ticks s)\<rparr>) (view n s)" for n
    using C by (simp add: effect_def view_def shared_def quiescent_def scan_table_def lru_table_def)
  then show ?thesis
    using None C by (simp add: write_scan_def scan_cache_alloc_def shared_def quiescent_def)
next
  case (Some p)
  then have p: "scan_objects s p = None" using kernel_ok_alloc [OF K] by blast
  then have pn: "p \<notin> set (inorder (scan_cache_rb_tree s))" using scan_live [OF sharedD(2) [OF C]] by fastforce
  let ?r = "new_record K f s" and ?s = "written K f p s"
  have "write_scan K f s = Some (Some p, ?s)"
    using Some C by (simp add: write_scan_def scan_cache_alloc_def shared_def quiescent_def get_time_stamp_def
        written_def new_record_def)
  moreover have "new_ok d f ?r" using K f by (simp add: new_ok_def scan_record_ok_def)
  moreover have "effect d (fi_inode_number f) s ?s
      (insert (p, ?r, False) (scan_own (fi_inode_number f) s), lru_own (fi_inode_number f) s)"
  proof (rule scan_effectI)
    show "shared d ?s"
      using C pn by (simp add: shared_def quiescent_def scan_table_def lru_table_def written_def)
  qed (simp_all add: written_def own_alloc [of "scan_objects s", OF p pn])
  ultimately show ?thesis using p by blast
qed

lemma write_lru_effect:
  assumes K: "kernel_ok K" and C: "shared d s" and r: "sc_inode_number r = n"
  shows "\<exists>s'. write_lru K r s = Some (None, s') \<and> effect d n s s' (view n s) \<or>
     (\<exists>q. write_lru K r s = Some (Some q, s') \<and>
       effect d n s s' (scan_own n s, insert (q, lru_of r, False) (lru_own n s)))"
proof (cases "kmem_cache_alloc K Lru_slab (ticks s) (\<lambda>a. lru_objects s a \<noteq> None)")
  case None
  have "effect d n s (s\<lparr>ticks := Suc (ticks s)\<rparr>) (view n s)"
    using C by (simp add: effect_def view_def shared_def quiescent_def scan_table_def lru_table_def)
  then show ?thesis
    using None C by (simp add: write_lru_def lru_cache_alloc_def shared_def quiescent_def)
next
  case (Some q)
  then have q: "lru_objects s q = None" using kernel_ok_alloc [OF K] by blast
  then have qn: "q \<notin> set (inorder (lru_cache_rb_tree s))" using lru_live [OF sharedD(3) [OF C]] by fastforce
  let ?s = "s\<lparr>ticks := Suc (ticks s), lru_objects := (lru_objects s)(q \<mapsto> lru_of r)\<rparr>"
  have full: "l\<lparr>lru_time_stamp := sc_time_stamp r, lru_dev_id := sc_dev_id r,
      lru_inode_number := sc_inode_number r, lru_inode_generation := sc_inode_generation r\<rparr> = lru_of r" for l
    by (cases l) (simp add: lru_of_def)
  have "write_lru K r s = Some (Some q, ?s)"
    using Some C by (simp add: write_lru_def lru_cache_alloc_def shared_def quiescent_def full)
  moreover have "effect d n s ?s (scan_own n s, insert (q, lru_of r, False) (lru_own n s))"
  proof (rule lru_effectI)
    show "shared d ?s"
      using C qn by (simp add: shared_def quiescent_def scan_table_def lru_table_def)
  qed (use r in \<open>simp_all add: own_alloc [of "lru_objects s", OF q qn] lru_of_def\<close>)
  ultimately show ?thesis by blast
qed

section \<open>Linking and replacing\<close>

lemma scan_owned_rec: "(a, r, True) \<in> scan_own n s \<Longrightarrow> r \<in> scan_recs s"
  by (auto simp: own_iff intro: scan_node_rec)

lemma scan_owned_link:
  assumes "scan_table d s" and "r \<in> scan_recs s"
  obtains a where "(a, r, True) \<in> scan_own (sc_inode_number r) s"
  using scan_node_of [OF assms] by (auto simp: own_iff)

lemma link_scan_dup:
  assumes C: "shared d s" and p: "(p, r, False) \<in> scan_own n s" and ok: "scan_record_ok d r"
    and a: "(a, r', True) \<in> scan_own n s"
  shows "link_scan K p s = Some (-1, s)"
proof -
  have "RB_INSERT (rbtree K) (scan_cache_rb_tree s) p
      (\<lambda>n. do { q \<leftarrow> scan_objects s n; Some (scan_cache_insert_compare_table (Some r) (Some q)) }) =
      Some (-1, scan_cache_rb_tree s)"
    using scan_ins.insert_dup [OF sharedD(2) [OF C, unfolded scan_table_def] ok
        scan_owned_rec [OF a, unfolded scan_recs_def]] p a
    by (simp add: own_iff scan_rank_eq)
  then show ?thesis
    using C p by (simp add: link_scan_def own_iff lock_defs shared_def quiescent_def)
qed

lemma link_scan_effect:
  assumes K: "kernel_ok K" and C: "shared d s" and p: "(p, r, False) \<in> scan_own n s" and ok: "scan_record_ok d r"
    and none: "\<And>a r'. (a, r', True) \<notin> scan_own n s"
  shows "\<exists>s'. link_scan K p s = Some (0, s') \<and>
     effect d n s s' (insert (p, r, True) (scan_own n s - {(p, r, False)}), lru_own n s)"
proof -
  note T = sharedD(2) [OF C]
  have p': "scan_objects s p = Some r" "p \<notin> set (inorder (scan_cache_rb_tree s))" "sc_inode_number r = n"
    using p by (simp_all add: own_iff)
  have "\<forall>r'\<in>recs (scan_objects s) (scan_cache_rb_tree s). scan_rank r' \<noteq> scan_rank r"
    using none scan_owned_link [OF T] p'(3) unfolding scan_rank_eq scan_recs_def by metis
  from scan_ins.insert_new [OF kernel_ok_rb [OF K] T [unfolded scan_table_def] ok p'(1) ok refl this]
  obtain t where t: "RB_INSERT (rbtree K) (scan_cache_rb_tree s) p
      (\<lambda>n. do { q \<leftarrow> scan_objects s n; Some (scan_cache_insert_compare_table (Some r) (Some q)) }) = Some (0, t)"
    "node_table (scan_objects s) (scan_record_ok d) scan_rank t"
    "set (inorder t) = insert p (set (inorder (scan_cache_rb_tree s)))" by blast
  let ?s = "s\<lparr>scan_cache_rb_tree := t\<rparr>"
  have "link_scan K p s = Some (0, ?s)"
    using C p'(1) t(1) by (simp add: link_scan_def lock_defs shared_def quiescent_def)
  moreover have "effect d n s ?s (insert (p, r, True) (scan_own n s - {(p, r, False)}), lru_own n s)"
  proof (rule scan_effectI)
    show "shared d ?s" using C t(2) by (simp add: shared_def quiescent_def scan_table_def lru_table_def)
  qed (use p'(3) in \<open>simp_all add: own_link [of "scan_objects s", OF p'(1,2) t(3)]\<close>)
  ultimately show ?thesis by blast
qed

lemma link_lru_effect:
  assumes K: "kernel_ok K" and C: "shared d s" and q: "(q, l, False) \<in> lru_own n s" and ok: "lru_record_ok l"
  shows "\<exists>s'. link_lru K q s = Some (-1, s) \<or> link_lru K q s = Some (0, s') \<and>
     effect d n s s' (scan_own n s, insert (q, l, True) (lru_own n s - {(q, l, False)}))"
proof (cases "\<exists>l'\<in>lru_recs s. lru_rank l' = lru_rank l")
  case True
  then obtain l' where l': "l' \<in> lru_recs s" "lru_rank l' = lru_rank l" by blast
  have "RB_INSERT (rbtree K) (lru_cache_rb_tree s) q
      (\<lambda>n. do { q \<leftarrow> lru_objects s n; Some (lru_cache_insert_compare_table l q) }) = Some (-1, lru_cache_rb_tree s)"
    using lru_ins.insert_dup [OF sharedD(3) [OF C, unfolded lru_table_def] ok l'(1) [unfolded lru_recs_def]] l'(2)
    by simp
  then show ?thesis
    using C q by (simp add: link_lru_def own_iff lock_defs shared_def quiescent_def)
next
  case False
  have q': "lru_objects s q = Some l" "q \<notin> set (inorder (lru_cache_rb_tree s))" "lru_inode_number l = n"
    using q by (simp_all add: own_iff)
  have "\<forall>l'\<in>recs (lru_objects s) (lru_cache_rb_tree s). lru_rank l' \<noteq> lru_rank l"
    using False by (simp add: lru_recs_def)
  from lru_ins.insert_new [OF kernel_ok_rb [OF K] sharedD(3) [OF C, unfolded lru_table_def] ok q'(1) ok refl this]
  obtain t where t: "RB_INSERT (rbtree K) (lru_cache_rb_tree s) q
      (\<lambda>n. do { q \<leftarrow> lru_objects s n; Some (lru_cache_insert_compare_table l q) }) = Some (0, t)"
    "node_table (lru_objects s) lru_record_ok lru_rank t"
    "set (inorder t) = insert q (set (inorder (lru_cache_rb_tree s)))" by blast
  let ?s = "s\<lparr>lru_cache_rb_tree := t\<rparr>"
  have "link_lru K q s = Some (0, ?s)"
    using C q'(1) t(1) by (simp add: link_lru_def lock_defs shared_def quiescent_def)
  moreover have "effect d n s ?s (scan_own n s, insert (q, l, True) (lru_own n s - {(q, l, False)}))"
  proof (rule lru_effectI)
    show "shared d ?s" using C t(2) by (simp add: shared_def quiescent_def scan_table_def lru_table_def)
  qed (use q'(3) in \<open>simp_all add: own_link [of "lru_objects s", OF q'(1,2) t(3)]\<close>)
  ultimately show ?thesis by blast
qed

lemma search_same_hit:
  assumes C: "shared d s" and p: "(p, r, b) \<in> scan_own n s" and ok: "scan_record_ok d r"
    and a: "(a, r', True) \<in> scan_own n s"
  shows "search_same p s = Some (Some a, s)"
proof -
  have a': "a \<in> set (inorder (scan_cache_rb_tree s))" "scan_objects s a = Some r'" "sc_inode_number r' = n"
    and p': "scan_objects s p = Some r" "sc_inode_number r = n"
    using a p by (simp_all add: own_iff)
  have "scan_cache_insert_compare_table (Some r) (Some r') = 0"
    using scan_ins.cmp_equal [OF ok scan_recs_ok [OF sharedD(2) [OF C] scan_owned_rec [OF a]]] a'(3) p'(2)
    by (simp add: scan_rank_eq)
  from scan_ins.search_Some [OF sharedD(2) [OF C, unfolded scan_table_def] ok a'(1,2) this]
  show ?thesis using C p'(1) by (simp add: search_same_def lock_defs shared_def quiescent_def)
qed

lemma replace_scan_effect:
  assumes K: "kernel_ok K" and C: "shared d s" and p: "(p, r, False) \<in> scan_own n s" and ok: "scan_record_ok d r"
    and a: "(a, r', True) \<in> scan_own n s"
  shows "\<exists>s'. replace_scan K a p s = Some s' \<and>
     effect d n s s' (insert (p, r, True) (insert (a, r', False) (scan_own n s - {(a, r', True)}) - {(p, r, False)}), lru_own n s)"
proof -
  note T = sharedD(2) [OF C]
  have a': "a \<in> set (inorder (scan_cache_rb_tree s))" "scan_objects s a = Some r'" "sc_inode_number r' = n"
    and p': "scan_objects s p = Some r" "p \<notin> set (inorder (scan_cache_rb_tree s))" "sc_inode_number r = n"
    using a p by (simp_all add: own_iff)
  have "scan_rank r = scan_rank (the (scan_objects s a))" using a' p' by (simp add: scan_rank_eq)
  note R = replace_table [OF kernel_ok_rb [OF K] T [unfolded scan_table_def] a'(1) p'(2,1) ok this]
  let ?t = "rb_replace_node (rbtree K) a p (scan_cache_rb_tree s)"
  let ?s = "s\<lparr>scan_cache_rb_tree := ?t\<rparr>" and ?e = "rb_erase (rbtree K) a (scan_cache_rb_tree s)"
  have e: "set (inorder ?e) = set (inorder (scan_cache_rb_tree s)) - {a}"
    using erase_table(2) [OF kernel_ok_rb [OF K] T [unfolded scan_table_def] a'(1)] .
  have "replace_scan K a p s = Some ?s"
    using C a'(1) p'(2) by (simp add: replace_scan_def lock_defs shared_def quiescent_def RB_REPLACE_def)
  moreover have "effect d n s ?s
      (insert (p, r, True) (insert (a, r', False) (scan_own n s - {(a, r', True)}) - {(p, r, False)}), lru_own n s)"
  proof (rule scan_effectI)
    show "shared d ?s" using C R(2) by (simp add: shared_def quiescent_def scan_table_def lru_table_def)
  qed (use a'(3) p'(2,3) e in \<open>simp_all add: own_unlink [of "scan_objects s", OF a'(2,1) e]
      own_link [of "scan_objects s" p r ?e ?t, OF p'(1)] R(1)\<close>)
  ultimately show ?thesis by blast
qed

section \<open>Lookups\<close>

lemma find_owned_lru:
  assumes "shared d s" and "(q, l, True) \<in> lru_own n s"
  shows "find_lru_cache_record (Some \<lparr>lru_key_time_stamp = lru_time_stamp l\<rparr>) s = Some (Some q, s)"
  using find_lru_hit [OF sharedD(1,3)] assms by (simp add: own_iff)

lemma find_owned_scan:
  assumes C: "shared d s" and f: "fi_dev_id f = d" "uint (fi_inode_number f) < 2 ^ 63"
    and p: "(p, r, True) \<in> scan_own (fi_inode_number f) s" and g: "sc_inode_generation r = fi_inode_generation f"
  shows "find_scan_cache_record (Some (file_key f)) s = Some (Some p, s)"
proof (rule find_scan_hit [OF sharedD(1,2) [OF C] _ _ file_key_ok [OF f]])
qed (use p g in \<open>auto simp: own_iff file_key_def\<close>)

lemma find_unowned_scan:
  assumes C: "shared d s" and f: "fi_dev_id f = d" "uint (fi_inode_number f) < 2 ^ 63"
    and none: "\<And>p r. (p, r, True) \<in> scan_own (fi_inode_number f) s \<Longrightarrow> sc_inode_generation r \<noteq> fi_inode_generation f"
  shows "find_scan_cache_record (Some (file_key f)) s = Some (None, s)"
proof (rule find_scan_miss [OF sharedD(1,2) [OF C] file_key_ok [OF f]])
  fix r assume r: "r \<in> scan_recs s" "sc_inode_number r = key_inode_number (file_key f)"
  then obtain a where "(a, r, True) \<in> scan_own (fi_inode_number f) s"
    using scan_owned_link [OF sharedD(2) [OF C] r(1)] by (auto simp: file_key_def)
  then show "sc_inode_generation r \<noteq> key_inode_generation (file_key f)"
    using none by (simp add: file_key_def)
qed

section \<open>What a thread knows\<close>

text \<open>The scan objects of an inode: one, or the one to be replaced and the new one.\<close>

definition single :: "addr \<Rightarrow> 'r \<Rightarrow> bool \<Rightarrow> (addr \<times> 'r \<times> bool) set \<Rightarrow> bool" where
  "single p r b S \<longleftrightarrow> S = {(p, r, b)}"

definition double :: "addr \<Rightarrow> 'r \<Rightarrow> bool \<Rightarrow> addr \<Rightarrow> 'r \<Rightarrow> bool \<Rightarrow> (addr \<times> 'r \<times> bool) set \<Rightarrow> bool" where
  "double a r' c p r b S \<longleftrightarrow> a \<noteq> p \<and> S = {(a, r', c), (p, r, b)}"

lemma single_mem: "single p r b S \<Longrightarrow> (p, r, b) \<in> S"
  by (simp add: single_def)

lemma double_mem: "double a r' c p r b S \<Longrightarrow> (a, r', c) \<in> S" "double a r' c p r b S \<Longrightarrow> (p, r, b) \<in> S"
  by (simp_all add: double_def)

lemma single_change:
  "single p r True S \<Longrightarrow> single p r False (insert (p, r, False) (S - {(p, r, True)}))"
  "single p r False S \<Longrightarrow> single p r True (insert (p, r, True) (S - {(p, r, False)}))"
  "single p r False S \<Longrightarrow> S - {(p, r, False)} = {}"
  by (simp_all add: single_def)

lemma double_change:
  "double a r' True p r False S \<Longrightarrow>
     double a r' False p r True (insert (p, r, True) (insert (a, r', False) (S - {(a, r', True)}) - {(p, r, False)}))"
  "double a r' c p r True S \<Longrightarrow> double a r' c p r False (insert (p, r, False) (S - {(p, r, True)}))"
  "double a r' c p r False S \<Longrightarrow> single a r' c (S - {(p, r, False)})"
  "double a r' False p r b S \<Longrightarrow> single p r b (S - {(a, r', False)})"
  by (auto simp: single_def double_def)

text \<open>
  \<open>e\<close> is the record of the thread's inode that was cached when the thread started. Between calls the
  inode has no record at all, or one record in each tree.
\<close>

fun settled :: "scan_cache_record option \<Rightarrow> inode_view \<Rightarrow> bool" where
  "settled None (S, L) \<longleftrightarrow> S = {} \<and> linked L = {}"
| "settled (Some r) (S, L) \<longleftrightarrow> (\<exists>p q. single p r True S \<and> linked L = {(q, lru_of r)})"

definition hit :: "scan_cache_record option \<Rightarrow> fileInfo \<Rightarrow> scan_cache_record \<Rightarrow> bool" where
  "hit e f r \<longleftrightarrow> e = Some r \<and> sc_inode_generation r = fi_inode_generation f"

fun remove_ok :: "scan_cache_record option \<Rightarrow> fileInfo \<Rightarrow> remove_pc \<Rightarrow> inode_view \<Rightarrow> bool" where
  "remove_ok e f (Call g) v \<longleftrightarrow> g = f \<and> settled e v"
| "remove_ok e f (Found p) (S, L) \<longleftrightarrow> (\<exists>r q. hit e f r \<and> single p r True S \<and> linked L = {(q, lru_of r)})"
| "remove_ok e f (Stamped p ts) (S, L) \<longleftrightarrow> (\<exists>r q. hit e f r \<and> single p r True S \<and> linked L = {(q, lru_of r)} \<and>
     ts = sc_time_stamp r)"
| "remove_ok e f (Lru_found p q) (S, L) \<longleftrightarrow> (\<exists>r. hit e f r \<and> single p r True S \<and> linked L = {(q, lru_of r)})"
| "remove_ok e f (Lru_unlinked p q) (S, L) \<longleftrightarrow> (\<exists>r. hit e f r \<and> single p r True S \<and> linked L = {} \<and>
     (q, lru_of r, False) \<in> L)"
| "remove_ok e f (Lru_gone p) (S, L) \<longleftrightarrow> (\<exists>r. hit e f r \<and> single p r True S \<and> linked L = {})"
| "remove_ok e f (Scan_unlinked p) (S, L) \<longleftrightarrow> (\<exists>r. hit e f r \<and> single p r False S \<and> linked L = {})"
| "remove_ok e f (Return b) v \<longleftrightarrow> b = (\<exists>r. hit e f r) \<and> settled (if b then None else e) v"

fun insert_ok :: "u32 \<Rightarrow> scan_cache_record option \<Rightarrow> fileInfo \<Rightarrow> insert_pc \<Rightarrow> inode_view \<Rightarrow> bool" where
  "insert_ok d e f (Ins_call g) v \<longleftrightarrow> g = f \<and> settled e v"
| "insert_ok d e f (Ins_written p) (S, L) \<longleftrightarrow> (\<exists>r. new_ok d f r \<and>
     (e = None \<and> single p r False S \<and> linked L = {} \<or>
      (\<exists>a r' q. e = Some r' \<and> double a r' True p r False S \<and> linked L = {(q, lru_of r')})))"
| "insert_ok d e f (Ins_linked p) (S, L) \<longleftrightarrow> (\<exists>r. new_ok d f r \<and> single p r True S \<and> linked L = {})"
| "insert_ok d e f (Ins_lru_written p q) (S, L) \<longleftrightarrow> (\<exists>r. new_ok d f r \<and> single p r True S \<and>
     linked L = {} \<and> (q, lru_of r, False) \<in> L)"
| "insert_ok d e f (Ins_undo p ret) (S, L) \<longleftrightarrow> ret = -1 \<and> (\<exists>r. single p r True S \<and> linked L = {})"
| "insert_ok d e f (Ins_undo_unlinked p ret) (S, L) \<longleftrightarrow> ret = -1 \<and> (\<exists>r. single p r False S \<and> linked L = {})"
| "insert_ok d e f (Upd_search p) (S, L) \<longleftrightarrow> (\<exists>r a r' q. new_ok d f r \<and>
     double a r' True p r False S \<and> linked L = {(q, lru_of r')})"
| "insert_ok d e f (Upd_none p) v \<longleftrightarrow> False"
| "insert_ok d e f (Upd_found p a) (S, L) \<longleftrightarrow> (\<exists>r r' q. new_ok d f r \<and>
     double a r' True p r False S \<and> linked L = {(q, lru_of r')})"
| "insert_ok d e f (Upd_replaced p a) (S, L) \<longleftrightarrow> (\<exists>r r' q. new_ok d f r \<and>
     double a r' False p r True S \<and> linked L = {(q, lru_of r')})"
| "insert_ok d e f (Upd_stamped p a ts) (S, L) \<longleftrightarrow> (\<exists>r r' q. new_ok d f r \<and>
     double a r' False p r True S \<and> linked L = {(q, lru_of r')} \<and> ts = sc_time_stamp r')"
| "insert_ok d e f (Upd_lru_found p a q) (S, L) \<longleftrightarrow> (\<exists>r r'. new_ok d f r \<and>
     double a r' False p r True S \<and> linked L = {(q, lru_of r')})"
| "insert_ok d e f (Upd_lru_unlinked p a q) (S, L) \<longleftrightarrow> (\<exists>r r'. new_ok d f r \<and>
     double a r' False p r True S \<and> linked L = {} \<and> (q, lru_of r', False) \<in> L)"
| "insert_ok d e f (Upd_lru_freed p a) (S, L) \<longleftrightarrow> (\<exists>r r'. new_ok d f r \<and>
     double a r' False p r True S \<and> linked L = {})"
| "insert_ok d e f (Upd_lru_written p a q) (S, L) \<longleftrightarrow> (\<exists>r r'. new_ok d f r \<and>
     double a r' False p r True S \<and> linked L = {} \<and> (q, lru_of r, False) \<in> L)"
| "insert_ok d e f (Upd_undo p a ret) (S, L) \<longleftrightarrow> ret = -1 \<and> (\<exists>r r'. double a r' False p r True S \<and> linked L = {})"
| "insert_ok d e f (Upd_undo_unlinked p a ret) (S, L) \<longleftrightarrow> ret = -1 \<and> (\<exists>r r'. double a r' False p r False S \<and> linked L = {})"
| "insert_ok d e f (Upd_free a ret) (S, L) \<longleftrightarrow>
     ret = 0 \<and> (\<exists>r r' p q. new_ok d f r \<and> double a r' False p r True S \<and> linked L = {(q, lru_of r)}) \<or>
     ret = -1 \<and> (\<exists>r'. single a r' False S \<and> linked L = {})"
| "insert_ok d e f (Ins_return ret) v \<longleftrightarrow>
     ret = 0 \<and> (\<exists>r. new_ok d f r \<and> settled (Some r) v) \<or> ret = -1 \<and> settled None v \<or> ret = - ENOMEM \<and> settled e v"

text \<open>An evicting thread chooses its inodes itself; there is no assertion for it here.\<close>

fun thread_ok :: "u32 \<Rightarrow> scan_cache_record option \<Rightarrow> fileInfo \<Rightarrow> cache_pc \<Rightarrow> inode_view \<Rightarrow> bool" where
  "thread_ok d e f (Removing pc) v \<longleftrightarrow> remove_ok e f pc v"
| "thread_ok d e f (Inserting pc) v \<longleftrightarrow> insert_ok d e f pc v"
| "thread_ok d e f (Evicting pc) v \<longleftrightarrow> False"

text \<open>One step: it succeeds, it changes the view of the thread's inode only, and afterwards the thread
  knows what it has to know at its new position.\<close>

definition step_ok ::
    "kernel_api \<Rightarrow> u32 \<Rightarrow> scan_cache_record option \<Rightarrow> fileInfo \<Rightarrow> cache_pc \<Rightarrow> cache_state \<Rightarrow> bool" where
  "step_ok K d e f pc s \<longleftrightarrow> (\<exists>pc' s' v. cache_step K pc s = Some (pc', s') \<and>
     effect d (fi_inode_number f) s s' v \<and> thread_ok d e f pc' v)"

lemma step_okI:
  "effect d (fi_inode_number f) s s' v \<Longrightarrow> cache_step K pc s = Some (pc', s') \<Longrightarrow> thread_ok d e f pc' v \<Longrightarrow>
     step_ok K d e f pc s"
  unfolding step_ok_def by blast

lemma step_quietI:
  "shared d s \<Longrightarrow> cache_step K pc s = Some (pc', s) \<Longrightarrow> thread_ok d e f pc' (view (fi_inode_number f) s) \<Longrightarrow>
     step_ok K d e f pc s"
  by (rule step_okI [OF effect_refl [OF _ refl]])

lemma step_thenI:
  assumes "\<exists>s'. x = Some s' \<and> effect d (fi_inode_number f) s s' v"
    and "\<And>s'. x = Some s' \<Longrightarrow> cache_step K pc s = Some (pc', s')" and "thread_ok d e f pc' v"
  shows "step_ok K d e f pc s"
  using assms(1) by (elim exE conjE) (rule step_okI [OF _ assms(2,3)])

section \<open>The steps of a removal\<close>

lemma remove_call_ok:
  assumes C: "shared d s" and f: "fi_dev_id f = d" "uint (fi_inode_number f) < 2 ^ 63"
    and v: "settled e (view (fi_inode_number f) s)"
  shows "step_ok K d e f (Removing (Call f)) s"
proof (cases "\<exists>r. hit e f r")
  case True
  then obtain r where r: "hit e f r" ..
  then obtain p q where pq: "single p r True (scan_own (fi_inode_number f) s)"
    "linked (lru_own (fi_inode_number f) s) = {(q, lru_of r)}"
    using v by (auto simp: view_def hit_def)
  have "find_scan_cache_record (Some (file_key f)) s = Some (Some p, s)"
    using find_owned_scan [OF C f single_mem [OF pq(1)]] r by (simp add: hit_def)
  then show ?thesis
    using r pq by (intro step_quietI [OF C, of _ _ "Removing (Found p)"]) (auto simp: file_key_def view_def)
next
  case False
  have "sc_inode_generation r \<noteq> fi_inode_generation f" if "(p, r, True) \<in> scan_own (fi_inode_number f) s" for p r
    using that v False by (cases e) (auto simp: view_def hit_def single_def)
  then have "find_scan_cache_record (Some (file_key f)) s = Some (None, s)"
    using find_unowned_scan [OF C f] by blast
  then show ?thesis
    using v False by (intro step_quietI [OF C, of _ _ "Removing (Return False)"]) (auto simp: file_key_def)
qed

lemma remove_steps_ok:
  assumes K: "kernel_ok K" and C: "shared d s" and f: "fi_dev_id f = d" "uint (fi_inode_number f) < 2 ^ 63"
    and v: "remove_ok e f pc (view (fi_inode_number f) s)"
  shows "step_ok K d e f (Removing pc) s"
proof -
  let ?S = "scan_own (fi_inode_number f) s" and ?L = "lru_own (fi_inode_number f) s"
  show ?thesis
  proof (cases pc)
    case (Call g)
    then show ?thesis using v remove_call_ok [OF C f] by simp
  next
    case (Found p)
    then obtain r q where r: "hit e f r" "single p r True ?S" "linked ?L = {(q, lru_of r)}"
      using v by (auto simp: view_def)
    then show ?thesis
      using scan_object [OF single_mem [OF r(2)]]
      by (intro step_quietI [OF C, of _ _ "Removing (Stamped p (sc_time_stamp r))"]) (auto simp: Found view_def)
  next
    case (Stamped p ts)
    then obtain r q where r: "hit e f r" "single p r True ?S" "linked ?L = {(q, lru_of r)}" "ts = sc_time_stamp r"
      using v by (auto simp: view_def)
    then have "(q, lru_of r, True) \<in> ?L" by (simp flip: linked_iff)
    from find_owned_lru [OF C this] r show ?thesis
      by (intro step_quietI [OF C, of _ _ "Removing (Lru_found p q)"]) (auto simp: Stamped lru_time_of view_def)
  next
    case (Lru_found p q)
    then obtain r where r: "hit e f r" "single p r True ?S" "linked ?L = {(q, lru_of r)}"
      using v by (auto simp: view_def)
    then have "(q, lru_of r, True) \<in> ?L" by (simp flip: linked_iff)
    then show ?thesis
      by (rule step_thenI [OF unlink_lru_effect [OF K C], of _ _ _ _ _ "Removing (Lru_unlinked p q)"])
        (use r Lru_found in auto)
  next
    case (Lru_unlinked p q)
    then obtain r where r: "hit e f r" "single p r True ?S" "linked ?L = {}" "(q, lru_of r, False) \<in> ?L"
      using v by (auto simp: view_def)
    show ?thesis
      by (rule step_thenI [OF free_lru_effect [OF C r(4)], of _ _ "Removing (Lru_gone p)"])
        (use r Lru_unlinked in auto)
  next
    case (Lru_gone p)
    then obtain r where r: "hit e f r" "single p r True ?S" "linked ?L = {}" using v by (auto simp: view_def)
    show ?thesis
      by (rule step_thenI [OF unlink_scan_effect [OF K C single_mem [OF r(2)]], of _ _ "Removing (Scan_unlinked p)"])
        (use r Lru_gone in \<open>auto dest: single_change\<close>)
  next
    case (Scan_unlinked p)
    then obtain r where r: "hit e f r" "single p r False ?S" "linked ?L = {}" using v by (auto simp: view_def)
    show ?thesis
      by (rule step_thenI [OF free_scan_effect [OF C single_mem [OF r(2)]], of _ _ "Removing (Return True)"])
        (use r Scan_unlinked in \<open>auto simp: single_change(3)\<close>)
  next
    case (Return b)
    have "cache_step K (Removing pc) s = Some (Removing pc, s)" by (simp add: Return)
    then show ?thesis by (rule step_quietI [OF C]) (simp add: v)
  qed
qed

section \<open>The steps of an insertion\<close>

lemma insert_call_ok:
  assumes K: "kernel_ok K" and C: "shared d s" and f: "fi_dev_id f = d" "uint (fi_inode_number f) < 2 ^ 63"
    and v: "settled e (view (fi_inode_number f) s)"
  shows "step_ok K d e f (Inserting (Ins_call f)) s"
  using write_scan_effect [OF K C f]
proof (elim exE disjE conjE)
  fix s' assume "write_scan K f s = Some (None, s')" "effect d (fi_inode_number f) s s' (view (fi_inode_number f) s)"
  then show ?thesis using v by (intro step_okI [of _ _ _ _ _ K _ "Inserting (Ins_return (- ENOMEM))"]) auto
next
  let ?S = "scan_own (fi_inode_number f) s" and ?L = "lru_own (fi_inode_number f) s"
  fix s' p r
  assume w: "write_scan K f s = Some (Some p, s')" "new_ok d f r" "scan_objects s p = None"
    "effect d (fi_inode_number f) s s' (insert (p, r, False) ?S, ?L)"
  have "insert_ok d e f (Ins_written p) (insert (p, r, False) ?S, ?L)"
  proof (cases e)
    case None
    then show ?thesis using v w(2) by (auto simp: view_def single_def)
  next
    case (Some r')
    then obtain a q where a: "single a r' True ?S" "linked ?L = {(q, lru_of r')}" using v by (auto simp: view_def)
    have "a \<noteq> p" using scan_object [OF single_mem [OF a(1)]] w(3) by auto
    then have "double a r' True p r False (insert (p, r, False) ?S)" using a(1) by (auto simp: single_def double_def)
    then show ?thesis using Some w(2) a(2) by auto
  qed
  then show ?thesis using w(1) by (intro step_okI [OF w(4), of _ _ "Inserting (Ins_written p)"]) simp_all
qed

lemma insert_written_ok:
  assumes K: "kernel_ok K" and C: "shared d s" and v: "insert_ok d e f (Ins_written p) (view (fi_inode_number f) s)"
  shows "step_ok K d e f (Inserting (Ins_written p)) s"
proof -
  let ?S = "scan_own (fi_inode_number f) s" and ?L = "lru_own (fi_inode_number f) s"
  obtain r where r: "new_ok d f r" "scan_record_ok d r"
    and S: "single p r False ?S \<and> linked ?L = {} \<or>
      (\<exists>a r' q. double a r' True p r False ?S \<and> linked ?L = {(q, lru_of r')})"
    using v by (auto simp: view_def new_ok_def)
  from S show ?thesis
  proof (elim disjE exE conjE)
    assume S: "single p r False ?S" "linked ?L = {}"
    have "\<exists>s'. link_scan K p s = Some (0, s') \<and> effect d (fi_inode_number f) s s'
        (insert (p, r, True) (?S - {(p, r, False)}), ?L)"
      by (rule link_scan_effect [OF K C single_mem [OF S(1)] r(2)]) (use S(1) in \<open>simp add: single_def\<close>)
    then obtain s' where s': "link_scan K p s = Some (0, s')"
      "effect d (fi_inode_number f) s s' (insert (p, r, True) (?S - {(p, r, False)}), ?L)" by blast
    show ?thesis
      by (rule step_okI [OF s'(2), of _ _ "Inserting (Ins_linked p)"])
        (use s'(1) S(2) r(1) single_change(2) [OF S(1)] in auto)
  next
    fix a r' q assume S: "double a r' True p r False ?S" "linked ?L = {(q, lru_of r')}"
    have "link_scan K p s = Some (-1, s)"
      using link_scan_dup [OF C double_mem(2) [OF S(1)] r(2) double_mem(1) [OF S(1)]] .
    then show ?thesis
      using r(1) S by (intro step_quietI [OF C, of _ _ "Inserting (Upd_search p)"]) (auto simp: view_def)
  qed
qed

text \<open>The new LRU record of an inserted and of an updated entry.\<close>

lemma write_lru_ok:
  assumes K: "kernel_ok K" and C: "shared d s" and r: "new_ok d f r" "linked (lru_own (fi_inode_number f) s) = {}"
    and step: "\<And>s'. write_lru K r s = Some (None, s') \<Longrightarrow> cache_step K pc s = Some (pc0, s')"
      "\<And>q s'. write_lru K r s = Some (Some q, s') \<Longrightarrow> cache_step K pc s = Some (pc1 q, s')"
    and ok: "thread_ok d e f pc0 (view (fi_inode_number f) s)"
      "\<And>q L. linked L = {} \<Longrightarrow> (q, lru_of r, False) \<in> L \<Longrightarrow> thread_ok d e f (pc1 q) (scan_own (fi_inode_number f) s, L)"
  shows "step_ok K d e f pc s"
  using write_lru_effect [OF K C r(1) [unfolded new_ok_def, THEN conjunct1]]
proof (elim exE disjE conjE)
  fix s' assume "write_lru K r s = Some (None, s')" "effect d (fi_inode_number f) s s' (view (fi_inode_number f) s)"
  then show ?thesis using ok(1) by (intro step_okI [OF _ step(1)]) simp_all
next
  fix s' q
  assume w: "write_lru K r s = Some (Some q, s')" "effect d (fi_inode_number f) s s'
    (scan_own (fi_inode_number f) s, insert (q, lru_of r, False) (lru_own (fi_inode_number f) s))"
  show ?thesis
    by (rule step_okI [OF w(2) step(2) [OF w(1)] ok(2)]) (simp_all add: r(2))
qed

lemma link_lru_ok:
  assumes K: "kernel_ok K" and C: "shared d s" and r: "new_ok d f r" "linked (lru_own (fi_inode_number f) s) = {}"
    "(q, lru_of r, False) \<in> lru_own (fi_inode_number f) s"
    and step: "\<And>s'. link_lru K q s = Some (0, s') \<Longrightarrow> cache_step K pc s = Some (pc0, s')"
      "link_lru K q s = Some (-1, s) \<Longrightarrow> cache_step K pc s = Some (pc1, s)"
    and ok: "\<And>L. linked L = {(q, lru_of r)} \<Longrightarrow> thread_ok d e f pc0 (scan_own (fi_inode_number f) s, L)"
      "thread_ok d e f pc1 (view (fi_inode_number f) s)"
  shows "step_ok K d e f pc s"
proof -
  have "lru_record_ok (lru_of r)" using r(1) by (simp add: new_ok_def lru_record_ok_def lru_time_of)
  from link_lru_effect [OF K C r(3) this] show ?thesis
  proof (elim exE disjE conjE)
    assume "link_lru K q s = Some (-1, s)"
    then show ?thesis by (rule step_quietI [OF C step(2) ok(2)])
  next
    fix s'
    assume w: "link_lru K q s = Some (0, s')" "effect d (fi_inode_number f) s s'
      (scan_own (fi_inode_number f) s, insert (q, lru_of r, True) (lru_own (fi_inode_number f) s - {(q, lru_of r, False)}))"
    show ?thesis by (rule step_okI [OF w(2) step(1) [OF w(1)] ok(1)]) (simp add: r(2))
  qed
qed

lemma insert_new_steps_ok:
  assumes K: "kernel_ok K" and C: "shared d s" and v: "insert_ok d e f pc (view (fi_inode_number f) s)"
    and pc: "pc \<in> {Ins_linked p, Ins_lru_written p q, Ins_undo p ret, Ins_undo_unlinked p ret}"
  shows "step_ok K d e f (Inserting pc) s"
proof -
  let ?S = "scan_own (fi_inode_number f) s" and ?L = "lru_own (fi_inode_number f) s"
  consider "pc = Ins_linked p" | "pc = Ins_lru_written p q" | "pc = Ins_undo p ret" | "pc = Ins_undo_unlinked p ret"
    using pc by auto
  then show ?thesis
  proof cases
    case 1
    then obtain r where r: "new_ok d f r" "single p r True ?S" "linked ?L = {}" using v by (auto simp: view_def)
    show ?thesis
      by (rule write_lru_ok [OF K C r(1,3), of _ "Inserting (Ins_undo p (-1))" "\<lambda>q. Inserting (Ins_lru_written p q)"])
        (use r scan_object [OF single_mem [OF r(2)]] in \<open>auto simp: 1 view_def\<close>)
  next
    case 2
    then obtain r where r: "new_ok d f r" "single p r True ?S" "linked ?L = {}" "(q, lru_of r, False) \<in> ?L"
      using v by (auto simp: view_def)
    show ?thesis
      by (rule link_lru_ok [OF K C r(1,3,4), of _ "Inserting (Ins_return 0)" "Inserting (Ins_undo p (-1))"])
        (use r in \<open>auto simp: 2 view_def\<close>)
  next
    case 3
    then obtain r where r: "ret = -1" "single p r True ?S" "linked ?L = {}" using v by (auto simp: view_def)
    show ?thesis
      by (rule step_thenI [OF unlink_scan_effect [OF K C single_mem [OF r(2)]], of _ _ "Inserting (Ins_undo_unlinked p ret)"])
        (use r single_change(1) [OF r(2)] in \<open>auto simp: 3\<close>)
  next
    case 4
    then obtain r where r: "ret = -1" "single p r False ?S" "linked ?L = {}" using v by (auto simp: view_def)
    show ?thesis
      by (rule step_thenI [OF free_scan_effect [OF C single_mem [OF r(2)]], of _ _ "Inserting (Ins_return ret)"])
        (use r in \<open>auto simp: 4 single_change(3)\<close>)
  qed
qed

lemma update_scan_steps_ok:
  assumes K: "kernel_ok K" and C: "shared d s" and v: "insert_ok d e f pc (view (fi_inode_number f) s)"
    and pc: "pc \<in> {Upd_search p, Upd_found p a, Upd_replaced p a}"
  shows "step_ok K d e f (Inserting pc) s"
proof -
  let ?S = "scan_own (fi_inode_number f) s" and ?L = "lru_own (fi_inode_number f) s"
  consider "pc = Upd_search p" | "pc = Upd_found p a" | "pc = Upd_replaced p a" using pc by auto
  then show ?thesis
  proof cases
    case 1
    then obtain r a r' q where r: "new_ok d f r" "double a r' True p r False ?S" "linked ?L = {(q, lru_of r')}"
      using v by (auto simp: view_def)
    have "search_same p s = Some (Some a, s)"
      using search_same_hit [OF C double_mem(2) [OF r(2)] _ double_mem(1) [OF r(2)]] r(1) by (simp add: new_ok_def)
    then show ?thesis
      using r by (intro step_quietI [OF C, of _ _ "Inserting (Upd_found p a)"]) (auto simp: 1 view_def)
  next
    case 2
    then obtain r r' q where r: "new_ok d f r" "double a r' True p r False ?S" "linked ?L = {(q, lru_of r')}"
      using v by (auto simp: view_def)
    then have ok: "scan_record_ok d r" by (simp add: new_ok_def)
    show ?thesis
      by (rule step_thenI [OF replace_scan_effect [OF K C double_mem(2) [OF r(2)] ok double_mem(1) [OF r(2)]],
            of _ _ "Inserting (Upd_replaced p a)"])
        (use r double_change(1) [OF r(2)] in \<open>auto simp: 2\<close>)
  next
    case 3
    then obtain r r' q where r: "new_ok d f r" "double a r' False p r True ?S" "linked ?L = {(q, lru_of r')}"
      using v by (auto simp: view_def)
    then show ?thesis
      using scan_object [OF double_mem(1) [OF r(2)]]
      by (intro step_quietI [OF C, of _ _ "Inserting (Upd_stamped p a (sc_time_stamp r'))"]) (auto simp: 3 view_def)
  qed
qed

lemma update_lru_steps_ok:
  assumes K: "kernel_ok K" and C: "shared d s" and v: "insert_ok d e f pc (view (fi_inode_number f) s)"
    and pc: "pc \<in> {Upd_stamped p a ts, Upd_lru_found p a q, Upd_lru_unlinked p a q}"
  shows "step_ok K d e f (Inserting pc) s"
proof -
  let ?S = "scan_own (fi_inode_number f) s" and ?L = "lru_own (fi_inode_number f) s"
  consider "pc = Upd_stamped p a ts" | "pc = Upd_lru_found p a q" | "pc = Upd_lru_unlinked p a q" using pc by auto
  then show ?thesis
  proof cases
    case 1
    then obtain r r' q where r: "new_ok d f r" "double a r' False p r True ?S" "linked ?L = {(q, lru_of r')}"
      "ts = sc_time_stamp r'" using v by (auto simp: view_def)
    then have "(q, lru_of r', True) \<in> ?L" by (simp flip: linked_iff)
    from find_owned_lru [OF C this] r show ?thesis
      by (intro step_quietI [OF C, of _ _ "Inserting (Upd_lru_found p a q)"]) (auto simp: 1 lru_time_of view_def)
  next
    case 2
    then obtain r r' where r: "new_ok d f r" "double a r' False p r True ?S" "linked ?L = {(q, lru_of r')}"
      using v by (auto simp: view_def)
    then have q: "(q, lru_of r', True) \<in> ?L" by (simp flip: linked_iff)
    show ?thesis
      by (rule step_thenI [OF unlink_lru_effect [OF K C q], of _ _ "Inserting (Upd_lru_unlinked p a q)"])
        (use r in \<open>auto simp: 2\<close>)
  next
    case 3
    then obtain r r' where r: "new_ok d f r" "double a r' False p r True ?S" "linked ?L = {}"
      "(q, lru_of r', False) \<in> ?L" using v by (auto simp: view_def)
    show ?thesis
      by (rule step_thenI [OF free_lru_effect [OF C r(4)], of _ _ "Inserting (Upd_lru_freed p a)"])
        (use r in \<open>auto simp: 3\<close>)
  qed
qed

lemma update_new_lru_steps_ok:
  assumes K: "kernel_ok K" and C: "shared d s" and v: "insert_ok d e f pc (view (fi_inode_number f) s)"
    and pc: "pc \<in> {Upd_lru_freed p a, Upd_lru_written p a q}"
  shows "step_ok K d e f (Inserting pc) s"
proof -
  let ?S = "scan_own (fi_inode_number f) s" and ?L = "lru_own (fi_inode_number f) s"
  consider "pc = Upd_lru_freed p a" | "pc = Upd_lru_written p a q" using pc by auto
  then show ?thesis
  proof cases
    case 1
    then obtain r r' where r: "new_ok d f r" "double a r' False p r True ?S" "linked ?L = {}"
      using v by (auto simp: view_def)
    show ?thesis
      by (rule write_lru_ok [OF K C r(1,3), of _ "Inserting (Upd_undo p a (-1))" "\<lambda>q. Inserting (Upd_lru_written p a q)"])
        (use r scan_object [OF double_mem(2) [OF r(2)]] in \<open>auto simp: 1 view_def\<close>)
  next
    case 2
    then obtain r r' where r: "new_ok d f r" "double a r' False p r True ?S" "linked ?L = {}"
      "(q, lru_of r, False) \<in> ?L" using v by (auto simp: view_def)
    show ?thesis
      by (rule link_lru_ok [OF K C r(1,3,4), of _ "Inserting (Upd_free a 0)" "Inserting (Upd_undo p a (-1))"])
        (use r in \<open>auto simp: 2 view_def\<close>)
  qed
qed

lemma update_end_steps_ok:
  assumes K: "kernel_ok K" and C: "shared d s" and v: "insert_ok d e f pc (view (fi_inode_number f) s)"
    and pc: "pc \<in> {Upd_undo p a ret, Upd_undo_unlinked p a ret, Upd_free a ret}"
  shows "step_ok K d e f (Inserting pc) s"
proof -
  let ?S = "scan_own (fi_inode_number f) s" and ?L = "lru_own (fi_inode_number f) s"
  consider "pc = Upd_undo p a ret" | "pc = Upd_undo_unlinked p a ret" | "pc = Upd_free a ret" using pc by auto
  then show ?thesis
  proof cases
    case 1
    then obtain r r' where r: "ret = -1" "double a r' False p r True ?S" "linked ?L = {}" using v by (auto simp: view_def)
    show ?thesis
      by (rule step_thenI [OF unlink_scan_effect [OF K C double_mem(2) [OF r(2)]], of _ _ "Inserting (Upd_undo_unlinked p a ret)"])
        (use r double_change(2) [OF r(2)] in \<open>auto simp: 1\<close>)
  next
    case 2
    then obtain r r' where r: "ret = -1" "double a r' False p r False ?S" "linked ?L = {}" using v by (auto simp: view_def)
    show ?thesis
      by (rule step_thenI [OF free_scan_effect [OF C double_mem(2) [OF r(2)]], of _ _ "Inserting (Upd_free a ret)"])
        (use r double_change(3) [OF r(2)] in \<open>auto simp: 2\<close>)
  next
    case 3
    then consider (kept) r r' p q where "ret = 0" "new_ok d f r" "double a r' False p r True ?S" "linked ?L = {(q, lru_of r)}"
      | (gone) r' where "ret = -1" "single a r' False ?S" "linked ?L = {}"
      using v by (auto simp: view_def)
    then show ?thesis
    proof cases
      case kept
      show ?thesis
        by (rule step_thenI [OF free_scan_effect [OF C double_mem(1) [OF kept(3)]], of _ _ "Inserting (Ins_return ret)"])
          (use kept double_change(4) [OF kept(3)] in \<open>auto simp: 3\<close>)
    next
      case gone
      show ?thesis
        by (rule step_thenI [OF free_scan_effect [OF C single_mem [OF gone(2)]], of _ _ "Inserting (Ins_return ret)"])
          (use gone in \<open>auto simp: 3 single_change(3)\<close>)
    qed
  qed
qed

lemma insert_steps_ok:
  assumes K: "kernel_ok K" and C: "shared d s" and f: "fi_dev_id f = d" "uint (fi_inode_number f) < 2 ^ 63"
    and v: "insert_ok d e f pc (view (fi_inode_number f) s)"
  shows "step_ok K d e f (Inserting pc) s"
proof (cases pc)
  case (Ins_call g)
  then show ?thesis using v insert_call_ok [OF K C f] by simp
next
  case (Ins_written p)
  then show ?thesis using v insert_written_ok [OF K C] by simp
next
  case (Ins_return ret)
  have "cache_step K (Inserting pc) s = Some (Inserting pc, s)" by (simp add: Ins_return)
  then show ?thesis by (rule step_quietI [OF C]) (simp add: v)
next
  case (Upd_none p)
  then show ?thesis using v by simp
qed (rule insert_new_steps_ok [OF K C v] update_scan_steps_ok [OF K C v] update_lru_steps_ok [OF K C v]
    update_new_lru_steps_ok [OF K C v] update_end_steps_ok [OF K C v], blast)+

text \<open>Every step of a thread that inserts or removes.\<close>

lemma every_step_ok:
  assumes "kernel_ok K" and "shared d s" and "fi_dev_id f = d" and "uint (fi_inode_number f) < 2 ^ 63"
    and "thread_ok d e f pc (view (fi_inode_number f) s)"
  shows "step_ok K d e f pc s"
  using assms by (cases pc) (simp_all add: remove_steps_ok insert_steps_ok)

end
