(* ===== verification/Cache_Threads.thy ===== *)
theory Cache_Threads
  imports Cache_Views
begin

text \<open>
  Threads that insert and remove at the same time, each at an inode of its own: the cache
  interprets the locale \<open>owned_threads\<close>, so no step of any interleaving fails, and the cache is
  well-formed again when all threads have returned.
\<close>

section \<open>A settled cache\<close>

lemma scan_owned_single:
  assumes T: "scan_table d s" and D: "dom (scan_objects s) = set (inorder (scan_cache_rb_tree s))"
    and r: "r \<in> scan_recs s"
  shows "\<exists>p. single p r True (scan_own (sc_inode_number r) s)"
proof -
  obtain p where p: "p \<in> set (inorder (scan_cache_rb_tree s))" "scan_objects s p = Some r"
    using scan_node_of [OF T r] .
  have "(a, r', b) \<in> scan_own (sc_inode_number r) s \<longleftrightarrow> (a, r', b) = (p, r, True)" for a r' b
  proof
    assume a: "(a, r', b) \<in> scan_own (sc_inode_number r) s"
    then have "a \<in> set (inorder (scan_cache_rb_tree s))" using D by (auto simp: own_iff)
    moreover from this have "r' = r"
      using scan_recs_inode_inj [OF T scan_node_rec r] a by (simp add: own_iff)
    ultimately show "(a, r', b) = (p, r, True)"
      using a p node_table_inj [OF T [unfolded scan_table_def] _ p(1)] by (simp add: own_iff)
  qed (use p in \<open>simp add: own_iff\<close>)
  then show ?thesis unfolding single_def by (auto intro!: exI [of _ p])
qed

lemma lru_owned_single:
  assumes I: "cache_inv d s" and r: "r \<in> scan_recs s"
  shows "\<exists>q. linked (lru_own (sc_inode_number r) s) = {(q, lru_of r)}"
proof -
  note D = cache_invD [OF I]
  obtain q where q: "q \<in> set (inorder (lru_cache_rb_tree s))" "lru_objects s q = Some (lru_of r)"
    using lru_node_of [OF D(3), of "lru_of r"] r D(5) by blast
  have "(a, l) \<in> linked (lru_own (sc_inode_number r) s) \<longleftrightarrow> (a, l) = (q, lru_of r)" for a l
  proof
    assume "(a, l) \<in> linked (lru_own (sc_inode_number r) s)"
    then have a: "lru_objects s a = Some l" "lru_inode_number l = sc_inode_number r" "a \<in> set (inorder (lru_cache_rb_tree s))"
      by (simp_all add: linked_iff own_iff)
    then obtain r' where "r' \<in> scan_recs s" "l = lru_of r'" using lru_node_rec [of a s l] D(5) by blast
    then have "l = lru_of r" using scan_recs_inode_inj [OF D(2) _ r] a(2) by (auto simp: lru_of_def)
    then show "(a, l) = (q, lru_of r)"
      using a q node_table_inj [OF D(3) [unfolded lru_table_def] a(3) q(1)] by simp
  qed (use q in \<open>simp add: linked_iff own_iff lru_of_def\<close>)
  then show ?thesis by (intro exI [of _ q]) auto
qed

lemma cache_inv_settled:
  assumes I: "cache_inv d s"
  shows "\<exists>e. settled e (view n s)"
proof (cases "\<exists>r\<in>scan_recs s. sc_inode_number r = n")
  case True
  then obtain r where "r \<in> scan_recs s" "sc_inode_number r = n" by blast
  then have "settled (Some r) (view n s)"
    using scan_owned_single [OF cache_invD(2,4) [OF I]] lru_owned_single [OF I] by (auto simp: view_def)
  then show ?thesis ..
next
  case False
  note D = cache_invD [OF I]
  have "(p, r, b) \<notin> scan_own n s" for p r b
    using False D(4) scan_node_rec [of p s r] by (auto simp: own_iff)
  moreover have "(q, l) \<notin> linked (lru_own n s)" for q l
  proof
    assume "(q, l) \<in> linked (lru_own n s)"
    then have "l \<in> lru_recs s" "lru_inode_number l = n" using lru_node_rec by (auto simp: linked_iff own_iff)
    then obtain r where "r \<in> scan_recs s" "lru_inode_number (lru_of r) = n" using D(5) by auto
    then show False using False by (simp add: lru_of_def)
  qed
  ultimately have "settled None (view n s)" by (auto simp: view_def)
  then show ?thesis ..
qed

lemma settled_cache_inv:
  assumes C: "shared d s" and e: "\<And>n. settled (e n) (view n s)"
  shows "cache_inv d s"
proof -
  note T = sharedD [OF C]
  have dom: "p \<in> set (inorder (scan_cache_rb_tree s))" if "scan_objects s p = Some r" for p r
  proof -
    have "(p, r, b) \<in> scan_own (sc_inode_number r) s \<longleftrightarrow> b = (p \<in> set (inorder (scan_cache_rb_tree s)))" for b
      using that by (simp add: own_iff)
    then show ?thesis
      using e [of "sc_inode_number r"] by (cases "e (sc_inode_number r)") (auto simp: view_def single_def)
  qed
  have "lru_of r \<in> lru_recs s" if r: "r \<in> scan_recs s" for r
  proof -
    obtain a where a: "(a, r, True) \<in> scan_own (sc_inode_number r) s" using scan_owned_link [OF T(2) r] .
    then obtain q where "(q, lru_of r) \<in> linked (lru_own (sc_inode_number r) s)"
      using e [of "sc_inode_number r"] by (cases "e (sc_inode_number r)") (auto simp: view_def single_def)
    then show ?thesis using lru_node_rec [of q s] by (simp add: linked_iff own_iff)
  qed
  moreover have "l \<in> lru_of ` scan_recs s" if l: "l \<in> lru_recs s" for l
  proof -
    obtain q where "q \<in> set (inorder (lru_cache_rb_tree s))" "lru_objects s q = Some l"
      using lru_node_of [OF T(3) l] .
    then have "(q, l) \<in> linked (lru_own (lru_inode_number l) s)" by (simp add: linked_iff own_iff)
    then obtain p r where "single p r True (scan_own (lru_inode_number l) s)" "l = lru_of r"
      using e [of "lru_inode_number l"] by (cases "e (lru_inode_number l)") (auto simp: view_def)
    then show ?thesis using scan_owned_rec [OF single_mem] by simp
  qed
  ultimately have "lru_recs s = lru_of ` scan_recs s" by blast
  moreover have "dom (scan_objects s) = set (inorder (scan_cache_rb_tree s))"
    using dom scan_live [OF T(2)] by blast
  ultimately show ?thesis using T by (simp add: cache_inv_def)
qed

text \<open>What the map holds for a settled inode.\<close>

definition entry_of :: "scan_cache_record option \<Rightarrow> (u32 \<times> timespec) option" where
  "entry_of e = map_option (\<lambda>r. (sc_inode_generation r, sc_time_stamp r)) e"

lemma settled_contents:
  assumes T: "scan_table d s" and e: "settled e (view n s)"
  shows "contents s n = entry_of e"
proof (cases e)
  case None
  then have "scan_own n s = {}" using e by (simp add: view_def)
  then have "sc_inode_number r \<noteq> n" if "r \<in> scan_recs s" for r using scan_owned_link [OF T that] by auto
  then have "contents s n \<noteq> Some x" for x using contents_Some_iff [OF T] by (auto simp: scan_entry_def)
  then have "contents s n = None" by (cases "contents s n") blast+
  then show ?thesis using None by (simp add: entry_of_def)
next
  case (Some r)
  then obtain p where "(p, r, True) \<in> scan_own n s" using e by (auto simp: view_def single_def)
  then have "r \<in> scan_recs s" "sc_inode_number r = n" using scan_owned_rec by (auto simp: own_iff)
  then have "contents s n = Some (sc_inode_generation r, sc_time_stamp r)"
    unfolding contents_Some_iff [OF T] by (auto simp: scan_entry_def)
  then show ?thesis using Some by (simp add: entry_of_def)
qed

section \<open>The invariant of all interleavings\<close>

definition separate :: "u32 \<Rightarrow> nat set \<Rightarrow> (nat \<Rightarrow> fileInfo) \<Rightarrow> bool" where
  "separate d T files \<longleftrightarrow> inj_on (\<lambda>i. fi_inode_number (files i)) T \<and>
     (\<forall>i\<in>T. fi_dev_id (files i) = d \<and> uint (fi_inode_number (files i)) < 2 ^ 63)"

text \<open>The inode \<open>n\<close> had the record \<open>e n\<close> when the threads started.\<close>

abbreviation jobs_of :: "(nat \<Rightarrow> fileInfo) \<Rightarrow> (u64 \<Rightarrow> scan_cache_record option) \<Rightarrow> nat \<Rightarrow> fileInfo \<times> scan_cache_record option" where
  "jobs_of files e \<equiv> \<lambda>i. (files i, e (fi_inode_number (files i)))"

abbreviation threads_inv ::
    "kernel_api \<Rightarrow> u32 \<Rightarrow> (u64 \<Rightarrow> scan_cache_record option) \<Rightarrow> nat set \<Rightarrow> (nat \<Rightarrow> fileInfo) \<Rightarrow>
     (nat \<Rightarrow> cache_pc) \<times> cache_state \<Rightarrow> bool" where
  "threads_inv K d e T files \<equiv> owned_inv (\<lambda>s. kernel_ok K \<and> shared d s) view (\<lambda>(f, r) pc v. thread_ok d r f pc v)
     (\<lambda>(f, _). fi_inode_number f) (jobs_of files e) T (\<lambda>n v. settled (e n) v)"

lemma threads_inv_start:
  assumes "kernel_ok K" and "cache_inv d s"
    and "\<And>i. i \<in> T \<Longrightarrow> pcs i \<in> {Removing (Call (files i)), Inserting (Ins_call (files i))}"
  shows "\<exists>e. threads_inv K d e T files (pcs, s) \<and> (\<forall>n. contents s n = entry_of (e n))"
proof -
  obtain e where e: "\<And>n. settled (e n) (view n s)" using cache_inv_settled [OF assms(2)] by metis
  have "thread_ok d (e (fi_inode_number (files i))) (files i) (pcs i) (view (fi_inode_number (files i)) s)" if "i \<in> T" for i
    using assms(3) [OF that] e [of "fi_inode_number (files i)"] by auto
  then have "threads_inv K d e T files (pcs, s)"
    using e assms(1) cache_invD [OF assms(2)] by (simp add: owned_inv_def shared_def)
  then show ?thesis using settled_contents [OF cache_invD(2) [OF assms(2)] e] by blast
qed

section \<open>The number of steps\<close>

fun remove_left :: "remove_pc \<Rightarrow> nat" where
  "remove_left (Call f) = 7"
| "remove_left (Found p) = 6"
| "remove_left (Stamped p ts) = 5"
| "remove_left (Lru_found p q) = 4"
| "remove_left (Lru_unlinked p q) = 3"
| "remove_left (Lru_gone p) = 2"
| "remove_left (Scan_unlinked p) = 1"
| "remove_left (Return b) = 0"

fun insert_left :: "insert_pc \<Rightarrow> nat" where
  "insert_left (Ins_call f) = 13"
| "insert_left (Ins_written p) = 12"
| "insert_left (Ins_linked p) = 4"
| "insert_left (Ins_lru_written p q) = 3"
| "insert_left (Ins_undo p ret) = 2"
| "insert_left (Ins_undo_unlinked p ret) = 1"
| "insert_left (Upd_search p) = 11"
| "insert_left (Upd_none p) = 1"
| "insert_left (Upd_found p a) = 10"
| "insert_left (Upd_replaced p a) = 9"
| "insert_left (Upd_stamped p a ts) = 8"
| "insert_left (Upd_lru_found p a q) = 7"
| "insert_left (Upd_lru_unlinked p a q) = 6"
| "insert_left (Upd_lru_freed p a) = 5"
| "insert_left (Upd_lru_written p a q) = 4"
| "insert_left (Upd_undo p a ret) = 3"
| "insert_left (Upd_undo_unlinked p a ret) = 2"
| "insert_left (Upd_free a ret) = 1"
| "insert_left (Ins_return ret) = 0"

fun steps_left :: "cache_pc \<Rightarrow> nat" where
  "steps_left (Removing pc) = remove_left pc"
| "steps_left (Inserting pc) = insert_left pc"
| "steps_left (Evicting pc) = 0"

lemma remove_left_decreases:
  "remove_step K pc s = Some (pc', s') \<Longrightarrow> remove_left pc \<noteq> 0 \<Longrightarrow> remove_left pc' < remove_left pc"
  by (cases pc) (auto simp: bind_eq_Some_conv split: option.splits)

lemma insert_left_decreases:
  "insert_step K pc s = Some (pc', s') \<Longrightarrow> insert_left pc \<noteq> 0 \<Longrightarrow> insert_left pc' < insert_left pc"
  by (cases pc) (auto simp: bind_eq_Some_conv split: option.splits if_splits)

lemma returned_left: "thread_ok d e f pc v \<Longrightarrow> returned pc \<longleftrightarrow> steps_left pc = 0"
proof (cases pc)
  case (Removing rpc)
  then show ?thesis by (cases rpc) auto
next
  case (Inserting ipc)
  then show ?thesis by (cases ipc) auto
qed auto

lemma steps_left_decreases:
  assumes "thread_ok d e f pc v" and "\<not> returned pc" and "cache_step K pc s = Some (pc', s')"
  shows "steps_left pc' < steps_left pc"
  using assms returned_left [OF assms(1)] remove_left_decreases insert_left_decreases
  by (cases pc) (fastforce simp: bind_eq_Some_conv)+

interpretation cache_threads: owned_threads "cache_step K" returned "\<lambda>s. kernel_ok K \<and> shared d s" view
  "\<lambda>(f, _). fi_dev_id f = d \<and> uint (fi_inode_number f) < 2 ^ 63" "\<lambda>(f, _). fi_inode_number f"
  "\<lambda>(f, r) pc v. thread_ok d r f pc v" steps_left for K d
proof
  fix s j pc
  assume *: "kernel_ok K \<and> shared d s" "case j of (f, _) \<Rightarrow> fi_dev_id f = d \<and> uint (fi_inode_number f) < 2 ^ 63"
    "(case j of (f, r) \<Rightarrow> thread_ok d r f) pc (view (case j of (f, _) \<Rightarrow> fi_inode_number f) s)"
  obtain f r where j: "j = (f, r)" by force
  have "step_ok K d r f pc s" using * every_step_ok by (simp add: j)
  then show "\<exists>pc' s'. cache_step K pc s = Some (pc', s') \<and> (kernel_ok K \<and> shared d s') \<and>
      (case j of (f, r) \<Rightarrow> thread_ok d r f) pc' (view (case j of (f, _) \<Rightarrow> fi_inode_number f) s') \<and>
      (\<forall>n. n \<noteq> (case j of (f, _) \<Rightarrow> fi_inode_number f) \<longrightarrow> view n s' = view n s)"
    using * by (auto simp: step_ok_def effect_def j)
qed (auto intro: steps_left_decreases)

section \<open>Threads at different inodes\<close>

text \<open>What a call returned, and the entry of its inode before and after.\<close>

fun outcome :: "fileInfo \<Rightarrow> cache_pc \<Rightarrow> (u32 \<times> timespec) option \<Rightarrow> (u32 \<times> timespec) option \<Rightarrow> bool" where
  "outcome f (Removing (Return b)) m m' \<longleftrightarrow>
     b = (\<exists>ts. m = Some (fi_inode_generation f, ts)) \<and> m' = (if b then None else m)"
| "outcome f (Inserting (Ins_return ret)) m m' \<longleftrightarrow>
     ret = 0 \<and> (\<exists>ts. timespec_ok ts \<and> m' = Some (fi_inode_generation f, ts)) \<or>
     ret = -1 \<and> m' = None \<or> ret = - ENOMEM \<and> m' = m"
| "outcome f _ m m' \<longleftrightarrow> False"

lemma returned_outcome:
  assumes "returned pc" and "thread_ok d e f pc v"
  shows "\<exists>e'. settled e' v \<and> outcome f pc (entry_of e) (entry_of e')"
proof (cases pc)
  case (Removing rpc)
  then obtain b where b: "pc = Removing (Return b)" using assms(1) by (auto simp: returned_iff)
  moreover have "(\<exists>r. hit e f r) = (\<exists>ts. entry_of e = Some (fi_inode_generation f, ts))"
    by (auto simp: hit_def entry_of_def)
  ultimately show ?thesis
    using assms(2) by (intro exI [of _ "if b then None else e"]) (auto simp: entry_of_def)
next
  case (Inserting ipc)
  then obtain ret where ret: "pc = Inserting (Ins_return ret)" using assms(1) by (auto simp: returned_iff)
  with assms(2) consider (new) r where "ret = 0" "new_ok d f r" "settled (Some r) v" | (gone) "ret = -1" "settled None v"
    | (same) "ret = - ENOMEM" "settled e v" by auto
  then show ?thesis
  proof cases
    case new
    then show ?thesis using ret by (intro exI [of _ "Some r"]) (auto simp: entry_of_def new_ok_def)
  next
    case gone
    then show ?thesis using ret by (intro exI [of _ None]) (auto simp: entry_of_def)
  next
    case same
    then show ?thesis using ret by (intro exI [of _ e]) auto
  qed
qed (use assms(2) in simp)

lemma all_returned:
  assumes I: "threads_inv K d e T files (pcs, s)" and ret: "\<forall>i\<in>T. returned (pcs i)"
  shows "cache_inv d s"
    and "n \<notin> (\<lambda>i. fi_inode_number (files i)) ` T \<Longrightarrow> contents s n = entry_of (e n)"
    and "i \<in> T \<Longrightarrow> outcome (files i) (pcs i) (entry_of (e (fi_inode_number (files i)))) (contents s (fi_inode_number (files i)))"
proof -
  let ?n = "\<lambda>i. fi_inode_number (files i)"
  have C: "shared d s" and ok: "\<And>i. i \<in> T \<Longrightarrow> thread_ok d (e (?n i)) (files i) (pcs i) (view (?n i) s)"
    and rest: "\<And>n. n \<notin> ?n ` T \<Longrightarrow> settled (e n) (view n s)"
    using I by (simp_all add: owned_inv_def)
  have "\<exists>e'. settled e' (view n s)" for n
    using rest [of n] returned_outcome [OF _ ok] ret by (cases "n \<in> ?n ` T") blast+
  then obtain e' where "\<And>n. settled (e' n) (view n s)" by metis
  then show "cache_inv d s" by (rule settled_cache_inv [OF C])
  show "contents s n = entry_of (e n)" if "n \<notin> ?n ` T"
    using settled_contents [OF sharedD(2) [OF C] rest [OF that]] .
  show "outcome (files i) (pcs i) (entry_of (e (?n i))) (contents s (?n i))" if "i \<in> T"
    using returned_outcome [OF _ ok [OF that]] ret that settled_contents [OF sharedD(2) [OF C]] by fastforce
qed

text \<open>
  C5: Threads that insert or remove pairwise different inodes of a device can be interleaved in any
  way. No thread ever faults or is stuck, a run takes at most thirteen steps for each thread, and
  when all of them have returned the cache is well-formed; each inode has the entry that the answer of
  its thread announces (a removal removes exactly what was cached with its generation, an
  insertion that returns 0 leaves a fresh entry, one that returns -1 leaves none, one that runs out
  of memory changes nothing), and the other inodes keep theirs.
\<close>

theorem concurrent_calls_independent:
  assumes "kernel_ok K" and "cache_inv d s" and "finite T" and "separate d T files"
    and "\<And>i. i \<in> T \<Longrightarrow> pcs i \<in> {Removing (Call (files i)), Inserting (Ins_call (files i))}"
    and "(interleave K T ^^ k) (pcs, s) (pcs', s')"
  shows "k \<le> 13 * card T \<and> (\<forall>i\<in>T. cache_step K (pcs' i) s' \<noteq> None) \<and>
     ((\<forall>i\<in>T. returned (pcs' i)) \<longrightarrow>
        cache_inv d s' \<and>
        (\<forall>n. n \<notin> (\<lambda>i. fi_inode_number (files i)) ` T \<longrightarrow> contents s' n = contents s n) \<and>
        (\<forall>i\<in>T. outcome (files i) (pcs' i) (contents s (fi_inode_number (files i)))
           (contents s' (fi_inode_number (files i)))))"
proof -
  obtain e where e: "threads_inv K d e T files (pcs, s)" "\<And>n. contents s n = entry_of (e n)"
    using threads_inv_start [where files = files, OF assms(1,2,5)] by auto
  have legal: "\<forall>i\<in>T. case jobs_of files e i of (f, _) \<Rightarrow> fi_dev_id f = d \<and> uint (fi_inode_number f) < 2 ^ 63"
    and inj: "inj_on (\<lambda>i. case jobs_of files e i of (f, _) \<Rightarrow> fi_inode_number f) T"
    using assms(4) by (simp_all add: separate_def)
  have I: "threads_inv K d e T files (pcs', s')" by (rule cache_threads.inv_reachable [OF legal inj e(1) assms(6)])
  have "steps_left (pcs i) \<le> 13" if "i \<in> T" for i using assms(5) [OF that] by auto
  then have "(\<Sum>i\<in>T. steps_left (pcs i)) \<le> 13 * card T"
    using sum_bounded_above [of T "\<lambda>i. steps_left (pcs i)" 13] by (simp add: mult.commute)
  then have "k \<le> 13 * card T"
    using cache_threads.bounded [OF legal inj e(1) assms(3,6)] by linarith
  moreover have "cache_step K (pcs' i) s' \<noteq> None" if "i \<in> T" for i
    by (rule cache_threads.never_stuck [OF legal I that])
  moreover note ret = all_returned [OF I]
  ultimately show ?thesis
    unfolding e(2) by (intro conjI ballI impI allI) (simp_all add: ret)
qed

lemma interleave_alone_power:
  assumes "i \<in> T" and "run_alone K (pcs i) s = Some (pc', s')"
  obtains k where "(interleave K T ^^ k) (pcs, s) (pcs(i := pc'), s')"
  using interleave_alone [OF assms(1), of K "pcs i" s "(pc', s')" pcs] assms(2) rtranclp_imp_relpowp by fastforce

theorem concurrent_calls_independent_witness:
  "\<exists>k pcs' s'. (interleave ref_kernel {0, 1} ^^ k)
       (\<lambda>i. if i = 0 then Inserting (Ins_call test_file) else Removing (Call (test_file\<lparr>fi_inode_number := 7\<rparr>)), ready_state)
       (pcs', s') \<and>
     k \<le> 26 \<and> pcs' 0 = Inserting (Ins_return 0) \<and> pcs' 1 = Removing (Return False) \<and>
     cache_inv 100 s' \<and> (\<exists>ts. contents s' 1001 = Some (12345, ts)) \<and> contents s' 7 = None"
proof -
  let ?g = "test_file\<lparr>fi_inode_number := 7\<rparr>"
  let ?files = "\<lambda>i::nat. if i = 0 then test_file else ?g"
  let ?pcs = "\<lambda>i::nat. if i = 0 then Inserting (Ins_call test_file) else Removing (Call ?g)"
  let ?pcs1 = "?pcs(1 := Removing (Return False))" and ?pcs' = "?pcs(1 := Removing (Return False), 0 := Inserting (Ins_return 0))"
  have "scan_recs ready_state = {}" by (simp add: scan_recs_def ready_state_eq initial_cache_state_def)
  then have "find_remove_scan_cache_record ref_kernel ?g ready_state = Some (False, ready_state)"
    using find_remove_miss [OF ready_state_inv, of ?g 100] by simp
  then obtain k1 where k1: "(interleave ref_kernel {0, 1} ^^ k1) (?pcs, ready_state) (?pcs1, ready_state)"
    using interleave_alone_power [of 1 "{0, 1}" ref_kernel ?pcs ready_state "Removing (Return False)" ready_state]
    by (auto simp: run_alone_remove)
  obtain s' where "insert_scan_cache_record ref_kernel test_file ready_state = Some (0, s')" using test_insert_ok ..
  then obtain k2 where k2: "(interleave ref_kernel {0, 1} ^^ k2) (?pcs1, ready_state) (?pcs', s')"
    using interleave_alone_power [of 0 "{0, 1}" ref_kernel ?pcs1 ready_state "Inserting (Ins_return 0)" s']
    by (auto simp: run_alone_insert)
  have run: "(interleave ref_kernel {0, 1} ^^ (k1 + k2)) (?pcs, ready_state) (?pcs', s')"
    using k1 k2 by (auto simp: relpowp_add)
  have sep: "separate 100 {0, 1} ?files" by (simp add: separate_def)
  have start: "?pcs i \<in> {Removing (Call (?files i)), Inserting (Ins_call (?files i))}" for i by simp
  note R = concurrent_calls_independent [OF ref_kernel_ok ready_state_inv _ sep start run]
  have "contents ready_state = Map.empty" by simp
  then have "k1 + k2 \<le> 26" "cache_inv 100 s'" "\<exists>ts. contents s' 1001 = Some (12345, ts)" "contents s' 7 = None"
    using R by auto
  then show ?thesis using run by (intro exI [of _ "k1 + k2"] exI [of _ ?pcs'] exI [of _ s']) simp
qed

end
