(* ===== verification/Cache_Races.thy ===== *)
theory Cache_Races
  imports Cache_Threads
begin

text \<open>
  What can go wrong between threads that work on the same entry. The functions of the cache return
  the address of a record and release the lock before the caller uses it, and they change the two
  trees in separate sections. Two removals of one inode, or an eviction and a removal of the oldest
  entry, can reach a use after free; an insertion and a removal of one inode can both report success
  and leave an LRU record without a scan record, at which every later eviction stops.
\<close>

section \<open>A cache with one entry\<close>

lemma cached_test_file:
  obtains s1 where "cache_inv 100 s1" "contents s1 = [1001 \<mapsto> (12345, ref_time 3)]"
proof -
  have none: "others i ready_state = {}" for i
    by (simp add: others_def scan_recs_def ready_state_eq initial_cache_state_def)
  obtain s1 where s1: "cache_inv 100 s1" "scan_recs s1 = insert (new_record ref_kernel test_file ready_state) {}"
    using insert_scan_correct [OF ref_kernel_ok ready_state_inv, of test_file 100 1]
    by (auto simp: ref_lru_room none)
  have "contents s1 = (contents ready_state)(sc_inode_number (new_record ref_kernel test_file ready_state) \<mapsto>
      (sc_inode_generation (new_record ref_kernel test_file ready_state),
       sc_time_stamp (new_record ref_kernel test_file ready_state)))"
    by (rule contents_insert [OF cache_invD(2) [OF ready_state_inv] cache_invD(2) [OF s1(1)]])
      (simp add: s1(2) none [unfolded others_def])
  then show thesis using that s1(1) by simp
qed

section \<open>Two removals of one inode\<close>

lemma remove_scan_dead:
  "remove_scan_cache_record K (Some p) s = Some s' \<Longrightarrow> scan_objects s' p = None"
  by (auto simp: remove_scan_split kmem_cache_free_scan_def heap_free_def bind_eq_Some_conv split: option.splits)

lemma interleave_step:
  assumes "(interleave K T)\<^sup>*\<^sup>* c (pcs, s)" and "i \<in> T" and "\<not> returned (pcs i)"
    and "cache_step K (pcs i) s = Some (pc', s')"
  shows "(interleave K T)\<^sup>*\<^sup>* c (pcs(i := pc'), s')"
  using assms by (auto intro: rtranclp.rtrancl_into_rtrancl thread)

lemma interleave_start:
  assumes "i \<in> T" and "\<not> returned (pcs i)" and "cache_step K (pcs i) s = Some (pc', s')"
  shows "(interleave K T)\<^sup>*\<^sup>* (pcs, s) (pcs(i := pc'), s')"
  by (rule interleave_step [where pcs = pcs and s = s]) (use assms in simp_all)

lemma interleave_remove:
  assumes "(interleave K T)\<^sup>*\<^sup>* c (pcs, s)" and "i \<in> T" and "pcs i = Removing (Call f)"
    and "find_remove_scan_cache_record K f s = Some (b, s')"
  shows "(interleave K T)\<^sup>*\<^sup>* c (pcs(i := Removing (Return b)), s')"
  using assms(1) interleave_alone [OF assms(2), of K "Removing (Call f)" s "(Removing (Return b), s')" pcs] assms(3,4)
  by (simp add: run_alone_remove)

text \<open>
  C40: Two threads that remove the same cached inode can collide: while the second one
  has found the record and not read it yet, the first one runs to its end and frees it. The
  next step of the second thread reads freed memory. This is possible from every well-formed
  cache that holds the inode.
\<close>

theorem concurrent_removal_use_after_free:
  assumes "kernel_ok K" and "cache_inv d s" and "fi_dev_id f = d" and "uint (fi_inode_number f) < 2 ^ 63"
    and "contents s (fi_inode_number f) = Some (fi_inode_generation f, ts)"
    and "i \<in> T" and "j \<in> T" and "i \<noteq> j" and "pcs i = Removing (Call f)" and "pcs j = Removing (Call f)"
  shows "\<exists>pcs' s' p. (interleave K T)\<^sup>*\<^sup>* (pcs, s) (pcs', s') \<and> pcs' i = Removing (Return True) \<and>
     pcs' j = Removing (Found p) \<and> scan_objects s' p = None \<and> cache_step K (pcs' j) s' = None"
proof -
  note D = cache_invD [OF assms(2)]
  obtain r where r: "r \<in> scan_recs s" "sc_inode_number r = fi_inode_number f" "sc_inode_generation r = fi_inode_generation f"
    using assms(5) contents_Some_iff [OF D(2)] by (auto simp: scan_entry_def)
  obtain p where p: "p \<in> set (inorder (scan_cache_rb_tree s))" "scan_objects s p = Some r"
    using scan_node_of [OF D(2) r(1)] .
  have hit: "find_scan_cache_record (Some (file_key f)) s = Some (Some p, s)"
    using find_scan_hit [OF D(1,2) p file_key_ok [OF assms(3,4)]] r by (simp add: file_key_def)
  have "(interleave K T)\<^sup>*\<^sup>* (pcs, s) (pcs(j := Removing (Found p)), s)"
    by (rule interleave_start [OF assms(7)]) (use hit assms(10) in \<open>simp_all add: file_key_def\<close>)
  moreover obtain s' where s': "find_remove_scan_cache_record K f s = Some (True, s')"
    using find_remove_hit [OF assms(1-4) r] by blast
  then have dead: "scan_objects s' p = None"
    using hit p(2) by (auto simp: find_remove_scan_cache_record_def file_key_def bind_eq_Some_conv
        split: prod.splits dest: remove_scan_dead)
  ultimately have "(interleave K T)\<^sup>*\<^sup>* (pcs, s) ((pcs(j := Removing (Found p)))(i := Removing (Return True)), s')"
    using interleave_remove [OF _ assms(6) _ s'] assms(8,9) by simp
  then show ?thesis
    using dead assms(8) by (intro exI [of _ "(pcs(j := Removing (Found p)))(i := Removing (Return True))"]) auto
qed

theorem concurrent_removal_use_after_free_witness:
  "\<exists>s pcs' s' p. (interleave ref_kernel {0, 1})\<^sup>*\<^sup>* (\<lambda>_. Removing (Call test_file), s) (pcs', s') \<and>
     pcs' 0 = Removing (Return True) \<and> pcs' 1 = Removing (Found p) \<and> scan_objects s' p = None"
proof -
  obtain s1 where "cache_inv 100 s1" "contents s1 = [1001 \<mapsto> (12345, ref_time 3)]" by (rule cached_test_file)
  from concurrent_removal_use_after_free [OF ref_kernel_ok this(1), of test_file "ref_time 3" 0 "{0, 1}" 1
      "\<lambda>_. Removing (Call test_file)"] this(2)
  have "\<exists>pcs' s' p. (interleave ref_kernel {0, 1})\<^sup>*\<^sup>* (\<lambda>_. Removing (Call test_file), s1) (pcs', s') \<and>
     pcs' 0 = Removing (Return True) \<and> pcs' 1 = Removing (Found p) \<and> scan_objects s' p = None \<and>
     cache_step ref_kernel (pcs' 1) s' = None"
    by simp
  then show ?thesis by blast
qed

section \<open>An eviction and a removal\<close>

lemma remove_lru_dead:
  "remove_lru_cache_record K (Some q) s = Some s' \<Longrightarrow> lru_objects s' q = None"
  by (auto simp: remove_lru_split kmem_cache_free_lru_def heap_free_def bind_eq_Some_conv split: option.splits)

lemma remove_scan_keeps_lru:
  "remove_scan_cache_record K (Some p) s = Some s' \<Longrightarrow> lru_objects s' = lru_objects s"
  by (auto simp: remove_scan_split unlink_scan_def kmem_cache_free_scan_def lock_defs bind_eq_Some_conv split: if_splits)

lemma find_remove_kills_lru:
  assumes I: "cache_inv d s" and f: "fi_dev_id f = d" "uint (fi_inode_number f) < 2 ^ 63"
    and r: "r \<in> scan_recs s" "sc_inode_number r = fi_inode_number f" "sc_inode_generation r = fi_inode_generation f"
    and q: "q \<in> set (inorder (lru_cache_rb_tree s))" "lru_objects s q = Some (lru_of r)"
    and call: "find_remove_scan_cache_record K f s = Some (b, s')"
  shows "lru_objects s' q = None"
proof -
  note D = cache_invD [OF I]
  obtain p where p: "p \<in> set (inorder (scan_cache_rb_tree s))" "scan_objects s p = Some r"
    using scan_node_of [OF D(2) r(1)] .
  have hit: "find_scan_cache_record (Some (file_key f)) s = Some (Some p, s)"
    using find_scan_hit [OF D(1,2) p file_key_ok [OF f]] r by (simp add: file_key_def)
  have lru: "find_lru_cache_record (Some \<lparr>lru_key_time_stamp = sc_time_stamp r\<rparr>) s = Some (Some q, s)"
    using find_lru_hit [OF D(1,3) q] by (simp add: lru_time_of)
  obtain s1 where "remove_lru_cache_record K (Some q) s = Some s1" "remove_scan_cache_record K (Some p) s1 = Some s'"
    using call hit lru p(2)
    by (auto simp: find_remove_scan_cache_record_def find_remove_lru_cache_record_def file_key_def bind_eq_Some_conv)
  then show ?thesis using remove_lru_dead remove_scan_keeps_lru by metis
qed

text \<open>
  An evicting thread that has taken the address of the oldest LRU record reads it without a lock;
  a thread that removes that entry in between frees it.
\<close>

theorem eviction_use_after_free:
  assumes "kernel_ok K" and "cache_inv d s" and "lru_order s = l # ls"
    and "fi_dev_id f = lru_dev_id l" and "fi_inode_number f = lru_inode_number l"
    and "fi_inode_generation f = lru_inode_generation l"
    and "i \<in> T" and "j \<in> T" and "i \<noteq> j" and "pcs i = Removing (Call f)" and "pcs j = Evicting (Ev_call n)" and "0 < n"
  shows "\<exists>pcs' s' p. (interleave K T)\<^sup>*\<^sup>* (pcs, s) (pcs', s') \<and> pcs' i = Removing (Return True) \<and>
     pcs' j = Evicting (Ev_first n 0 p) \<and> lru_objects s' p = None \<and> cache_step K (pcs' j) s' = None"
proof -
  note D = cache_invD [OF assms(2)]
  obtain q qs where q: "inorder (lru_cache_rb_tree s) = q # qs" "lru_objects s q = Some l"
  proof -
    obtain q qs where q: "inorder (lru_cache_rb_tree s) = q # qs" "the (lru_objects s q) = l"
      using assms(3) unfolding lru_order_def by (cases "inorder (lru_cache_rb_tree s)") auto
    moreover have "lru_objects s q \<noteq> None" using lru_live [OF D(3), of q] q(1) by auto
    ultimately show thesis using that by auto
  qed
  then obtain r where r: "r \<in> scan_recs s" "l = lru_of r"
    using lru_node_rec [of q s l] D(5) by auto
  have ok: "scan_record_ok d r" by (rule cache_inv_record_ok(1) [OF assms(2) r(1)])
  have f: "fi_dev_id f = d" "uint (fi_inode_number f) < 2 ^ 63" "sc_inode_number r = fi_inode_number f"
    "sc_inode_generation r = fi_inode_generation f"
    using ok r(2) assms(4-6) by (simp_all add: lru_of_def scan_record_ok_def)
  let ?first = "pcs(j := Evicting (Ev_first n 0 q))"
  have ne: "lru_cache_rb_tree s \<noteq> \<langle>\<rangle>" using q(1) by auto
  have "(interleave K T)\<^sup>*\<^sup>* (pcs, s) (pcs(j := Evicting (Ev_loop n 0)), s)"
    by (rule interleave_start [OF assms(8)]) (use assms(11,12) in simp_all)
  from interleave_step [OF this assms(8), of "Evicting (Ev_nonempty n 0)" s] ne
  have "(interleave K T)\<^sup>*\<^sup>* (pcs, s) (pcs(j := Evicting (Ev_nonempty n 0)), s)" by (simp add: RB_EMPTY_ROOT_def)
  from interleave_step [OF this assms(8), of "Evicting (Ev_first n 0 q)" s]
  have "(interleave K T)\<^sup>*\<^sup>* (pcs, s) (?first, s)"
    using q(1) by (simp add: RB_FIRST_inorder [OF kernel_ok_rb [OF assms(1)]])
  moreover obtain s' where s': "find_remove_scan_cache_record K f s = Some (True, s')"
    using find_remove_hit [OF assms(1,2) f(1,2) r(1) f(3,4)] by blast
  moreover have dead: "lru_objects s' q = None"
    using find_remove_kills_lru [OF assms(2) f(1,2) r(1) f(3,4) _ _ s'] q r(2) by simp
  ultimately have "(interleave K T)\<^sup>*\<^sup>* (pcs, s) (?first(i := Removing (Return True)), s')"
    using interleave_remove [OF _ assms(7) _ s'] assms(9,10) by simp
  then show ?thesis
    using dead assms(9) by (intro exI [of _ "?first(i := Removing (Return True))"]) auto
qed

section \<open>An insertion and a removal of one inode\<close>

lemma inorder_single: "inorder t = [a] \<Longrightarrow> t = \<langle>\<langle>\<rangle>, a, \<langle>\<rangle>\<rangle>"
  by (cases t) (auto simp: append_eq_Cons_conv)

lemma RB_INSERT_Leaf:
  assumes "rb_lib_ok L"
  shows "RB_INSERT L \<langle>\<rangle> a c = Some (0, \<langle>\<langle>\<rangle>, a, \<langle>\<rangle>\<rangle>)"
proof -
  have "rb_link_node L a [] \<langle>\<rangle> = \<langle>\<langle>\<rangle>, a, \<langle>\<rangle>\<rangle>" using assms by (simp add: rb_lib_ok_def)
  moreover have "rb_insert_color L a \<langle>\<langle>\<rangle>, a, \<langle>\<rangle>\<rangle> = \<langle>\<langle>\<rangle>, a, \<langle>\<rangle>\<rangle>"
    using assms by (intro inorder_single) (simp add: rb_lib_ok_def)
  ultimately show ?thesis by (simp add: RB_INSERT_def)
qed

lemma rb_erase_single: "rb_lib_ok L \<Longrightarrow> rb_erase L a \<langle>\<langle>\<rangle>, a, \<langle>\<rangle>\<rangle> = \<langle>\<rangle>"
  using inorder_rb_erase [of L "\<langle>\<langle>\<rangle>, a, \<langle>\<rangle>\<rangle>" a] by simp

definition vacant :: "cache_state \<Rightarrow> bool" where
  "vacant s \<longleftrightarrow> quiescent s \<and> scan_cache_rb_tree s = \<langle>\<rangle> \<and> lru_cache_rb_tree s = \<langle>\<rangle> \<and> scan_objects s = Map.empty"

lemma cache_inv_vacant:
  assumes I: "cache_inv d s" and "contents s = Map.empty"
  shows "vacant s"
proof -
  note D = cache_invD [OF I]
  have none: "scan_recs s = {}" using assms(2) contents_Some_iff [OF D(2)] by (auto simp: scan_entry_def)
  then have "scan_cache_rb_tree s = \<langle>\<rangle>" by (simp add: scan_recs_def recs_def)
  moreover have "lru_cache_rb_tree s = \<langle>\<rangle>" using none D(5) by (simp add: lru_recs_def recs_def)
  ultimately show ?thesis using D(1,4) by (simp add: vacant_def)
qed

text \<open>The state of the cache when the insertion has linked its scan record and prepared its LRU record.\<close>

definition half_inserted :: "kernel_api \<Rightarrow> fileInfo \<Rightarrow> addr \<Rightarrow> addr \<Rightarrow> cache_state \<Rightarrow> cache_state" where
  "half_inserted K f p q s = s\<lparr>scan_objects := [p \<mapsto> new_record K f s],
     lru_objects := (lru_objects s)(q \<mapsto> lru_of (new_record K f s)),
     scan_cache_rb_tree := \<langle>\<langle>\<rangle>, p, \<langle>\<rangle>\<rangle>, ticks := Suc (Suc (Suc (ticks s)))\<rparr>"

lemma write_lru_alloc:
  assumes "quiescent s" and "kmem_cache_alloc K Lru_slab (ticks s) (\<lambda>a. lru_objects s a \<noteq> None) = Some q"
  shows "write_lru K r s = Some (Some q, s\<lparr>lru_objects := (lru_objects s)(q \<mapsto> lru_of r), ticks := Suc (ticks s)\<rparr>)"
proof -
  have full: "l\<lparr>lru_time_stamp := sc_time_stamp r, lru_dev_id := sc_dev_id r,
      lru_inode_number := sc_inode_number r, lru_inode_generation := sc_inode_generation r\<rparr> = lru_of r" for l
    by (cases l) (simp add: lru_of_def)
  show ?thesis using assms by (simp add: write_lru_def lru_cache_alloc_def quiescent_def full)
qed

lemma half_insertion:
  assumes K: "kernel_ok K" and V: "vacant s"
    and p: "kmem_cache_alloc K Scan_slab (ticks s) (\<lambda>a. scan_objects s a \<noteq> None) = Some p"
    and q: "kmem_cache_alloc K Lru_slab (Suc (Suc (ticks s))) (\<lambda>a. lru_objects s a \<noteq> None) = Some q"
    and i: "i \<in> T" "pcs i = Inserting (Ins_call f)"
  shows "(interleave K T)\<^sup>*\<^sup>* (pcs, s) (pcs(i := Inserting (Ins_lru_written p q)), half_inserted K f p q s)"
proof -
  let ?s1 = "written K f p s"
  let ?s2 = "?s1\<lparr>scan_cache_rb_tree := \<langle>\<langle>\<rangle>, p, \<langle>\<rangle>\<rangle>\<rparr>"
  have "write_scan K f s = Some (Some p, ?s1)"
    using p V by (simp add: write_scan_def scan_cache_alloc_def vacant_def quiescent_def get_time_stamp_def
        written_def new_record_def)
  then have "(interleave K T)\<^sup>*\<^sup>* (pcs, s) (pcs(i := Inserting (Ins_written p)), ?s1)"
    by (intro interleave_start [OF i(1)]) (use i(2) in simp_all)
  moreover have "link_scan K p ?s1 = Some (0, ?s2)"
    using V by (simp add: link_scan_def vacant_def quiescent_def lock_defs written_def
        RB_INSERT_Leaf [OF kernel_ok_rb [OF K]])
  ultimately have "(interleave K T)\<^sup>*\<^sup>* (pcs, s) (pcs(i := Inserting (Ins_linked p)), ?s2)"
    using interleave_step [OF _ i(1), of K _ "pcs(i := Inserting (Ins_written p))" ?s1 "Inserting (Ins_linked p)" ?s2] by simp
  moreover have "write_lru K (new_record K f s) ?s2 = Some (Some q, half_inserted K f p q s)"
    using write_lru_alloc [of ?s2 K q] q V
    by (simp add: vacant_def quiescent_def written_def half_inserted_def)
  ultimately show ?thesis
    using interleave_step [OF _ i(1), of K _ "pcs(i := Inserting (Ins_linked p))" ?s2
        "Inserting (Ins_lru_written p q)" "half_inserted K f p q s"]
    by (simp add: written_def)
qed

lemma remove_half_inserted:
  assumes K: "kernel_ok K" and V: "vacant s"
  shows "find_remove_scan_cache_record K f (half_inserted K f p q s) =
     Some (True, (half_inserted K f p q s)\<lparr>scan_objects := Map.empty, scan_cache_rb_tree := \<langle>\<rangle>\<rparr>)"
proof -
  let ?s = "half_inserted K f p q s"
  have "scan_cache_find_compare_table (Some (file_key f)) (Some (new_record K f s)) = 0"
    by (simp add: scan_cache_find_compare_zero file_key_def difference_u64_def)
  then have "find_scan_cache_record (Some (file_key f)) ?s = Some (Some p, ?s)"
    using V by (simp add: find_scan_cache_record_def half_inserted_def vacant_def quiescent_def lock_defs)
  moreover have "find_lru_cache_record (Some \<lparr>lru_key_time_stamp = ts\<rparr>) ?s = Some (None, ?s)" for ts
    using V by (simp add: find_lru_cache_record_def half_inserted_def vacant_def quiescent_def lock_defs)
  moreover have "remove_scan_cache_record K (Some p) ?s = Some (?s\<lparr>scan_objects := Map.empty, scan_cache_rb_tree := \<langle>\<rangle>\<rparr>)"
    using V by (simp add: remove_scan_cache_record_def half_inserted_def vacant_def quiescent_def lock_defs RB_REMOVE_def
        rb_erase_single [OF kernel_ok_rb [OF K]] kmem_cache_free_scan_def heap_simps)
  moreover have "scan_objects ?s p = Some (new_record K f s)" by (simp add: half_inserted_def)
  ultimately show ?thesis
    by (simp add: find_remove_scan_cache_record_def find_remove_lru_cache_record_def file_key_def)
qed

text \<open>An LRU record without a scan record ends every eviction.\<close>

lemma evict_dangling:
  assumes K: "kernel_ok K" and "quiescent s" and "scan_cache_rb_tree s = \<langle>\<rangle>" and "lru_cache_rb_tree s = \<langle>\<langle>\<rangle>, q, \<langle>\<rangle>\<rangle>"
    and "lru_objects s q = Some l"
  shows "remove_cache_entry K n s = Some s"
  using assms RB_FIRST_inorder [OF kernel_ok_rb [OF K], of "\<langle>\<langle>\<rangle>, q, \<langle>\<rangle>\<rangle>"]
  by (simp add: remove_cache_entry_def remove_cache_entry_loop.simps [of K n 0 s] RB_EMPTY_ROOT_def
      find_scan_cache_record_def lock_defs quiescent_def)

text \<open>
  C39: An insertion and a removal of the same inode can both report success and still break the
  cache: when the removal runs after the insertion has linked its scan record and before it links its
  LRU record, the removal finds no LRU record to take out, and the insertion then links one for an inode
  that is no longer cached. The cache is empty, but its LRU tree is not, and from then on
  \<open>remove_cache_entry\<close> stops at that record and evicts nothing, whatever the number it is asked for.
\<close>

theorem insert_remove_race_stops_eviction:
  assumes "kernel_ok K" and "cache_inv d s" and "contents s = Map.empty"
    and "kmem_cache_alloc K Scan_slab (ticks s) (\<lambda>a. scan_objects s a \<noteq> None) = Some p"
    and "kmem_cache_alloc K Lru_slab (Suc (Suc (ticks s))) (\<lambda>a. lru_objects s a \<noteq> None) = Some q"
    and "i \<in> T" and "j \<in> T" and "i \<noteq> j" and "pcs i = Inserting (Ins_call f)" and "pcs j = Removing (Call f)"
  shows "\<exists>pcs' s'. (interleave K T)\<^sup>*\<^sup>* (pcs, s) (pcs', s') \<and>
     pcs' i = Inserting (Ins_return 0) \<and> pcs' j = Removing (Return True) \<and>
     contents s' = Map.empty \<and> lru_order s' = [lru_of (new_record K f s)] \<and> (\<forall>n. remove_cache_entry K n s' = Some s')"
proof -
  have V: "vacant s" by (rule cache_inv_vacant [OF assms(2,3)])
  let ?s3 = "half_inserted K f p q s" and ?p1 = "pcs(i := Inserting (Ins_lru_written p q))"
  let ?s5 = "?s3\<lparr>scan_objects := Map.empty, scan_cache_rb_tree := \<langle>\<rangle>\<rparr>" and ?p2 = "?p1(j := Removing (Return True))"
  let ?s6 = "?s5\<lparr>lru_cache_rb_tree := \<langle>\<langle>\<rangle>, q, \<langle>\<rangle>\<rangle>\<rparr>" and ?p3 = "?p2(i := Inserting (Ins_return 0))"
  have "(interleave K T)\<^sup>*\<^sup>* (pcs, s) (?p1, ?s3)" by (rule half_insertion [OF assms(1) V assms(4,5,6)]) (rule assms(9))
  then have "(interleave K T)\<^sup>*\<^sup>* (pcs, s) (?p2, ?s5)"
    by (rule interleave_remove [OF _ assms(7) _ remove_half_inserted [OF assms(1) V]]) (use assms(8,10) in simp)
  moreover have "cache_step K (Inserting (Ins_lru_written p q)) ?s5 = Some (Inserting (Ins_return 0), ?s6)"
    using V by (simp add: link_lru_def half_inserted_def vacant_def quiescent_def lock_defs
        RB_INSERT_Leaf [OF kernel_ok_rb [OF assms(1)]])
  ultimately have "(interleave K T)\<^sup>*\<^sup>* (pcs, s) (?p3, ?s6)"
    by (intro interleave_step [OF _ assms(6)]) (use assms(8) in \<open>simp_all del: cache_step.simps\<close>)
  moreover have "quiescent ?s6" using V by (simp add: half_inserted_def vacant_def quiescent_def)
  then have "remove_cache_entry K n ?s6 = Some ?s6" for n
    by (rule evict_dangling [OF assms(1), where q = q and l = "lru_of (new_record K f s)"]) (simp_all add: half_inserted_def)
  moreover have "contents ?s6 = Map.empty" "lru_order ?s6 = [lru_of (new_record K f s)]"
    by (simp_all add: contents_def lru_order_def half_inserted_def)
  ultimately show ?thesis using assms(8) by (intro exI [of _ ?p3] exI [of _ ?s6]) simp
qed

theorem insert_remove_race_stops_eviction_witness:
  "\<exists>pcs' s'. (interleave ref_kernel {0, 1})\<^sup>*\<^sup>*
       (\<lambda>i. if i = 0 then Inserting (Ins_call test_file) else Removing (Call test_file), ready_state) (pcs', s') \<and>
     pcs' 0 = Inserting (Ins_return 0) \<and> pcs' 1 = Removing (Return True) \<and>
     contents s' = Map.empty \<and> (\<forall>n. remove_cache_entry ref_kernel n s' = Some s')"
  using insert_remove_race_stops_eviction [OF ref_kernel_ok ready_state_inv, of 1 1 0 "{0, 1}" 1
      "\<lambda>i. if i = 0 then Inserting (Ins_call test_file) else Removing (Call test_file)" test_file]
  by (simp del: fun_upd_apply) blast

end
