(* ===== verification/Cache_Handwritten.thy ===== *)
theory Cache_Handwritten
  imports Scan_Cache
begin

text \<open>
  The tree functions that \<^verbatim>\<open>cache.c\<close> had before the generic macros of \<^verbatim>\<open>cache.h\<close>. They are
  still in the file, between \<^verbatim>\<open>#if 0\<close> and \<^verbatim>\<open>#endif\<close> (lines 235 to 328), and not compiled.
  The lemmas show that replacing them by the macros changed nothing: insertion, removal and
  search are the macros at the comparison functions of the scan tree, and
  \<open>find_update_in_tree\<close> is a search, a replacement and a free. What the function that took
  its place does in addition is to keep the LRU tree in step.
\<close>

section \<open>The functions\<close>

text \<open>
  The cursor \<open>new\<close> of the insertion, a \<^verbatim>\<open>struct rb_node **\<close>, is the path from the root to
  the child slot it points to, grown at its end by each step; \<open>t\<close> is the subtree found there.
  A result \<open>None\<close> inside is \<^verbatim>\<open>goto out\<close>. The cursor determines \<open>parent\<close>.
\<close>

fun insert_descent :: "(addr \<Rightarrow> int option) \<Rightarrow> rb_dir list \<Rightarrow> addr tree \<Rightarrow> rb_dir list option option" where
  "insert_descent compare new \<langle>\<rangle> = Some (Some new)"
| "insert_descent compare new \<langle>l, this, r\<rangle> = do {
     result \<leftarrow> compare this;
     if result < 0 then insert_descent compare (new @ [Rb_left]) l
     else if result > 0 then insert_descent compare (new @ [Rb_right]) r
     else Some None }"

definition insert_in_rb_tree ::
    "rb_lib \<Rightarrow> addr tree \<Rightarrow> addr \<Rightarrow> cache_state \<Rightarrow> (int \<times> addr tree) option" where
  "insert_in_rb_tree L root scan_cache_record_ptr s = do {
     new \<leftarrow> insert_descent
        (\<lambda>this. do { r \<leftarrow> scan_objects s scan_cache_record_ptr; q \<leftarrow> scan_objects s this;
                     Some (scan_cache_insert_compare_table (Some r) (Some q)) }) [] root;
     case new of
       None \<Rightarrow> Some (-1, root)
     | Some slot \<Rightarrow> do {
         let root = rb_link_node L scan_cache_record_ptr slot root;
         let root = rb_insert_color L scan_cache_record_ptr root;
         Some (0, root) } }"

text \<open>As for the macros, erasing a node that is not in the tree is a fault.\<close>

definition remove_in_rb_tree :: "rb_lib \<Rightarrow> addr tree \<Rightarrow> addr \<Rightarrow> addr tree option" where
  "remove_in_rb_tree L root scan_cache_record_ptr =
     (if scan_cache_record_ptr \<in> set (inorder root)
      then Some (rb_erase L scan_cache_record_ptr root) else None)"

fun find_in_rb_tree ::
    "addr tree \<Rightarrow> scan_cache_record_compare \<Rightarrow> cache_state \<Rightarrow> addr option option" where
  "find_in_rb_tree \<langle>\<rangle> keyPtr s = Some None"
| "find_in_rb_tree \<langle>l, search_data, r\<rangle> keyPtr s = do {
     q \<leftarrow> scan_objects s search_data;
     let result = scan_cache_find_compare_table (Some keyPtr) (Some q);
     if result < 0 then find_in_rb_tree l keyPtr s
     else if result > 0 then find_in_rb_tree r keyPtr s
     else Some (Some search_data) }"

text \<open>The loop of \<open>find_update_in_tree\<close>; \<open>node\<close> is \<open>rb_search_node\<close>, a subtree of \<open>root\<close>.\<close>

fun find_update_loop ::
    "rb_lib \<Rightarrow> addr tree \<Rightarrow> addr tree \<Rightarrow> addr \<Rightarrow> cache_state \<Rightarrow> (int \<times> addr tree \<times> cache_state) option"
where
  "find_update_loop L root \<langle>\<rangle> new s = Some (-1, root, s)"
| "find_update_loop L root \<langle>l, search_data, r\<rangle> new s = do {
     n \<leftarrow> scan_objects s new;
     q \<leftarrow> scan_objects s search_data;
     let result = scan_cache_insert_compare_table (Some n) (Some q);
     if result < 0 then find_update_loop L root l new s
     else if result > 0 then find_update_loop L root r new s
     else if new \<in> set (inorder root) then None
     else do {
       let root = rb_replace_node L search_data new root;
       s \<leftarrow> kmem_cache_free_scan search_data s;
       Some (0, root, s) } }"

definition find_update_in_tree ::
    "rb_lib \<Rightarrow> addr tree \<Rightarrow> addr \<Rightarrow> cache_state \<Rightarrow> (int \<times> addr tree \<times> cache_state) option" where
  "find_update_in_tree L root new_scan_cache_record_ptr s =
     find_update_loop L root root new_scan_cache_record_ptr s"

section \<open>Equivalence with the macros\<close>

definition slot_of_walk :: "rb_dir list \<Rightarrow> rb_slot \<Rightarrow> rb_dir list option" where
  "slot_of_walk new w = (case w of Dup \<Rightarrow> None | Slot p \<Rightarrow> Some (new @ p))"

lemma slot_of_walk_step [simp]:
  "slot_of_walk new (step_dir d w) = slot_of_walk (new @ [d]) w"
  by (cases w) (simp_all add: slot_of_walk_def)

lemma insert_descent_walk:
  "insert_descent c new t = map_option (slot_of_walk new) (RB_INSERT_walk c t)"
proof (induction c new t rule: insert_descent.induct)
  case (2 c new l this r)
  then show ?case
    by (cases "c this")
      (auto simp: slot_of_walk_def [of _ Dup] option.map_comp comp_def)
qed (simp add: slot_of_walk_def)

lemma find_update_loop_search:
  assumes "set (inorder t) \<subseteq> set (inorder root)"
  shows "find_update_loop L root t new s = do {
     found \<leftarrow> RB_SEARCH t
        (\<lambda>this. do { n \<leftarrow> scan_objects s new; q \<leftarrow> scan_objects s this;
                     Some (scan_cache_insert_compare_table (Some n) (Some q)) });
     case found of
       None \<Rightarrow> Some (-1, root, s)
     | Some old \<Rightarrow> do {
         root' \<leftarrow> RB_REPLACE L root old new;
         s \<leftarrow> kmem_cache_free_scan old s;
         Some (0, root', s) } }"
  using assms
proof (induction t)
  case (Node l a r)
  then show ?case
    by (cases "scan_objects s new"; cases "scan_objects s a") (auto simp: RB_REPLACE_def Let_def)
qed simp

text \<open>
  Each function of the block is the macro that replaced it, for every tree and every state of
  the records, whether or not the comparison is an order, with the same faults.
\<close>

theorem handwritten_tree_functions_equivalent:
  "insert_in_rb_tree L root p s =
     RB_INSERT L root p
       (\<lambda>this. do { r \<leftarrow> scan_objects s p; q \<leftarrow> scan_objects s this;
                    Some (scan_cache_insert_compare_table (Some r) (Some q)) }) \<and>
   remove_in_rb_tree L root p = RB_REMOVE L root p \<and>
   find_in_rb_tree root key s =
     RB_SEARCH root
       (\<lambda>this. do { q \<leftarrow> scan_objects s this;
                    Some (scan_cache_find_compare_table (Some key) (Some q)) }) \<and>
   find_update_in_tree L root p s = do {
     found \<leftarrow> RB_SEARCH root
        (\<lambda>this. do { n \<leftarrow> scan_objects s p; q \<leftarrow> scan_objects s this;
                     Some (scan_cache_insert_compare_table (Some n) (Some q)) });
     case found of
       None \<Rightarrow> Some (-1, root, s)
     | Some old \<Rightarrow> do {
         root' \<leftarrow> RB_REPLACE L root old p;
         s \<leftarrow> kmem_cache_free_scan old s;
         Some (0, root', s) } }"
proof (intro conjI)
  show "insert_in_rb_tree L root p s =
     RB_INSERT L root p
       (\<lambda>this. do { r \<leftarrow> scan_objects s p; q \<leftarrow> scan_objects s this;
                    Some (scan_cache_insert_compare_table (Some r) (Some q)) })"
    by (auto simp: insert_in_rb_tree_def RB_INSERT_def insert_descent_walk slot_of_walk_def Let_def
        bind_map_option comp_def split: rb_slot.split Option.bind_split)
  show "find_in_rb_tree root key s =
     RB_SEARCH root
       (\<lambda>this. do { q \<leftarrow> scan_objects s this;
                    Some (scan_cache_find_compare_table (Some key) (Some q)) })"
    by (induction root) (auto simp: Let_def split: Option.bind_split)
qed (simp_all add: remove_in_rb_tree_def RB_REMOVE_def find_update_in_tree_def
    find_update_loop_search)

end
