(* ===== verification/Cache_Test.thy ===== *)
theory Cache_Test
  imports Cache_Properties
begin

text \<open>
  The test module \<^verbatim>\<open>RedBlack_Cache_LRU_Implementation_Kernel/src/rbtree_test.c\<close>: eight
  insertions, the first and the last record, an in-order iteration, one removal and a second
  iteration. The log messages are the result of the model; a \<^verbatim>\<open>kzalloc\<close> that fails skips
  its block, which the argument \<open>kzalloc_ok\<close> decides for each of the nine calls.
\<close>

section \<open>Model\<close>

datatype rb_log =
    Fail_to_insert u64
  | First scan_cache_record
  | Last scan_cache_record
  | Next scan_cache_record
  | Fail_to_delete fileInfo

definition test_info :: "u32 \<Rightarrow> u64 \<Rightarrow> u32 \<Rightarrow> fileInfo" where
  "test_info dv ino gen = \<lparr>fi_dev_id = dv, fi_inode_number = ino, fi_inode_generation = gen\<rparr>"

definition rb_test_files :: "fileInfo list" where
  "rb_test_files =
     [test_info 100 1001 12345, test_info 100 1009 12346, test_info 100 1003 12347,
      test_info 100 1002 12348, test_info 100 1006 12349, test_info 99 1006 12351,
      test_info 98 1006 12352, test_info 100 1006 12350]"

fun rb_test_inserts ::
    "kernel_api \<Rightarrow> (nat \<Rightarrow> bool) \<Rightarrow> nat \<Rightarrow> fileInfo list \<Rightarrow> cache_state \<Rightarrow> (rb_log list \<times> cache_state) option" where
  "rb_test_inserts K kzalloc_ok i [] s = Some ([], s)"
| "rb_test_inserts K kzalloc_ok i (f # fs) s =
     (if kzalloc_ok i then do {
        (ret, s) \<leftarrow> insert_scan_cache_record K f s;
        (log, s) \<leftarrow> rb_test_inserts K kzalloc_ok (Suc i) fs s;
        Some ((if ret \<noteq> 0 then [Fail_to_insert (fi_inode_number f)] else []) @ log, s) }
      else rb_test_inserts K kzalloc_ok (Suc i) fs s)"

definition rb_test_show ::
    "(scan_cache_record \<Rightarrow> rb_log) \<Rightarrow> addr option \<Rightarrow> cache_state \<Rightarrow> rb_log list option" where
  "rb_test_show msg ptr s =
     (case ptr of None \<Rightarrow> Some [] | Some a \<Rightarrow> do { r \<leftarrow> scan_objects s a; Some [msg r] })"

partial_function (option) rb_test_next ::
    "kernel_api \<Rightarrow> cache_state \<Rightarrow> addr option \<Rightarrow> rb_log list \<Rightarrow> rb_log list option" where
  "rb_test_next K s ptr log =
     (case ptr of
        None \<Rightarrow> Some log
      | Some a \<Rightarrow> do {
          let ptr = RB_NEXT (rbtree K) (scan_cache_rb_tree s) a;
          shown \<leftarrow> rb_test_show Next ptr s;
          rb_test_next K s ptr (log @ shown) })"

declare rb_test_next.simps [code]

definition rb_test_iterate :: "kernel_api \<Rightarrow> cache_state \<Rightarrow> rb_log list option" where
  "rb_test_iterate K s = do {
     let ptr = RB_FIRST (rbtree K) (scan_cache_rb_tree s);
     shown \<leftarrow> rb_test_show First ptr s;
     rb_test_next K s ptr shown }"

definition rb_test_find_delete ::
    "kernel_api \<Rightarrow> bool \<Rightarrow> cache_state \<Rightarrow> (rb_log list \<times> cache_state) option" where
  "rb_test_find_delete K kzalloc_ok s =
     (if kzalloc_ok then do {
        let filp = test_info 98 1006 12352;
        (ret, s) \<leftarrow> find_remove_scan_cache_record K filp s;
        Some (if ret then [] else [Fail_to_delete filp], s) }
      else Some ([], s))"

definition rb_test_init ::
    "kernel_api \<Rightarrow> (nat \<Rightarrow> bool) \<Rightarrow> cache_state \<Rightarrow> (int \<times> rb_log list \<times> cache_state) option" where
  "rb_test_init K kzalloc_ok s = do {
     let (_, s) = init_scan_cache K s;
     (inserted, s) \<leftarrow> rb_test_inserts K kzalloc_ok 0 rb_test_files s;
     first \<leftarrow> rb_test_show First (RB_FIRST (rbtree K) (scan_cache_rb_tree s)) s;
     last \<leftarrow> rb_test_show Last (RB_LAST (rbtree K) (scan_cache_rb_tree s)) s;
     all \<leftarrow> rb_test_iterate K s;
     (deleted, s) \<leftarrow> rb_test_find_delete K (kzalloc_ok 8) s;
     rest \<leftarrow> rb_test_iterate K s;
     Some (0, inserted @ first @ last @ all @ deleted @ rest, s) }"

definition rb_test_cleanup :: "kernel_api \<Rightarrow> cache_state \<Rightarrow> cache_state option" where
  "rb_test_cleanup K s = exit_scan_cache K s"

section \<open>Iteration\<close>

lemma rb_test_next_suffix:
  assumes K: "rb_lib_ok (rbtree K)" and T: "scan_table d s"
    and "inorder (scan_cache_rb_tree s) = xs @ a # ys"
  shows "rb_test_next K s (Some a) log =
     Some (log @ map (\<lambda>n. Next (the (scan_objects s n))) ys)"
  using assms(3)
proof (induction ys arbitrary: xs a log)
  case Nil
  then have "RB_NEXT (rbtree K) (scan_cache_rb_tree s) a = None"
    using RB_NEXT_inorder [OF K node_table_distinct [OF T [unfolded scan_table_def]], of xs a "[]"]
    by simp
  then show ?case by (simp add: rb_test_next.simps rb_test_show_def)
next
  case (Cons b ys)
  have "RB_NEXT (rbtree K) (scan_cache_rb_tree s) a = Some b"
    using RB_NEXT_inorder [OF K node_table_distinct [OF T [unfolded scan_table_def]], of xs a "b # ys"]
      Cons.prems by simp
  moreover obtain r where "scan_objects s b = Some r"
    using scan_live [OF T, of b] Cons.prems by auto
  ultimately show ?case
    using Cons.IH [of "xs @ [a]" b "log @ [Next r]"] Cons.prems
    by (simp add: rb_test_next.simps [of K s "Some a"] rb_test_show_def)
qed

lemma rb_test_iterate_inorder:
  assumes K: "rb_lib_ok (rbtree K)" and T: "scan_table d s"
  shows "rb_test_iterate K s =
     Some (case map (\<lambda>n. the (scan_objects s n)) (inorder (scan_cache_rb_tree s)) of
             [] \<Rightarrow> [] | r # rs \<Rightarrow> First r # map Next rs)"
proof (cases "inorder (scan_cache_rb_tree s)")
  case Nil
  then show ?thesis
    by (simp add: rb_test_iterate_def RB_FIRST_inorder [OF K] rb_test_show_def rb_test_next.simps)
next
  case (Cons a ys)
  then obtain r where "scan_objects s a = Some r" using scan_live [OF T, of a] by auto
  then show ?thesis
    using Cons rb_test_next_suffix [OF K T, of "[]" a ys "[First r]"]
    by (simp add: rb_test_iterate_def RB_FIRST_inorder [OF K] rb_test_show_def comp_def)
qed

text \<open>
  The iteration of the test module terminates and reports every cached record of the
  device exactly once, in increasing order of inode numbers, the first one as such.
\<close>

theorem rb_test_iterate_in_order:
  assumes "kernel_ok K" and "cache_inv d s"
  shows "\<exists>rs. rb_test_iterate K s = Some (case rs of [] \<Rightarrow> [] | r # rest \<Rightarrow> First r # map Next rest) \<and>
     sorted_wrt (\<lambda>r q. sc_inode_number r < sc_inode_number q) rs \<and>
     contents s = map_of (map scan_entry rs)"
proof -
  let ?rs = "map (\<lambda>n. the (scan_objects s n)) (inorder (scan_cache_rb_tree s))"
  have "sorted_wrt (<) (map scan_rank ?rs)"
    using cache_invD(2) [OF assms(2)]
    by (simp add: scan_table_def node_table_def ordered_by_def comp_def)
  then have "sorted_wrt (\<lambda>r q. sc_inode_number r < sc_inode_number q) ?rs"
    by (simp add: sorted_wrt_map scan_rank_def word_less_def)
  moreover have "contents s = map_of (map scan_entry ?rs)"
    by (simp add: contents_def comp_def)
  ultimately show ?thesis
    using rb_test_iterate_inorder [OF kernel_ok_rb [OF assms(1)] cache_invD(2) [OF assms(2)]] by blast
qed

theorem rb_test_iterate_in_order_witness:
  "\<exists>s rs. one_entry = Some s \<and>
     rb_test_iterate ref_kernel s = Some (case rs of [] \<Rightarrow> [] | r # rest \<Rightarrow> First r # map Next rest) \<and>
     contents s = map_of (map scan_entry rs)"
proof -
  obtain s where s: "one_entry = Some s" "cache_inv 100 s" using one_entry_inv by blast
  with rb_test_iterate_in_order [OF ref_kernel_ok s(2)] show ?thesis by blast
qed

end
