(* ===== verification/Queue_Base.thy ===== *)
theory Queue_Base
  imports Kernel_Prelude
begin

text \<open>
  Common ground of the five list structures of \<^verbatim>\<open>Kthread_Queue/queue.h\<close> (the file in
  \<^verbatim>\<open>Userspace_Queue_using_BSD_Example\<close> is the same): pointer chains and the HOL lists they
  stand for, the shape of the \<^verbatim>\<open>FOREACH\<close> loops, the abstract list operations that the
  macros implement, and the locale \<open>queue_sim\<close>, the simulation contract that every
  structure is shown to satisfy.
\<close>

section \<open>Chains of next pointers\<close>

type_synonym ptr = "addr option"

text \<open>\<open>chain nxt p xs\<close>: following \<open>nxt\<close> from \<open>p\<close> visits \<open>xs\<close> and ends in \<^verbatim>\<open>NULL\<close>.\<close>

fun chain :: "(addr \<Rightarrow> ptr) \<Rightarrow> ptr \<Rightarrow> addr list \<Rightarrow> bool" where
  "chain nxt p [] \<longleftrightarrow> p = None"
| "chain nxt p (x # xs) \<longleftrightarrow> p = Some x \<and> chain nxt (nxt x) xs"

fun segment :: "(addr \<Rightarrow> ptr) \<Rightarrow> ptr \<Rightarrow> addr list \<Rightarrow> ptr \<Rightarrow> bool" where
  "segment nxt p [] q \<longleftrightarrow> p = q"
| "segment nxt p (x # xs) q \<longleftrightarrow> p = Some x \<and> segment nxt (nxt x) xs q"

text \<open>The target of a \<^verbatim>\<open>struct type **\<close>: the first field of the head, or an element's next field.\<close>

datatype loc = Head_first | Next_of addr

definition end_loc :: "addr list \<Rightarrow> loc" where
  "end_loc xs = (if xs = [] then Head_first else Next_of (last xs))"

definition first_of :: "addr list \<Rightarrow> ptr" where
  "first_of xs = (case xs of [] \<Rightarrow> None | x # _ \<Rightarrow> Some x)"

text \<open>\<open>backlinks prv l xs\<close>: every element's back pointer is the address of the pointer that leads
  to it, which is \<open>l\<close> for the first element.\<close>

fun backlinks :: "(addr \<Rightarrow> loc) \<Rightarrow> loc \<Rightarrow> addr list \<Rightarrow> bool" where
  "backlinks prv l [] \<longleftrightarrow> True"
| "backlinks prv l (x # xs) \<longleftrightarrow> prv x = l \<and> backlinks prv (Next_of x) xs"

section \<open>Loops\<close>

text \<open>
  \<^verbatim>\<open>for (var = first; var; var = next(var)) body\<close> over a program state \<open>'h\<close>; the body
  may change the state and the lists in it, and it may fault.
\<close>

partial_function (option) foreach_loop ::
    "('h \<Rightarrow> addr \<Rightarrow> ptr) \<Rightarrow> (addr \<Rightarrow> 'h \<Rightarrow> 'h option) \<Rightarrow> ptr \<Rightarrow> 'h \<Rightarrow> 'h option" where
  "foreach_loop nxt body var h =
     (case var of None \<Rightarrow> Some h
      | Some v \<Rightarrow> do { h \<leftarrow> body v h; foreach_loop nxt body (nxt h v) h })"

text \<open>\<^verbatim>\<open>curelm = first; while (next(curelm) != elm) curelm = next(curelm);\<close>\<close>

partial_function (option) curelm_walk :: "(addr \<Rightarrow> ptr) \<Rightarrow> ptr \<Rightarrow> addr \<Rightarrow> addr option" where
  "curelm_walk nxt curelm elm =
     (case curelm of None \<Rightarrow> None
      | Some c \<Rightarrow> if nxt c = Some elm then Some c else curelm_walk nxt (nxt c) elm)"

declare foreach_loop.simps [code] curelm_walk.simps [code]

section \<open>Abstract list operations\<close>

datatype queue_op =
    Q_init
  | Q_insert_head addr
  | Q_insert_tail addr
  | Q_insert_after addr addr
  | Q_insert_before addr addr
  | Q_remove_head
  | Q_remove addr
  | Q_remove_head_until addr

fun insert_after :: "'a \<Rightarrow> 'a \<Rightarrow> 'a list \<Rightarrow> 'a list" where
  "insert_after y x [] = []"
| "insert_after y x (z # zs) = (if z = y then z # x # zs else z # insert_after y x zs)"

fun insert_before :: "'a \<Rightarrow> 'a \<Rightarrow> 'a list \<Rightarrow> 'a list" where
  "insert_before y x [] = []"
| "insert_before y x (z # zs) = (if z = y then x # z # zs else z # insert_before y x zs)"

fun list_op :: "queue_op \<Rightarrow> addr list \<Rightarrow> addr list" where
  "list_op Q_init xs = []"
| "list_op (Q_insert_head x) xs = x # xs"
| "list_op (Q_insert_tail x) xs = xs @ [x]"
| "list_op (Q_insert_after y x) xs = insert_after y x xs"
| "list_op (Q_insert_before y x) xs = insert_before y x xs"
| "list_op Q_remove_head xs = tl xs"
| "list_op (Q_remove x) xs = remove1 x xs"
| "list_op (Q_remove_head_until x) xs = tl (dropWhile (\<lambda>y. y \<noteq> x) xs)"

text \<open>What the macros ask of their caller: new elements are new, old ones are in the list.\<close>

fun op_ok :: "queue_op \<Rightarrow> addr list \<Rightarrow> bool" where
  "op_ok Q_init xs \<longleftrightarrow> True"
| "op_ok (Q_insert_head x) xs \<longleftrightarrow> x \<notin> set xs"
| "op_ok (Q_insert_tail x) xs \<longleftrightarrow> x \<notin> set xs"
| "op_ok (Q_insert_after y x) xs \<longleftrightarrow> y \<in> set xs \<and> x \<notin> set xs"
| "op_ok (Q_insert_before y x) xs \<longleftrightarrow> y \<in> set xs \<and> x \<notin> set xs"
| "op_ok Q_remove_head xs \<longleftrightarrow> xs \<noteq> []"
| "op_ok (Q_remove x) xs \<longleftrightarrow> x \<in> set xs"
| "op_ok (Q_remove_head_until x) xs \<longleftrightarrow> x \<in> set xs"

fun list_ops :: "queue_op list \<Rightarrow> addr list \<Rightarrow> addr list" where
  "list_ops [] xs = xs"
| "list_ops (q # qs) xs = list_ops qs (list_op q xs)"

fun ops_ok :: "(queue_op \<Rightarrow> bool) \<Rightarrow> queue_op list \<Rightarrow> addr list \<Rightarrow> bool" where
  "ops_ok supported [] xs \<longleftrightarrow> True"
| "ops_ok supported (q # qs) xs \<longleftrightarrow> supported q \<and> op_ok q xs \<and> ops_ok supported qs (list_op q xs)"

fun run_ops :: "(queue_op \<Rightarrow> 's \<Rightarrow> 's option) \<Rightarrow> queue_op list \<Rightarrow> 's \<Rightarrow> 's option" where
  "run_ops exec [] s = Some s"
| "run_ops exec (q # qs) s = do { s \<leftarrow> exec q s; run_ops exec qs s }"

section \<open>The simulation contract\<close>

locale queue_sim =
  fixes rep :: "'s \<Rightarrow> addr list \<Rightarrow> bool"
    and exec :: "queue_op \<Rightarrow> 's \<Rightarrow> 's option"
    and supported :: "queue_op \<Rightarrow> bool"
  assumes sim: "rep s xs \<Longrightarrow> supported q \<Longrightarrow> op_ok q xs \<Longrightarrow>
      \<exists>s'. exec q s = Some s' \<and> rep s' (list_op q xs)"
begin

lemma run_sim:
  "rep s xs \<Longrightarrow> ops_ok supported qs xs \<Longrightarrow> \<exists>s'. run_ops exec qs s = Some s' \<and> rep s' (list_ops qs xs)"
proof (induction qs arbitrary: s xs)
  case (Cons q qs)
  then obtain s1 where "exec q s = Some s1" "rep s1 (list_op q xs)" using sim by fastforce
  with Cons show ?case by simp
qed simp

end

text \<open>A queue on which elements go in at the tail and come out at the head.\<close>

locale fifo_sim = queue_sim +
  fixes elems :: "addr set"
  assumes fifo_ops: "x \<in> elems \<Longrightarrow> supported (Q_insert_tail x)" "supported (Q_remove x)"
begin

text \<open>Elements appended one by one leave in the same order: after removing the first
  \<open>n\<close>, the rest is still queued in order.\<close>

lemma fifo:
  assumes "rep s []" and "distinct xs" and "set xs \<subseteq> elems" and "n \<le> length xs"
  shows "\<exists>s'. run_ops exec (map Q_insert_tail xs @ map Q_remove (take n xs)) s = Some s' \<and>
     rep s' (drop n xs)"
proof -
  have ins: "ops_ok supported (map Q_insert_tail ys @ qs) zs = ops_ok supported qs (zs @ ys) \<and>
      list_ops (map Q_insert_tail ys @ qs) zs = list_ops qs (zs @ ys)"
    if "distinct (zs @ ys)" "set ys \<subseteq> elems" for ys zs qs
    using that by (induction ys arbitrary: zs) (simp_all add: fifo_ops)
  have rem: "ops_ok supported (map Q_remove ys) (ys @ zs) \<and> list_ops (map Q_remove ys) (ys @ zs) = zs"
    for ys zs
    by (induction ys) (simp_all add: fifo_ops)
  have "ops_ok supported (map Q_insert_tail xs @ map Q_remove (take n xs)) []"
    and "list_ops (map Q_insert_tail xs @ map Q_remove (take n xs)) [] = drop n xs"
    using ins [of "[]" xs "map Q_remove (take n xs)"] rem [of "take n xs" "drop n xs"] assms by simp_all
  then show ?thesis using run_sim [OF assms(1)] by fastforce
qed

end

section \<open>Lemmas on chains\<close>

lemma chain_append: "chain nxt p (xs @ ys) \<longleftrightarrow> (\<exists>q. segment nxt p xs q \<and> chain nxt q ys)"
  by (induction xs arbitrary: p) auto

lemma segment_append [simp]:
  "segment nxt p (xs @ ys) r \<longleftrightarrow> (\<exists>q. segment nxt p xs q \<and> segment nxt q ys r)"
  by (induction xs arbitrary: p) auto

lemma chain_unique: "chain nxt p xs \<Longrightarrow> chain nxt p ys \<Longrightarrow> xs = ys"
proof (induction xs arbitrary: p ys)
  case Nil then show ?case by (cases ys) auto
next
  case (Cons x xs) then show ?case by (cases ys) auto
qed

lemma chain_distinct: "chain nxt p xs \<Longrightarrow> distinct xs"
proof (induction xs arbitrary: p)
  case (Cons x xs)
  have "x \<notin> set xs"
  proof
    assume "x \<in> set xs"
    then obtain ys zs where "xs = ys @ x # zs" by (meson split_list)
    then have "chain nxt (nxt x) (ys @ x # zs)" and "chain nxt (nxt x) zs"
      using Cons.prems by (auto simp: chain_append)
    then have "ys @ x # zs = zs" by (rule chain_unique)
    then show False by (metis append_Cons append_assoc append_self_conv2 list.distinct(1) same_append_eq
          append_eq_append_conv2 append.left_neutral not_Cons_self2 append_is_Nil_conv)
  qed
  with Cons show ?case by auto
qed simp

lemma chain_upd [simp]: "a \<notin> set xs \<Longrightarrow> chain (nxt(a := v)) p xs = chain nxt p xs"
  by (induction xs arbitrary: p) auto

lemma segment_upd [simp]: "a \<notin> set xs \<Longrightarrow> segment (nxt(a := v)) p xs q = segment nxt p xs q"
  by (induction xs arbitrary: p) auto

lemma chain_first: "chain nxt p xs \<Longrightarrow> p = first_of xs"
  by (cases xs) (simp_all add: first_of_def)

lemma first_of_simps [simp]: "first_of [] = None" "first_of (x # xs) = Some x"
  by (simp_all add: first_of_def)

lemma end_loc_simps [simp]: "end_loc [] = Head_first" "end_loc (xs @ [x]) = Next_of x"
  "end_loc (x # xs) = (if xs = [] then Next_of x else end_loc xs)"
  "end_loc (ys @ x # xs) = (if xs = [] then Next_of x else end_loc xs)"
  by (simp_all add: end_loc_def)

lemma first_of_None [simp]: "first_of xs = None \<longleftrightarrow> xs = []"
  by (cases xs) simp_all

lemma backlinks_append [simp]:
  "backlinks prv l (xs @ ys) \<longleftrightarrow> backlinks prv l xs \<and> backlinks prv (if xs = [] then l else Next_of (last xs)) ys"
  by (induction xs arbitrary: l) auto

lemma backlinks_upd [simp]: "a \<notin> set xs \<Longrightarrow> backlinks (prv(a := v)) l xs = backlinks prv l xs"
  by (induction xs arbitrary: l) auto

lemma chain_at:
  assumes "chain nxt p (xs @ y # ys)"
  shows "segment nxt p xs (Some y)" and "nxt y = first_of ys" and "chain nxt (nxt y) ys"
  using assms by (auto simp: chain_append dest: chain_first)

lemma chain_last: "chain nxt p xs \<Longrightarrow> xs \<noteq> [] \<Longrightarrow> nxt (last xs) = None"
  by (cases xs rule: rev_cases) (auto simp: chain_append)

text \<open>An absent element makes the walk run off the end of the list.\<close>

lemma curelm_walk_absent:
  assumes "chain nxt p xs" and "e \<notin> set xs"
  shows "curelm_walk nxt p e = None"
  using assms
proof (induction xs arbitrary: p)
  case Nil then show ?case by (subst curelm_walk.simps) simp
next
  case (Cons x xs)
  have "nxt x \<noteq> Some e" using Cons.prems by (cases xs) auto
  with Cons show ?case by (subst curelm_walk.simps) simp
qed

lemma foreach_visits:
  assumes "chain (nxt h) p xs" and "\<And>v h. nxt (upd v h) = nxt h"
  shows "foreach_loop nxt (\<lambda>v h. Some (upd v h)) p h = Some (fold upd xs h)"
  using assms(1)
proof (induction xs arbitrary: p h)
  case Nil then show ?case by (subst foreach_loop.simps) simp
next
  case (Cons x xs)
  then have "chain (nxt (upd x h)) (nxt h x) xs" using assms(2) by simp
  with Cons show ?case by (subst foreach_loop.simps) (simp add: assms(2))
qed

section \<open>Lemmas on list operations\<close>

lemma insert_after_split: "y \<notin> set ys \<Longrightarrow> insert_after y x (ys @ y # zs) = ys @ y # x # zs"
  by (induction ys) auto

lemma insert_before_split: "y \<notin> set ys \<Longrightarrow> insert_before y x (ys @ y # zs) = ys @ x # y # zs"
  by (induction ys) auto

lemma remove1_split: "y \<notin> set ys \<Longrightarrow> remove1 y (ys @ y # zs) = ys @ zs"
  by (simp add: remove1_append)

lemma remove_until_split: "y \<notin> set ys \<Longrightarrow> tl (dropWhile (\<lambda>z. z \<noteq> y) (ys @ y # zs)) = zs"
  by (induction ys) auto

lemma split_member:
  assumes "y \<in> set xs"
  obtains ys zs where "xs = ys @ y # zs" and "y \<notin> set ys"
  using split_list_first [OF assms] by blast

end
