(* ===== verification/Singly_Queues.thy ===== *)
theory Singly_Queues
  imports Queue_Base
begin

text \<open>
  The two singly linked structures of \<^verbatim>\<open>queue.h\<close>: \<^verbatim>\<open>SLIST\<close> (a head with one pointer)
  and \<^verbatim>\<open>STAILQ\<close> (a head with a pointer to the first element and the address of the last
  next field). A state holds one head and the next fields of all elements; macros that only
  assign are total functions, macros that dereference a pointer of the structure are
  partial, \<open>None\<close> being the \<^verbatim>\<open>NULL\<close> dereference. Clients extend the records with the
  other fields of their elements.
\<close>

section \<open>Singly-linked lists\<close>

record slist =
  slh_first :: ptr
  sle_next :: "addr \<Rightarrow> ptr"

definition SLIST_HEAD_INITIALIZER :: "(addr \<Rightarrow> ptr) \<Rightarrow> slist" where
  "SLIST_HEAD_INITIALIZER nxt = \<lparr> slh_first = None, sle_next = nxt \<rparr>"

definition SLIST_EMPTY :: "'a slist_scheme \<Rightarrow> bool" where
  "SLIST_EMPTY s \<longleftrightarrow> slh_first s = None"

definition SLIST_FIRST :: "'a slist_scheme \<Rightarrow> ptr" where
  "SLIST_FIRST s = slh_first s"

text \<open>\<open>SLIST_NEXT\<close> reads through a pointer that may be \<^verbatim>\<open>NULL\<close>.\<close>

definition SLIST_NEXT :: "'a slist_scheme \<Rightarrow> ptr \<Rightarrow> ptr option" where
  "SLIST_NEXT s p = map_option (sle_next s) p"

definition SLIST_FOREACH ::
    "(addr \<Rightarrow> 'a slist_scheme \<Rightarrow> 'a slist_scheme option) \<Rightarrow> 'a slist_scheme \<Rightarrow> 'a slist_scheme option" where
  "SLIST_FOREACH body s = foreach_loop sle_next body (SLIST_FIRST s) s"

definition SLIST_INIT :: "'a slist_scheme \<Rightarrow> 'a slist_scheme" where
  "SLIST_INIT s = s\<lparr> slh_first := None \<rparr>"

definition SLIST_INSERT_AFTER :: "addr \<Rightarrow> addr \<Rightarrow> 'a slist_scheme \<Rightarrow> 'a slist_scheme" where
  "SLIST_INSERT_AFTER slistelm elm s =
     (let s = s\<lparr> sle_next := (sle_next s)(elm := sle_next s slistelm) \<rparr>
      in s\<lparr> sle_next := (sle_next s)(slistelm := Some elm) \<rparr>)"

definition SLIST_INSERT_HEAD :: "addr \<Rightarrow> 'a slist_scheme \<Rightarrow> 'a slist_scheme" where
  "SLIST_INSERT_HEAD elm s =
     (let s = s\<lparr> sle_next := (sle_next s)(elm := SLIST_FIRST s) \<rparr>
      in s\<lparr> slh_first := Some elm \<rparr>)"

definition SLIST_REMOVE_HEAD :: "'a slist_scheme \<Rightarrow> 'a slist_scheme option" where
  "SLIST_REMOVE_HEAD s = do { n \<leftarrow> SLIST_NEXT s (SLIST_FIRST s); Some (s\<lparr> slh_first := n \<rparr>) }"

definition SLIST_REMOVE :: "addr \<Rightarrow> 'a slist_scheme \<Rightarrow> 'a slist_scheme option" where
  "SLIST_REMOVE elm s =
     (if SLIST_FIRST s = Some elm then SLIST_REMOVE_HEAD s
      else do {
        curelm \<leftarrow> curelm_walk (sle_next s) (SLIST_FIRST s) elm;
        n \<leftarrow> SLIST_NEXT s (sle_next s curelm);
        Some (s\<lparr> sle_next := (sle_next s)(curelm := n) \<rparr>) })"

definition slist_rep :: "'a slist_scheme \<Rightarrow> addr list \<Rightarrow> bool" where
  "slist_rep s xs \<longleftrightarrow> chain (sle_next s) (slh_first s) xs"

fun slist_exec :: "queue_op \<Rightarrow> 'a slist_scheme \<Rightarrow> 'a slist_scheme option" where
  "slist_exec Q_init s = Some (SLIST_INIT s)"
| "slist_exec (Q_insert_head x) s = Some (SLIST_INSERT_HEAD x s)"
| "slist_exec (Q_insert_after y x) s = Some (SLIST_INSERT_AFTER y x s)"
| "slist_exec Q_remove_head s = SLIST_REMOVE_HEAD s"
| "slist_exec (Q_remove x) s = SLIST_REMOVE x s"
| "slist_exec _ s = None"

fun slist_supported :: "queue_op \<Rightarrow> bool" where
  "slist_supported Q_init \<longleftrightarrow> True"
| "slist_supported (Q_insert_head x) \<longleftrightarrow> True"
| "slist_supported (Q_insert_after y x) \<longleftrightarrow> True"
| "slist_supported Q_remove_head \<longleftrightarrow> True"
| "slist_supported (Q_remove x) \<longleftrightarrow> True"
| "slist_supported _ \<longleftrightarrow> False"

section \<open>Singly-linked tail queues\<close>

record stailq =
  stqh_first :: ptr
  stqh_last :: loc
  stqe_next :: "addr \<Rightarrow> ptr"

definition STAILQ_HEAD_INITIALIZER :: "(addr \<Rightarrow> ptr) \<Rightarrow> stailq" where
  "STAILQ_HEAD_INITIALIZER nxt = \<lparr> stqh_first = None, stqh_last = Head_first, stqe_next = nxt \<rparr>"

definition STAILQ_EMPTY :: "'a stailq_scheme \<Rightarrow> bool" where
  "STAILQ_EMPTY s \<longleftrightarrow> stqh_first s = None"

definition STAILQ_FIRST :: "'a stailq_scheme \<Rightarrow> ptr" where
  "STAILQ_FIRST s = stqh_first s"

definition STAILQ_NEXT :: "'a stailq_scheme \<Rightarrow> ptr \<Rightarrow> ptr option" where
  "STAILQ_NEXT s p = map_option (stqe_next s) p"

text \<open>The assignment \<^verbatim>\<open>*l = v\<close> through the address of a next field.\<close>

definition STAILQ_store :: "loc \<Rightarrow> ptr \<Rightarrow> 'a stailq_scheme \<Rightarrow> 'a stailq_scheme" where
  "STAILQ_store l v s =
     (case l of Head_first \<Rightarrow> s\<lparr> stqh_first := v \<rparr>
      | Next_of a \<Rightarrow> s\<lparr> stqe_next := (stqe_next s)(a := v) \<rparr>)"

definition STAILQ_FOREACH ::
    "(addr \<Rightarrow> 'a stailq_scheme \<Rightarrow> 'a stailq_scheme option) \<Rightarrow> 'a stailq_scheme \<Rightarrow> 'a stailq_scheme option" where
  "STAILQ_FOREACH body s = foreach_loop stqe_next body (STAILQ_FIRST s) s"

definition STAILQ_INIT :: "'a stailq_scheme \<Rightarrow> 'a stailq_scheme" where
  "STAILQ_INIT s = s\<lparr> stqh_first := None, stqh_last := Head_first \<rparr>"

definition STAILQ_INSERT_AFTER :: "addr \<Rightarrow> addr \<Rightarrow> 'a stailq_scheme \<Rightarrow> 'a stailq_scheme" where
  "STAILQ_INSERT_AFTER tqelm elm s =
     (let s = s\<lparr> stqe_next := (stqe_next s)(elm := stqe_next s tqelm) \<rparr>;
          s = (if stqe_next s elm = None then s\<lparr> stqh_last := Next_of elm \<rparr> else s)
      in s\<lparr> stqe_next := (stqe_next s)(tqelm := Some elm) \<rparr>)"

definition STAILQ_INSERT_HEAD :: "addr \<Rightarrow> 'a stailq_scheme \<Rightarrow> 'a stailq_scheme" where
  "STAILQ_INSERT_HEAD elm s =
     (let s = s\<lparr> stqe_next := (stqe_next s)(elm := STAILQ_FIRST s) \<rparr>;
          s = (if stqe_next s elm = None then s\<lparr> stqh_last := Next_of elm \<rparr> else s)
      in s\<lparr> stqh_first := Some elm \<rparr>)"

definition STAILQ_INSERT_TAIL :: "addr \<Rightarrow> 'a stailq_scheme \<Rightarrow> 'a stailq_scheme" where
  "STAILQ_INSERT_TAIL elm s =
     (let s = s\<lparr> stqe_next := (stqe_next s)(elm := None) \<rparr>;
          s = STAILQ_store (stqh_last s) (Some elm) s
      in s\<lparr> stqh_last := Next_of elm \<rparr>)"

text \<open>
  \<open>STAILQ_LAST\<close> subtracts the offset of the link field from \<^verbatim>\<open>stqh_last\<close>: the address of
  an element's next field becomes that element; from the address of the head field the
  subtraction makes no element pointer at all (\<open>None\<close>).
\<close>

definition STAILQ_LAST :: "'a stailq_scheme \<Rightarrow> ptr option" where
  "STAILQ_LAST s =
     (if STAILQ_EMPTY s then Some None
      else case stqh_last s of Next_of a \<Rightarrow> Some (Some a) | Head_first \<Rightarrow> None)"

definition STAILQ_REMOVE_HEAD :: "'a stailq_scheme \<Rightarrow> 'a stailq_scheme option" where
  "STAILQ_REMOVE_HEAD s = do {
     n \<leftarrow> STAILQ_NEXT s (STAILQ_FIRST s);
     let s = s\<lparr> stqh_first := n \<rparr>;
     Some (if n = None then s\<lparr> stqh_last := Head_first \<rparr> else s) }"

definition STAILQ_REMOVE :: "addr \<Rightarrow> 'a stailq_scheme \<Rightarrow> 'a stailq_scheme option" where
  "STAILQ_REMOVE elm s =
     (if STAILQ_FIRST s = Some elm then STAILQ_REMOVE_HEAD s
      else do {
        curelm \<leftarrow> curelm_walk (stqe_next s) (STAILQ_FIRST s) elm;
        n \<leftarrow> STAILQ_NEXT s (stqe_next s curelm);
        let s = s\<lparr> stqe_next := (stqe_next s)(curelm := n) \<rparr>;
        Some (if n = None then s\<lparr> stqh_last := Next_of curelm \<rparr> else s) })"

definition STAILQ_REMOVE_HEAD_UNTIL :: "addr \<Rightarrow> 'a stailq_scheme \<Rightarrow> 'a stailq_scheme" where
  "STAILQ_REMOVE_HEAD_UNTIL elm s =
     (let s = s\<lparr> stqh_first := stqe_next s elm \<rparr>
      in if stqh_first s = None then s\<lparr> stqh_last := Head_first \<rparr> else s)"

definition stailq_rep :: "'a stailq_scheme \<Rightarrow> addr list \<Rightarrow> bool" where
  "stailq_rep s xs \<longleftrightarrow> chain (stqe_next s) (stqh_first s) xs \<and> stqh_last s = end_loc xs"

fun stailq_exec :: "queue_op \<Rightarrow> 'a stailq_scheme \<Rightarrow> 'a stailq_scheme option" where
  "stailq_exec Q_init s = Some (STAILQ_INIT s)"
| "stailq_exec (Q_insert_head x) s = Some (STAILQ_INSERT_HEAD x s)"
| "stailq_exec (Q_insert_tail x) s = Some (STAILQ_INSERT_TAIL x s)"
| "stailq_exec (Q_insert_after y x) s = Some (STAILQ_INSERT_AFTER y x s)"
| "stailq_exec (Q_insert_before y x) s = None"
| "stailq_exec Q_remove_head s = STAILQ_REMOVE_HEAD s"
| "stailq_exec (Q_remove x) s = STAILQ_REMOVE x s"
| "stailq_exec (Q_remove_head_until x) s = Some (STAILQ_REMOVE_HEAD_UNTIL x s)"

fun stailq_supported :: "queue_op \<Rightarrow> bool" where
  "stailq_supported (Q_insert_before y x) \<longleftrightarrow> False"
| "stailq_supported _ \<longleftrightarrow> True"

section \<open>Every macro keeps the structure and implements its list operation\<close>

lemmas slist_defs = SLIST_EMPTY_def SLIST_FIRST_def SLIST_NEXT_def SLIST_INIT_def
  SLIST_INSERT_AFTER_def SLIST_INSERT_HEAD_def SLIST_REMOVE_HEAD_def

lemmas stailq_defs = STAILQ_EMPTY_def STAILQ_FIRST_def STAILQ_NEXT_def STAILQ_store_def STAILQ_INIT_def
  STAILQ_INSERT_AFTER_def STAILQ_INSERT_HEAD_def STAILQ_INSERT_TAIL_def STAILQ_REMOVE_HEAD_def
  STAILQ_REMOVE_HEAD_UNTIL_def

text \<open>The walk of both removal macros, in a chain that holds the element behind the first.\<close>

lemma curelm_walk_chain:
  assumes "chain nxt p (ys @ c # e # zs)"
  shows "curelm_walk nxt p e = Some c" and "nxt c = Some e"
    and "chain (nxt(c := nxt e)) p (ys @ c # zs)"
proof -
  from chain_distinct [OF assms] have d: "distinct (ys @ c # e # zs)" .
  from assms show "nxt c = Some e" by (auto simp: chain_append)
  show "chain (nxt(c := nxt e)) p (ys @ c # zs)"
    using assms d by (auto simp: chain_append)
  show "curelm_walk nxt p e = Some c" using assms d
  proof (induction ys arbitrary: p)
    case Nil then show ?case by (subst curelm_walk.simps) simp
  next
    case (Cons y ys)
    then have "nxt y \<noteq> Some e" by (cases ys) auto
    with Cons show ?case by (subst curelm_walk.simps) simp
  qed
qed

lemma behind_first:
  assumes "e \<in> set xs" and "first_of xs \<noteq> Some e"
  obtains ys c zs where "xs = ys @ c # e # zs" and "e \<notin> set ys" and "e \<noteq> c"
proof -
  obtain us zs where us: "xs = us @ e # zs" "e \<notin> set us" using assms(1) by (rule split_member)
  with assms(2) obtain ys c where "us = ys @ [c]" by (cases us rule: rev_cases) auto
  with us that show thesis by simp
qed

lemma slist_remove_rep:
  assumes "slist_rep s xs" and "x \<in> set xs"
  shows "\<exists>s'. SLIST_REMOVE x s = Some s' \<and> slist_rep s' (remove1 x xs)"
proof (cases "first_of xs = Some x")
  case True
  then show ?thesis using assms
    by (cases xs) (auto simp: slist_rep_def SLIST_REMOVE_def slist_defs)
next
  case False
  with assms obtain ys c zs where xs: "xs = ys @ c # x # zs" "x \<notin> set ys" "x \<noteq> c"
    using behind_first by metis
  then have ch: "chain (sle_next s) (slh_first s) (ys @ c # x # zs)"
    using assms by (simp add: slist_rep_def)
  have "slh_first s \<noteq> Some x" using False chain_first [OF ch] xs by simp
  then show ?thesis using curelm_walk_chain [OF ch] xs
    by (simp add: SLIST_REMOVE_def slist_defs slist_rep_def remove1_append)
qed

interpretation slist: queue_sim slist_rep slist_exec slist_supported
proof (unfold_locales)
  fix s :: "'a slist_scheme" and xs q
  assume r: "slist_rep s xs" and "slist_supported q" and ok: "op_ok q xs"
  then show "\<exists>s'. slist_exec q s = Some s' \<and> slist_rep s' (list_op q xs)"
  proof (cases q)
    case (Q_insert_after y x)
    with ok obtain ys zs where "xs = ys @ y # zs" "y \<notin> set ys" by (auto elim: split_member)
    with r ok Q_insert_after chain_distinct [of _ _ xs] show ?thesis
      by (auto simp: slist_rep_def slist_defs insert_after_split chain_append)
  next
    case Q_remove_head
    with r ok show ?thesis by (cases xs) (auto simp: slist_rep_def slist_defs)
  qed (use r ok slist_remove_rep in \<open>auto simp: slist_rep_def slist_defs\<close>)
qed

lemma stailq_remove_head_rep:
  assumes "stailq_rep s (x # xs)"
  shows "\<exists>s'. STAILQ_REMOVE_HEAD s = Some s' \<and> stailq_rep s' xs"
proof -
  have ch: "chain (stqe_next s) (stqe_next s x) xs" using assms by (simp add: stailq_rep_def)
  then show ?thesis using assms chain_first [OF ch]
    by (cases xs) (simp_all add: stailq_rep_def stailq_defs)
qed

lemma stailq_remove_rep:
  assumes "stailq_rep s xs" and "x \<in> set xs"
  shows "\<exists>s'. STAILQ_REMOVE x s = Some s' \<and> stailq_rep s' (remove1 x xs)"
proof (cases "first_of xs = Some x")
  case True
  then obtain zs where "xs = x # zs" by (cases xs) auto
  with assms stailq_remove_head_rep [of s x zs] show ?thesis
    by (simp add: STAILQ_REMOVE_def STAILQ_FIRST_def stailq_rep_def)
next
  case False
  with assms obtain ys c zs where xs: "xs = ys @ c # x # zs" "x \<notin> set ys" "x \<noteq> c"
    using behind_first by metis
  then have ch: "chain (stqe_next s) (stqh_first s) (ys @ c # x # zs)"
    and l: "stqh_last s = end_loc (c # x # zs)"
    using assms by (simp_all add: stailq_rep_def end_loc_def)
  have first: "stqh_first s \<noteq> Some x" using False chain_first [OF ch] xs by simp
  have "chain (stqe_next s) (stqe_next s x) zs" using ch by (auto simp: chain_append)
  then have "stqe_next s x = first_of zs" by (rule chain_first)
  then show ?thesis using curelm_walk_chain [OF ch] xs l first
    by (cases zs) (simp_all add: STAILQ_REMOVE_def stailq_defs stailq_rep_def remove1_append end_loc_def)
qed

lemma stailq_insert_tail_rep:
  assumes "stailq_rep s xs" and "x \<notin> set xs"
  shows "stailq_rep (STAILQ_INSERT_TAIL x s) (xs @ [x])"
proof (cases xs rule: rev_cases)
  case Nil
  with assms show ?thesis by (simp add: stailq_rep_def stailq_defs)
next
  case (snoc ys y)
  with assms chain_distinct [of _ _ xs] show ?thesis
    by (auto simp: stailq_rep_def stailq_defs chain_append)
qed

lemma stailq_insert_after_rep:
  assumes "stailq_rep s (ys @ y # zs)" and "x \<notin> set (ys @ y # zs)"
  shows "stailq_rep (STAILQ_INSERT_AFTER y x s) (ys @ y # x # zs)"
proof -
  have ch: "chain (stqe_next s) (stqh_first s) (ys @ y # zs)" and l: "stqh_last s = end_loc (y # zs)"
    using assms by (simp_all add: stailq_rep_def end_loc_def)
  have "stqe_next s y = first_of zs" using ch by (auto simp: chain_append dest: chain_first)
  moreover have "end_loc (ys @ y # x # zs) = (if zs = [] then Next_of x else end_loc zs)"
    by (simp add: end_loc_def)
  ultimately show ?thesis using ch l assms(2) chain_distinct [OF ch]
    by (cases zs) (auto simp: stailq_rep_def stailq_defs chain_append)
qed

lemma stailq_remove_until_rep:
  assumes "stailq_rep s (ys @ y # zs)"
  shows "stailq_rep (STAILQ_REMOVE_HEAD_UNTIL y s) zs"
proof -
  have ch: "chain (stqe_next s) (stqe_next s y) zs" and l: "stqh_last s = end_loc (y # zs)"
    using assms by (auto simp: stailq_rep_def end_loc_def chain_append)
  show ?thesis using ch l chain_first [OF ch]
    by (cases zs) (auto simp: stailq_rep_def stailq_defs)
qed

interpretation stailq: fifo_sim stailq_rep stailq_exec stailq_supported UNIV
proof (unfold_locales)
  fix s :: "'a stailq_scheme" and xs q
  assume r: "stailq_rep s xs" and sup: "stailq_supported q" and ok: "op_ok q xs"
  then show "\<exists>s'. stailq_exec q s = Some s' \<and> stailq_rep s' (list_op q xs)"
  proof (cases q)
    case (Q_insert_after y x)
    with ok obtain ys zs where "xs = ys @ y # zs" "y \<notin> set ys" by (auto elim: split_member)
    with r ok Q_insert_after show ?thesis
      by (auto simp: insert_after_split stailq_insert_after_rep)
  next
    case (Q_remove_head_until x)
    with ok obtain ys zs where "xs = ys @ x # zs" "x \<notin> set ys" by (auto elim: split_member)
    with r Q_remove_head_until show ?thesis
      using stailq_remove_until_rep by (auto simp: remove_until_split)
  next
    case Q_remove_head
    with r ok show ?thesis by (cases xs) (simp_all add: stailq_remove_head_rep)
  next
    case (Q_insert_head x)
    with r ok show ?thesis
      by (cases xs) (auto simp: stailq_rep_def stailq_defs)
  next
    case Q_init
    then show ?thesis by (simp add: stailq_rep_def STAILQ_INIT_def)
  qed (use r ok sup in \<open>simp_all add: stailq_remove_rep stailq_insert_tail_rep\<close>)
qed (simp_all)

section \<open>Traversal and access to the ends\<close>

lemma STAILQ_LAST_rep:
  "stailq_rep s xs \<Longrightarrow> STAILQ_LAST s = Some (if xs = [] then None else Some (last xs))"
  by (cases xs) (auto simp: stailq_rep_def STAILQ_LAST_def STAILQ_EMPTY_def end_loc_def)

text \<open>A loop body that records which element it was given, in the part of the state that
  the client adds.\<close>

definition slist_note :: "addr \<Rightarrow> addr list slist_scheme \<Rightarrow> addr list slist_scheme option" where
  "slist_note v s = Some (slist.more_update (\<lambda>seen. seen @ [v]) s)"

definition stailq_note :: "addr \<Rightarrow> addr list stailq_scheme \<Rightarrow> addr list stailq_scheme option" where
  "stailq_note v s = Some (stailq.more_update (\<lambda>seen. seen @ [v]) s)"

lemma SLIST_FOREACH_visits:
  assumes "slist_rep s xs" and "\<And>v s. sle_next (upd v s) = sle_next s"
  shows "SLIST_FOREACH (\<lambda>v s. Some (upd v s)) s = Some (fold upd xs s)"
  using assms foreach_visits [of sle_next s "slh_first s" xs upd]
  by (simp add: SLIST_FOREACH_def SLIST_FIRST_def slist_rep_def)

lemma STAILQ_FOREACH_visits:
  assumes "stailq_rep s xs" and "\<And>v s. stqe_next (upd v s) = stqe_next s"
  shows "STAILQ_FOREACH (\<lambda>v s. Some (upd v s)) s = Some (fold upd xs s)"
  using assms foreach_visits [of stqe_next s "stqh_first s" xs upd]
  by (simp add: STAILQ_FOREACH_def STAILQ_FIRST_def stailq_rep_def)

lemma slist_note_all:
  "slist_rep s xs \<Longrightarrow> SLIST_FOREACH slist_note s = Some (slist.more_update (\<lambda>seen. seen @ xs) s)"
proof -
  have "fold (\<lambda>v. slist.more_update (\<lambda>seen. seen @ [v])) xs s = slist.more_update (\<lambda>seen. seen @ xs) s"
    for s :: "addr list slist_scheme" by (induction xs arbitrary: s) simp_all
  then show "slist_rep s xs \<Longrightarrow> ?thesis"
    using SLIST_FOREACH_visits [of s xs "\<lambda>v. slist.more_update (\<lambda>seen. seen @ [v])"]
    by (simp add: slist_note_def [abs_def])
qed

lemma stailq_note_all:
  "stailq_rep s xs \<Longrightarrow> STAILQ_FOREACH stailq_note s = Some (stailq.more_update (\<lambda>seen. seen @ xs) s)"
proof -
  have "fold (\<lambda>v. stailq.more_update (\<lambda>seen. seen @ [v])) xs s = stailq.more_update (\<lambda>seen. seen @ xs) s"
    for s :: "addr list stailq_scheme" by (induction xs arbitrary: s) simp_all
  then show "stailq_rep s xs \<Longrightarrow> ?thesis"
    using STAILQ_FOREACH_visits [of s xs "\<lambda>v. stailq.more_update (\<lambda>seen. seen @ [v])"]
    by (simp add: stailq_note_def [abs_def])
qed

lemma slist_init_rep: "slist_rep (SLIST_INIT s) []"
  by (simp add: slist_rep_def SLIST_INIT_def)

lemma stailq_init_rep: "stailq_rep (STAILQ_INIT s) []"
  by (simp add: stailq_rep_def STAILQ_INIT_def)

section \<open>Properties\<close>

text \<open>
  From an initialised SLIST, every sequence of macro calls whose arguments are in the
  list (or, for new elements, not in it) runs without a fault and has the effect of the
  same operations on a list of elements; SLIST_FOREACH then visits exactly that list, in
  order, and SLIST_FIRST and SLIST_EMPTY agree with it.
\<close>

theorem slist_refines_list:
  assumes "ops_ok slist_supported qs []"
  shows "\<exists>s'. run_ops slist_exec qs (SLIST_INIT s) = Some s' \<and> slist_rep s' (list_ops qs []) \<and>
     SLIST_FIRST s' = first_of (list_ops qs []) \<and> SLIST_EMPTY s' = (list_ops qs [] = []) \<and>
     SLIST_FOREACH slist_note s' = Some (slist.more_update (\<lambda>seen. seen @ list_ops qs []) s')"
proof -
  obtain s' where s': "run_ops slist_exec qs (SLIST_INIT s) = Some s'" "slist_rep s' (list_ops qs [])"
    using slist.run_sim [OF slist_init_rep assms] by blast
  then have "slh_first s' = first_of (list_ops qs [])"
    unfolding slist_rep_def by (blast dest: chain_first)
  with s' show ?thesis by (simp add: slist_note_all SLIST_FIRST_def SLIST_EMPTY_def)
qed

theorem slist_refines_list_witness:
  "\<exists>s'. run_ops slist_exec [Q_insert_head 1, Q_insert_after 1 2, Q_insert_head 3, Q_remove 1]
       (SLIST_INIT \<lparr> slh_first = Some 9, sle_next = (\<lambda>_. None), \<dots> = [] :: addr list \<rparr>) = Some s' \<and>
     slist_rep s' [3, 2] \<and>
     SLIST_FOREACH slist_note s' = Some (slist.more_update (\<lambda>seen. seen @ [3, 2]) s')"
  using slist_refines_list [of "[Q_insert_head 1, Q_insert_after 1 2, Q_insert_head 3, Q_remove 1]"
      "\<lparr> slh_first = Some 9, sle_next = (\<lambda>_. None), \<dots> = [] :: addr list \<rparr>"] by auto

text \<open>
  C12: The same for STAILQ, whose head also keeps the address of the last next field: every
  well-formed sequence of its macro calls runs without a fault and implements the list
  operations, STAILQ_LAST is the last element of the list (NULL when it is empty), and
  STAILQ_FOREACH visits the list in order.
\<close>

theorem stailq_refines_list:
  assumes "ops_ok stailq_supported qs []"
  shows "\<exists>s'. run_ops stailq_exec qs (STAILQ_INIT s) = Some s' \<and> stailq_rep s' (list_ops qs []) \<and>
     STAILQ_LAST s' = Some (if list_ops qs [] = [] then None else Some (last (list_ops qs []))) \<and>
     STAILQ_FOREACH stailq_note s' = Some (stailq.more_update (\<lambda>seen. seen @ list_ops qs []) s')"
  using stailq.run_sim [OF stailq_init_rep assms] STAILQ_LAST_rep stailq_note_all by blast

theorem stailq_refines_list_witness:
  "\<exists>s'. run_ops stailq_exec [Q_insert_tail 1, Q_insert_tail 2, Q_insert_head 3, Q_insert_after 2 4,
         Q_remove 4, Q_remove_head_until 1, Q_insert_tail 5]
       (STAILQ_INIT \<lparr> stqh_first = None, stqh_last = Next_of 7, stqe_next = (\<lambda>_. None), \<dots> = [] :: addr list \<rparr>) = Some s' \<and>
     stailq_rep s' [2, 5] \<and> STAILQ_LAST s' = Some (Some 5)"
  using stailq_refines_list [of "[Q_insert_tail 1, Q_insert_tail 2, Q_insert_head 3, Q_insert_after 2 4,
         Q_remove 4, Q_remove_head_until 1, Q_insert_tail 5]"
      "\<lparr> stqh_first = None, stqh_last = Next_of 7, stqe_next = (\<lambda>_. None), \<dots> = [] :: addr list \<rparr>"] by auto

text \<open>
  SLIST_REMOVE and STAILQ_REMOVE have no check for an element that is not in the list:
  the search loop runs past the last element and dereferences NULL. An empty list is the
  same, and so are the REMOVE_HEAD macros on an empty list.
\<close>

theorem remove_absent_faults:
  assumes "slist_rep s xs" and "stailq_rep t xs" and "x \<notin> set xs"
  shows "SLIST_REMOVE x s = None \<and> STAILQ_REMOVE x t = None \<and>
     SLIST_REMOVE_HEAD (SLIST_INIT s) = None \<and> STAILQ_REMOVE_HEAD (STAILQ_INIT t) = None"
proof (intro conjI)
  have "slh_first s \<noteq> Some x" "stqh_first t \<noteq> Some x"
    using assms by (cases xs; auto simp: slist_rep_def stailq_rep_def)+
  then show "SLIST_REMOVE x s = None" "STAILQ_REMOVE x t = None"
    using assms by (simp_all add: SLIST_REMOVE_def STAILQ_REMOVE_def SLIST_FIRST_def STAILQ_FIRST_def
        slist_rep_def stailq_rep_def curelm_walk_absent [of _ _ xs])
qed (simp_all add: slist_defs stailq_defs)

theorem remove_absent_faults_witness:
  "SLIST_REMOVE 2 \<lparr> slh_first = Some 1, sle_next = (\<lambda>_. None) \<rparr> = None"
  using remove_absent_faults [of "\<lparr> slh_first = Some 1, sle_next = (\<lambda>_. None) \<rparr>" "[1]"
      "\<lparr> stqh_first = Some 1, stqh_last = Next_of 1, stqe_next = (\<lambda>_. None) \<rparr>" 2]
  by (simp add: slist_rep_def stailq_rep_def)

end
