(* ===== verification/Doubly_Queues.thy ===== *)
theory Doubly_Queues
  imports Queue_Base
begin

text \<open>
  The doubly linked list \<^verbatim>\<open>DLIST\<close> of \<^verbatim>\<open>queue.h\<close>, whose back pointers hold the address
  of the next field that leads to an element, the circular queue \<^verbatim>\<open>CIRCLEQ\<close>, whose ends
  point back at the head, and the older \<^verbatim>\<open>insque\<close>/\<^verbatim>\<open>remque\<close> pair.
\<close>

section \<open>Lists\<close>

record dlist =
  lh_first :: ptr
  le_next :: "addr \<Rightarrow> ptr"
  le_prev :: "addr \<Rightarrow> loc"

definition DLIST_HEAD_INITIALIZER :: "(addr \<Rightarrow> ptr) \<Rightarrow> (addr \<Rightarrow> loc) \<Rightarrow> dlist" where
  "DLIST_HEAD_INITIALIZER nxt prv = \<lparr> lh_first = None, le_next = nxt, le_prev = prv \<rparr>"

definition DLIST_EMPTY :: "'a dlist_scheme \<Rightarrow> bool" where
  "DLIST_EMPTY s \<longleftrightarrow> lh_first s = None"

definition DLIST_FIRST :: "'a dlist_scheme \<Rightarrow> ptr" where
  "DLIST_FIRST s = lh_first s"

definition DLIST_NEXT :: "addr \<Rightarrow> 'a dlist_scheme \<Rightarrow> ptr" where
  "DLIST_NEXT elm s = le_next s elm"

text \<open>The assignments \<^verbatim>\<open>*l = v\<close> and \<^verbatim>\<open>p->field.le_prev = l\<close>, the latter under the macros' test
  that \<open>p\<close> is not \<^verbatim>\<open>NULL\<close>.\<close>

definition DLIST_store :: "loc \<Rightarrow> ptr \<Rightarrow> 'a dlist_scheme \<Rightarrow> 'a dlist_scheme" where
  "DLIST_store l v s =
     (case l of Head_first \<Rightarrow> s\<lparr> lh_first := v \<rparr>
      | Next_of a \<Rightarrow> s\<lparr> le_next := (le_next s)(a := v) \<rparr>)"

definition DLIST_set_prev :: "ptr \<Rightarrow> loc \<Rightarrow> 'a dlist_scheme \<Rightarrow> 'a dlist_scheme" where
  "DLIST_set_prev p l s =
     (case p of None \<Rightarrow> s | Some e \<Rightarrow> s\<lparr> le_prev := (le_prev s)(e := l) \<rparr>)"

definition DLIST_FOREACH ::
    "(addr \<Rightarrow> 'a dlist_scheme \<Rightarrow> 'a dlist_scheme option) \<Rightarrow> 'a dlist_scheme \<Rightarrow> 'a dlist_scheme option" where
  "DLIST_FOREACH body s = foreach_loop (\<lambda>s v. DLIST_NEXT v s) body (DLIST_FIRST s) s"

definition DLIST_INIT :: "'a dlist_scheme \<Rightarrow> 'a dlist_scheme" where
  "DLIST_INIT s = s\<lparr> lh_first := None \<rparr>"

definition DLIST_INSERT_AFTER :: "addr \<Rightarrow> addr \<Rightarrow> 'a dlist_scheme \<Rightarrow> 'a dlist_scheme" where
  "DLIST_INSERT_AFTER listelm elm s =
     (let s = s\<lparr> le_next := (le_next s)(elm := DLIST_NEXT listelm s) \<rparr>;
          s = (if DLIST_NEXT elm s \<noteq> None then DLIST_set_prev (DLIST_NEXT listelm s) (Next_of elm) s else s);
          s = s\<lparr> le_next := (le_next s)(listelm := Some elm) \<rparr>
      in s\<lparr> le_prev := (le_prev s)(elm := Next_of listelm) \<rparr>)"

definition DLIST_INSERT_BEFORE :: "addr \<Rightarrow> addr \<Rightarrow> 'a dlist_scheme \<Rightarrow> 'a dlist_scheme" where
  "DLIST_INSERT_BEFORE listelm elm s =
     (let s = s\<lparr> le_prev := (le_prev s)(elm := le_prev s listelm) \<rparr>;
          s = s\<lparr> le_next := (le_next s)(elm := Some listelm) \<rparr>;
          s = DLIST_store (le_prev s listelm) (Some elm) s
      in s\<lparr> le_prev := (le_prev s)(listelm := Next_of elm) \<rparr>)"

definition DLIST_INSERT_HEAD :: "addr \<Rightarrow> 'a dlist_scheme \<Rightarrow> 'a dlist_scheme" where
  "DLIST_INSERT_HEAD elm s =
     (let s = s\<lparr> le_next := (le_next s)(elm := DLIST_FIRST s) \<rparr>;
          s = (if DLIST_NEXT elm s \<noteq> None then DLIST_set_prev (DLIST_FIRST s) (Next_of elm) s else s);
          s = s\<lparr> lh_first := Some elm \<rparr>
      in s\<lparr> le_prev := (le_prev s)(elm := Head_first) \<rparr>)"

definition DLIST_REMOVE :: "addr \<Rightarrow> 'a dlist_scheme \<Rightarrow> 'a dlist_scheme" where
  "DLIST_REMOVE elm s =
     (let s = (if DLIST_NEXT elm s \<noteq> None then DLIST_set_prev (DLIST_NEXT elm s) (le_prev s elm) s else s)
      in DLIST_store (le_prev s elm) (DLIST_NEXT elm s) s)"

definition dlist_rep :: "'a dlist_scheme \<Rightarrow> addr list \<Rightarrow> bool" where
  "dlist_rep s xs \<longleftrightarrow> chain (le_next s) (lh_first s) xs \<and> backlinks (le_prev s) Head_first xs"

fun dlist_exec :: "queue_op \<Rightarrow> 'a dlist_scheme \<Rightarrow> 'a dlist_scheme option" where
  "dlist_exec Q_init s = Some (DLIST_INIT s)"
| "dlist_exec (Q_insert_head x) s = Some (DLIST_INSERT_HEAD x s)"
| "dlist_exec (Q_insert_after y x) s = Some (DLIST_INSERT_AFTER y x s)"
| "dlist_exec (Q_insert_before y x) s = Some (DLIST_INSERT_BEFORE y x s)"
| "dlist_exec (Q_remove x) s = Some (DLIST_REMOVE x s)"
| "dlist_exec _ s = None"

fun dlist_supported :: "queue_op \<Rightarrow> bool" where
  "dlist_supported Q_init \<longleftrightarrow> True"
| "dlist_supported (Q_insert_head x) \<longleftrightarrow> True"
| "dlist_supported (Q_insert_after y x) \<longleftrightarrow> True"
| "dlist_supported (Q_insert_before y x) \<longleftrightarrow> True"
| "dlist_supported (Q_remove x) \<longleftrightarrow> True"
| "dlist_supported _ \<longleftrightarrow> False"

subsection \<open>Every macro keeps the structure and implements its list operation\<close>

lemmas dlist_defs = DLIST_EMPTY_def DLIST_FIRST_def DLIST_NEXT_def DLIST_store_def DLIST_set_prev_def
  DLIST_INIT_def DLIST_INSERT_AFTER_def DLIST_INSERT_BEFORE_def DLIST_INSERT_HEAD_def DLIST_REMOVE_def

lemma dlist_insert_head_rep:
  "dlist_rep s xs \<Longrightarrow> x \<notin> set xs \<Longrightarrow> dlist_rep (DLIST_INSERT_HEAD x s) (x # xs)"
  using chain_distinct [of "le_next s" "lh_first s" xs]
  by (cases xs) (auto simp: dlist_rep_def dlist_defs)

lemma dlist_insert_after_rep:
  assumes "dlist_rep s (ys @ y # zs)" and "x \<notin> set (ys @ y # zs)"
  shows "dlist_rep (DLIST_INSERT_AFTER y x s) (ys @ y # x # zs)"
proof -
  have ch: "chain (le_next s) (lh_first s) (ys @ y # zs)" and b: "backlinks (le_prev s) Head_first (ys @ y # zs)"
    using assms by (simp_all add: dlist_rep_def)
  show ?thesis using chain_at [OF ch] b assms(2) chain_distinct [OF ch]
    by (cases zs) (auto simp: dlist_rep_def dlist_defs chain_append)
qed

lemma dlist_insert_before_rep:
  assumes "dlist_rep s (ys @ y # zs)" and "x \<notin> set (ys @ y # zs)"
  shows "dlist_rep (DLIST_INSERT_BEFORE y x s) (ys @ x # y # zs)"
proof -
  have ch: "chain (le_next s) (lh_first s) (ys @ y # zs)" and b: "backlinks (le_prev s) Head_first (ys @ y # zs)"
    using assms by (simp_all add: dlist_rep_def)
  show ?thesis using chain_at [OF ch] b assms(2) chain_distinct [OF ch]
    by (cases ys rule: rev_cases) (auto simp: dlist_rep_def dlist_defs chain_append)
qed

lemma dlist_remove_rep:
  assumes "dlist_rep s (ys @ y # zs)"
  shows "dlist_rep (DLIST_REMOVE y s) (ys @ zs)"
proof -
  have ch: "chain (le_next s) (lh_first s) (ys @ y # zs)" and b: "backlinks (le_prev s) Head_first (ys @ y # zs)"
    using assms by (simp_all add: dlist_rep_def)
  show ?thesis using chain_at [OF ch] b chain_distinct [OF ch]
    by (cases ys rule: rev_cases; cases zs) (auto simp: dlist_rep_def dlist_defs chain_append)
qed

interpretation dlist: queue_sim dlist_rep dlist_exec dlist_supported
proof (unfold_locales)
  fix s :: "'a dlist_scheme" and xs q
  assume r: "dlist_rep s xs" and sup: "dlist_supported q" and ok: "op_ok q xs"
  have split: "\<exists>ys zs. xs = ys @ y # zs \<and> y \<notin> set ys" if "y \<in> set xs" for y
    using that by (blast elim: split_member)
  show "\<exists>s'. dlist_exec q s = Some s' \<and> dlist_rep s' (list_op q xs)"
  proof (cases q)
    case (Q_insert_after y x)
    with ok split [of y] r show ?thesis by (auto simp: insert_after_split dlist_insert_after_rep)
  next
    case (Q_insert_before y x)
    with ok split [of y] r show ?thesis by (auto simp: insert_before_split dlist_insert_before_rep)
  next
    case (Q_remove y)
    with ok split [of y] r show ?thesis by (auto simp: remove1_split dlist_remove_rep)
  next
    case Q_init
    then show ?thesis by (simp add: dlist_rep_def DLIST_INIT_def)
  qed (use r ok sup in \<open>simp_all add: dlist_insert_head_rep\<close>)
qed

section \<open>Circular queues\<close>

text \<open>A \<^verbatim>\<open>struct type *\<close> of a circular queue: the head, cast to \<^verbatim>\<open>void *\<close>, or an element.\<close>

datatype cptr = CQ_head | CQ_elm addr

record circleq =
  cqh_first :: cptr
  cqh_last :: cptr
  cqe_next :: "addr \<Rightarrow> cptr"
  cqe_prev :: "addr \<Rightarrow> cptr"

definition CIRCLEQ_HEAD_INITIALIZER :: "(addr \<Rightarrow> cptr) \<Rightarrow> (addr \<Rightarrow> cptr) \<Rightarrow> circleq" where
  "CIRCLEQ_HEAD_INITIALIZER nxt prv =
     \<lparr> cqh_first = CQ_head, cqh_last = CQ_head, cqe_next = nxt, cqe_prev = prv \<rparr>"

definition CIRCLEQ_EMPTY :: "'a circleq_scheme \<Rightarrow> bool" where
  "CIRCLEQ_EMPTY s \<longleftrightarrow> cqh_first s = CQ_head"

definition CIRCLEQ_FIRST :: "'a circleq_scheme \<Rightarrow> cptr" where
  "CIRCLEQ_FIRST s = cqh_first s"

definition CIRCLEQ_LAST :: "'a circleq_scheme \<Rightarrow> cptr" where
  "CIRCLEQ_LAST s = cqh_last s"

definition CIRCLEQ_NEXT :: "addr \<Rightarrow> 'a circleq_scheme \<Rightarrow> cptr" where
  "CIRCLEQ_NEXT elm s = cqe_next s elm"

definition CIRCLEQ_PREV :: "addr \<Rightarrow> 'a circleq_scheme \<Rightarrow> cptr" where
  "CIRCLEQ_PREV elm s = cqe_prev s elm"

text \<open>Assignments through a pointer; writing an element field at the head's address is a fault.\<close>

definition CIRCLEQ_set_next :: "cptr \<Rightarrow> cptr \<Rightarrow> 'a circleq_scheme \<Rightarrow> 'a circleq_scheme option" where
  "CIRCLEQ_set_next p v s =
     (case p of CQ_head \<Rightarrow> None | CQ_elm e \<Rightarrow> Some (s\<lparr> cqe_next := (cqe_next s)(e := v) \<rparr>))"

definition CIRCLEQ_set_prev :: "cptr \<Rightarrow> cptr \<Rightarrow> 'a circleq_scheme \<Rightarrow> 'a circleq_scheme option" where
  "CIRCLEQ_set_prev p v s =
     (case p of CQ_head \<Rightarrow> None | CQ_elm e \<Rightarrow> Some (s\<lparr> cqe_prev := (cqe_prev s)(e := v) \<rparr>))"

text \<open>The loop test \<^verbatim>\<open>var != (void *) head || (var = NULL)\<close> turns the head into the end of the loop.\<close>

fun elm_of :: "cptr \<Rightarrow> ptr" where
  "elm_of CQ_head = None"
| "elm_of (CQ_elm e) = Some e"

definition CIRCLEQ_FOREACH ::
    "(addr \<Rightarrow> 'a circleq_scheme \<Rightarrow> 'a circleq_scheme option) \<Rightarrow> 'a circleq_scheme \<Rightarrow> 'a circleq_scheme option" where
  "CIRCLEQ_FOREACH body s = foreach_loop (\<lambda>s v. elm_of (CIRCLEQ_NEXT v s)) body (elm_of (CIRCLEQ_FIRST s)) s"

definition CIRCLEQ_FOREACH_REVERSE ::
    "(addr \<Rightarrow> 'a circleq_scheme \<Rightarrow> 'a circleq_scheme option) \<Rightarrow> 'a circleq_scheme \<Rightarrow> 'a circleq_scheme option" where
  "CIRCLEQ_FOREACH_REVERSE body s =
     foreach_loop (\<lambda>s v. elm_of (CIRCLEQ_PREV v s)) body (elm_of (CIRCLEQ_LAST s)) s"

definition CIRCLEQ_INIT :: "'a circleq_scheme \<Rightarrow> 'a circleq_scheme" where
  "CIRCLEQ_INIT s = s\<lparr> cqh_first := CQ_head, cqh_last := CQ_head \<rparr>"

definition CIRCLEQ_INSERT_AFTER :: "addr \<Rightarrow> addr \<Rightarrow> 'a circleq_scheme \<Rightarrow> 'a circleq_scheme option" where
  "CIRCLEQ_INSERT_AFTER listelm elm s = do {
     let s = s\<lparr> cqe_next := (cqe_next s)(elm := CIRCLEQ_NEXT listelm s) \<rparr>;
     let s = s\<lparr> cqe_prev := (cqe_prev s)(elm := CQ_elm listelm) \<rparr>;
     s \<leftarrow> (if CIRCLEQ_NEXT listelm s = CQ_head then Some (s\<lparr> cqh_last := CQ_elm elm \<rparr>)
           else CIRCLEQ_set_prev (CIRCLEQ_NEXT listelm s) (CQ_elm elm) s);
     Some (s\<lparr> cqe_next := (cqe_next s)(listelm := CQ_elm elm) \<rparr>) }"

definition CIRCLEQ_INSERT_BEFORE :: "addr \<Rightarrow> addr \<Rightarrow> 'a circleq_scheme \<Rightarrow> 'a circleq_scheme option" where
  "CIRCLEQ_INSERT_BEFORE listelm elm s = do {
     let s = s\<lparr> cqe_next := (cqe_next s)(elm := CQ_elm listelm) \<rparr>;
     let s = s\<lparr> cqe_prev := (cqe_prev s)(elm := CIRCLEQ_PREV listelm s) \<rparr>;
     s \<leftarrow> (if CIRCLEQ_PREV listelm s = CQ_head then Some (s\<lparr> cqh_first := CQ_elm elm \<rparr>)
           else CIRCLEQ_set_next (CIRCLEQ_PREV listelm s) (CQ_elm elm) s);
     Some (s\<lparr> cqe_prev := (cqe_prev s)(listelm := CQ_elm elm) \<rparr>) }"

definition CIRCLEQ_INSERT_HEAD :: "addr \<Rightarrow> 'a circleq_scheme \<Rightarrow> 'a circleq_scheme option" where
  "CIRCLEQ_INSERT_HEAD elm s = do {
     let s = s\<lparr> cqe_next := (cqe_next s)(elm := CIRCLEQ_FIRST s) \<rparr>;
     let s = s\<lparr> cqe_prev := (cqe_prev s)(elm := CQ_head) \<rparr>;
     s \<leftarrow> (if CIRCLEQ_LAST s = CQ_head then Some (s\<lparr> cqh_last := CQ_elm elm \<rparr>)
           else CIRCLEQ_set_prev (CIRCLEQ_FIRST s) (CQ_elm elm) s);
     Some (s\<lparr> cqh_first := CQ_elm elm \<rparr>) }"

definition CIRCLEQ_INSERT_TAIL :: "addr \<Rightarrow> 'a circleq_scheme \<Rightarrow> 'a circleq_scheme option" where
  "CIRCLEQ_INSERT_TAIL elm s = do {
     let s = s\<lparr> cqe_next := (cqe_next s)(elm := CQ_head) \<rparr>;
     let s = s\<lparr> cqe_prev := (cqe_prev s)(elm := CIRCLEQ_LAST s) \<rparr>;
     s \<leftarrow> (if CIRCLEQ_FIRST s = CQ_head then Some (s\<lparr> cqh_first := CQ_elm elm \<rparr>)
           else CIRCLEQ_set_next (CIRCLEQ_LAST s) (CQ_elm elm) s);
     Some (s\<lparr> cqh_last := CQ_elm elm \<rparr>) }"

definition CIRCLEQ_REMOVE :: "addr \<Rightarrow> 'a circleq_scheme \<Rightarrow> 'a circleq_scheme option" where
  "CIRCLEQ_REMOVE elm s = do {
     s \<leftarrow> (if CIRCLEQ_NEXT elm s = CQ_head then Some (s\<lparr> cqh_last := CIRCLEQ_PREV elm s \<rparr>)
           else CIRCLEQ_set_prev (CIRCLEQ_NEXT elm s) (CIRCLEQ_PREV elm s) s);
     if CIRCLEQ_PREV elm s = CQ_head then Some (s\<lparr> cqh_first := CIRCLEQ_NEXT elm s \<rparr>)
     else CIRCLEQ_set_next (CIRCLEQ_PREV elm s) (CIRCLEQ_NEXT elm s) s }"

definition circleq_rep :: "'a circleq_scheme \<Rightarrow> addr list \<Rightarrow> bool" where
  "circleq_rep s xs \<longleftrightarrow> chain (elm_of \<circ> cqe_next s) (elm_of (cqh_first s)) xs \<and>
     chain (elm_of \<circ> cqe_prev s) (elm_of (cqh_last s)) (rev xs)"

fun circleq_exec :: "queue_op \<Rightarrow> 'a circleq_scheme \<Rightarrow> 'a circleq_scheme option" where
  "circleq_exec Q_init s = Some (CIRCLEQ_INIT s)"
| "circleq_exec (Q_insert_head x) s = CIRCLEQ_INSERT_HEAD x s"
| "circleq_exec (Q_insert_tail x) s = CIRCLEQ_INSERT_TAIL x s"
| "circleq_exec (Q_insert_after y x) s = CIRCLEQ_INSERT_AFTER y x s"
| "circleq_exec (Q_insert_before y x) s = CIRCLEQ_INSERT_BEFORE y x s"
| "circleq_exec (Q_remove x) s = CIRCLEQ_REMOVE x s"
| "circleq_exec _ s = None"

fun circleq_supported :: "queue_op \<Rightarrow> bool" where
  "circleq_supported Q_remove_head \<longleftrightarrow> False"
| "circleq_supported (Q_remove_head_until x) \<longleftrightarrow> False"
| "circleq_supported _ \<longleftrightarrow> True"

subsection \<open>Every macro keeps the structure and implements its list operation\<close>

lemmas circleq_defs = CIRCLEQ_EMPTY_def CIRCLEQ_FIRST_def CIRCLEQ_LAST_def CIRCLEQ_NEXT_def CIRCLEQ_PREV_def
  CIRCLEQ_set_next_def CIRCLEQ_set_prev_def CIRCLEQ_INIT_def CIRCLEQ_INSERT_AFTER_def CIRCLEQ_INSERT_BEFORE_def
  CIRCLEQ_INSERT_HEAD_def CIRCLEQ_INSERT_TAIL_def CIRCLEQ_REMOVE_def

lemma elm_of_eq [simp]: "elm_of p = None \<longleftrightarrow> p = CQ_head" "elm_of p = Some e \<longleftrightarrow> p = CQ_elm e"
  by (cases p; simp)+

lemma circleq_ends:
  assumes "circleq_rep s xs"
  shows "cqh_first s = CQ_head \<longleftrightarrow> xs = []" and "cqh_last s = CQ_head \<longleftrightarrow> xs = []"
proof -
  have "elm_of (cqh_first s) = first_of xs" "elm_of (cqh_last s) = first_of (rev xs)"
    using assms unfolding circleq_rep_def by (blast dest: chain_first)+
  then show "cqh_first s = CQ_head \<longleftrightarrow> xs = []" "cqh_last s = CQ_head \<longleftrightarrow> xs = []"
    by (metis elm_of_eq(1) first_of_None rev_is_Nil_conv)+
qed

lemma circleq_insert_head_rep:
  assumes "circleq_rep s xs" and "x \<notin> set xs"
  shows "\<exists>s'. CIRCLEQ_INSERT_HEAD x s = Some s' \<and> circleq_rep s' (x # xs)"
  using assms circleq_ends [OF assms(1)] chain_distinct [of "elm_of \<circ> cqe_next s" "elm_of (cqh_first s)" xs]
  by (cases xs) (auto simp: circleq_rep_def circleq_defs fun_upd_comp chain_append)

lemma circleq_insert_tail_rep:
  assumes "circleq_rep s xs" and "x \<notin> set xs"
  shows "\<exists>s'. CIRCLEQ_INSERT_TAIL x s = Some s' \<and> circleq_rep s' (xs @ [x])"
  using assms circleq_ends [OF assms(1)] chain_distinct [of "elm_of \<circ> cqe_next s" "elm_of (cqh_first s)" xs]
  by (cases xs rule: rev_cases) (auto simp: circleq_rep_def circleq_defs fun_upd_comp chain_append)

lemma circleq_insert_after_rep:
  assumes "circleq_rep s (ys @ y # zs)" and "x \<notin> set (ys @ y # zs)"
  shows "\<exists>s'. CIRCLEQ_INSERT_AFTER y x s = Some s' \<and> circleq_rep s' (ys @ y # x # zs)"
  using assms chain_distinct [of "elm_of \<circ> cqe_next s" "elm_of (cqh_first s)" "ys @ y # zs"]
  by (cases zs) (auto simp: circleq_rep_def circleq_defs fun_upd_comp chain_append)

lemma circleq_insert_before_rep:
  assumes "circleq_rep s (ys @ y # zs)" and "x \<notin> set (ys @ y # zs)"
  shows "\<exists>s'. CIRCLEQ_INSERT_BEFORE y x s = Some s' \<and> circleq_rep s' (ys @ x # y # zs)"
  using assms chain_distinct [of "elm_of \<circ> cqe_next s" "elm_of (cqh_first s)" "ys @ y # zs"]
  by (cases ys rule: rev_cases) (auto simp: circleq_rep_def circleq_defs fun_upd_comp chain_append)

lemma circleq_remove_rep:
  assumes "circleq_rep s (ys @ y # zs)"
  shows "\<exists>s'. CIRCLEQ_REMOVE y s = Some s' \<and> circleq_rep s' (ys @ zs)"
  using assms chain_distinct [of "elm_of \<circ> cqe_next s" "elm_of (cqh_first s)" "ys @ y # zs"]
  by (cases ys rule: rev_cases; cases zs) (auto simp: circleq_rep_def circleq_defs fun_upd_comp chain_append)

interpretation circleq: fifo_sim circleq_rep circleq_exec circleq_supported UNIV
proof (unfold_locales)
  fix s :: "'a circleq_scheme" and xs q
  assume r: "circleq_rep s xs" and sup: "circleq_supported q" and ok: "op_ok q xs"
  have split: "\<exists>ys zs. xs = ys @ y # zs \<and> y \<notin> set ys" if "y \<in> set xs" for y
    using that by (blast elim: split_member)
  show "\<exists>s'. circleq_exec q s = Some s' \<and> circleq_rep s' (list_op q xs)"
  proof (cases q)
    case (Q_insert_after y x)
    with ok split [of y] r show ?thesis by (auto simp: insert_after_split circleq_insert_after_rep)
  next
    case (Q_insert_before y x)
    with ok split [of y] r show ?thesis by (auto simp: insert_before_split circleq_insert_before_rep)
  next
    case (Q_remove y)
    with ok split [of y] r show ?thesis by (auto simp: remove1_split circleq_remove_rep)
  next
    case Q_init
    then show ?thesis by (simp add: circleq_rep_def CIRCLEQ_INIT_def)
  qed (use r ok sup in \<open>simp_all add: circleq_insert_head_rep circleq_insert_tail_rep\<close>)
qed (simp_all)

section \<open>The older insque and remque\<close>

text \<open>A \<^verbatim>\<open>struct quehead\<close> is head and element at once; \<open>qh_rlink\<close> is \<open>None\<close> when it is \<^verbatim>\<open>NULL\<close>.\<close>

record quehead =
  qh_link :: "addr \<Rightarrow> addr"
  qh_rlink :: "addr \<Rightarrow> ptr"

definition insque :: "addr \<Rightarrow> addr \<Rightarrow> quehead \<Rightarrow> quehead" where
  "insque element head s =
     (let s = s\<lparr> qh_link := (qh_link s)(element := qh_link s head) \<rparr>;
          s = s\<lparr> qh_rlink := (qh_rlink s)(element := Some head) \<rparr>;
          s = s\<lparr> qh_link := (qh_link s)(head := element) \<rparr>
      in s\<lparr> qh_rlink := (qh_rlink s)(qh_link s element := Some element) \<rparr>)"

definition remque :: "addr \<Rightarrow> quehead \<Rightarrow> quehead option" where
  "remque element s = do {
     let s = s\<lparr> qh_rlink := (qh_rlink s)(qh_link s element := qh_rlink s element) \<rparr>;
     r \<leftarrow> qh_rlink s element;
     let s = s\<lparr> qh_link := (qh_link s)(r := qh_link s element) \<rparr>;
     Some (s\<lparr> qh_rlink := (qh_rlink s)(element := None) \<rparr>) }"

section \<open>Traversal\<close>

definition dlist_note :: "addr \<Rightarrow> addr list dlist_scheme \<Rightarrow> addr list dlist_scheme option" where
  "dlist_note v s = Some (dlist.more_update (\<lambda>seen. seen @ [v]) s)"

definition circleq_note :: "addr \<Rightarrow> addr list circleq_scheme \<Rightarrow> addr list circleq_scheme option" where
  "circleq_note v s = Some (circleq.more_update (\<lambda>seen. seen @ [v]) s)"

lemma fold_dlist_note:
  "fold (\<lambda>v. dlist.more_update (\<lambda>seen. seen @ [v])) xs s = dlist.more_update (\<lambda>seen. seen @ xs) s"
  by (induction xs arbitrary: s) simp_all

lemma fold_circleq_note:
  "fold (\<lambda>v. circleq.more_update (\<lambda>seen. seen @ [v])) xs s = circleq.more_update (\<lambda>seen. seen @ xs) s"
  by (induction xs arbitrary: s) simp_all

lemma dlist_note_all:
  "dlist_rep s xs \<Longrightarrow> DLIST_FOREACH dlist_note s = Some (dlist.more_update (\<lambda>seen. seen @ xs) s)"
  using foreach_visits [of "\<lambda>s v. DLIST_NEXT v s" s "lh_first s" xs "\<lambda>v. dlist.more_update (\<lambda>seen. seen @ [v])"]
  by (simp add: dlist_note_def [abs_def] fold_dlist_note DLIST_FOREACH_def DLIST_FIRST_def DLIST_NEXT_def
      dlist_rep_def)

lemma circleq_note_all:
  assumes "circleq_rep s xs"
  shows "CIRCLEQ_FOREACH circleq_note s = Some (circleq.more_update (\<lambda>seen. seen @ xs) s)"
    and "CIRCLEQ_FOREACH_REVERSE circleq_note s = Some (circleq.more_update (\<lambda>seen. seen @ rev xs) s)"
  using assms
    foreach_visits [of "\<lambda>s v. elm_of (cqe_next s v)" s "elm_of (cqh_first s)" xs
      "\<lambda>v. circleq.more_update (\<lambda>seen. seen @ [v])"]
    foreach_visits [of "\<lambda>s v. elm_of (cqe_prev s v)" s "elm_of (cqh_last s)" "rev xs"
      "\<lambda>v. circleq.more_update (\<lambda>seen. seen @ [v])"]
  by (simp_all add: circleq_note_def [abs_def] fold_circleq_note CIRCLEQ_FOREACH_def CIRCLEQ_FOREACH_REVERSE_def
      CIRCLEQ_FIRST_def CIRCLEQ_LAST_def CIRCLEQ_NEXT_def CIRCLEQ_PREV_def circleq_rep_def comp_def)

lemma dlist_initializer_rep: "dlist_rep (DLIST_HEAD_INITIALIZER nxt prv) []"
  by (simp add: dlist_rep_def DLIST_HEAD_INITIALIZER_def)

lemma dlist_init_rep: "dlist_rep (DLIST_INIT s) []"
  by (simp add: dlist_rep_def DLIST_INIT_def)

lemma circleq_init_rep: "circleq_rep (CIRCLEQ_INIT s) []"
  by (simp add: circleq_rep_def CIRCLEQ_INIT_def)

section \<open>Properties\<close>

text \<open>
  C14: From an initialised DLIST, every sequence of insertions (at the head, after or before
  an element) and removals on valid arguments implements the list operations: forward links
  and back pointers stay consistent, and DLIST_FOREACH visits the list in order. Insertion
  before an element and removal get by without the head, through the back pointers.
\<close>

theorem dlist_refines_list:
  assumes "ops_ok dlist_supported qs []"
  shows "\<exists>s'. run_ops dlist_exec qs (DLIST_INIT s) = Some s' \<and> dlist_rep s' (list_ops qs []) \<and>
     DLIST_FOREACH dlist_note s' = Some (dlist.more_update (\<lambda>seen. seen @ list_ops qs []) s')"
  using dlist.run_sim [OF dlist_init_rep assms] dlist_note_all by blast

definition fresh_dlist :: "addr list dlist_scheme" where
  "fresh_dlist = \<lparr> lh_first = Some 5, le_next = (\<lambda>_. None), le_prev = (\<lambda>_. Head_first), \<dots> = [] \<rparr>"

theorem dlist_refines_list_witness:
  "\<exists>s'. run_ops dlist_exec [Q_insert_head 1, Q_insert_before 1 2, Q_insert_after 2 3, Q_remove 2]
       (DLIST_INIT fresh_dlist) = Some s' \<and> dlist_rep s' [3, 1]"
  using dlist_refines_list [of "[Q_insert_head 1, Q_insert_before 1 2, Q_insert_after 2 3, Q_remove 2]" fresh_dlist]
  by auto

text \<open>
  C13: From an initialised CIRCLEQ, every sequence of its macro calls on valid arguments runs
  without writing an element field through the head pointer and implements the list
  operations; CIRCLEQ_EMPTY agrees with the list, CIRCLEQ_FOREACH visits it forwards and
  CIRCLEQ_FOREACH_REVERSE backwards, both ending at the head.
\<close>

theorem circleq_refines_list:
  assumes "ops_ok circleq_supported qs []"
  shows "\<exists>s'. run_ops circleq_exec qs (CIRCLEQ_INIT s) = Some s' \<and> circleq_rep s' (list_ops qs []) \<and>
     CIRCLEQ_EMPTY s' = (list_ops qs [] = []) \<and>
     CIRCLEQ_FOREACH circleq_note s' = Some (circleq.more_update (\<lambda>seen. seen @ list_ops qs []) s') \<and>
     CIRCLEQ_FOREACH_REVERSE circleq_note s' = Some (circleq.more_update (\<lambda>seen. seen @ rev (list_ops qs [])) s')"
  using circleq.run_sim [OF circleq_init_rep assms] circleq_note_all circleq_ends(1)
  unfolding CIRCLEQ_EMPTY_def by blast

definition fresh_circleq :: "addr list circleq_scheme" where
  "fresh_circleq = \<lparr> cqh_first = CQ_elm 5, cqh_last = CQ_head, cqe_next = (\<lambda>_. CQ_head), cqe_prev = (\<lambda>_. CQ_head),
     \<dots> = [] \<rparr>"

theorem circleq_refines_list_witness:
  "\<exists>s'. run_ops circleq_exec [Q_insert_tail 1, Q_insert_head 2, Q_insert_before 1 3, Q_insert_after 1 4, Q_remove 2]
       (CIRCLEQ_INIT fresh_circleq) = Some s' \<and> circleq_rep s' [3, 1, 4] \<and>
     CIRCLEQ_FOREACH_REVERSE circleq_note s' = Some (circleq.more_update (\<lambda>seen. seen @ [4, 1, 3]) s')"
  using circleq_refines_list [of "[Q_insert_tail 1, Q_insert_head 2, Q_insert_before 1 3, Q_insert_after 1 4,
      Q_remove 2]" fresh_circleq] by auto

text \<open>
  remque undoes insque: inserting a new element behind a head of a consistent ring and
  removing it again restores every link, forward and backward, of all other elements.
\<close>

theorem remque_insque:
  assumes "qh_rlink s (qh_link s head) = Some head" and "element \<noteq> head" and "element \<noteq> qh_link s head"
  shows "\<exists>s'. remque element (insque element head s) = Some s' \<and>
     (\<forall>a. a \<noteq> element \<longrightarrow> qh_link s' a = qh_link s a \<and> qh_rlink s' a = qh_rlink s a)"
  using assms by (simp add: insque_def remque_def)

theorem remque_insque_witness:
  "\<exists>s'. remque 7 (insque 7 1 \<lparr> qh_link = id, qh_rlink = Some \<rparr>) = Some s' \<and>
     qh_link s' 1 = 1 \<and> qh_rlink s' 1 = Some 1"
  using remque_insque [of "\<lparr> qh_link = id, qh_rlink = Some \<rparr>" 1 7] by force

end
