(* ===== verification/Tail_Queue.thy ===== *)
theory Tail_Queue
  imports Queue_Base
begin

text \<open>
  The tail queue \<^verbatim>\<open>TAILQ\<close> of \<^verbatim>\<open>queue.h\<close>, the structure that both queue programs use. The
  programs allocate and free its elements, so the state also says which elements are
  allocated (\<open>tq_live\<close>), and every macro is partial: reading or writing a field of an
  element that is not allocated is a fault. Clients extend the record with their own
  element fields.
\<close>

section \<open>Tail queues\<close>

record tailq =
  tqh_first :: ptr
  tqh_last :: loc
  tqe_next :: "addr \<Rightarrow> ptr"
  tqe_prev :: "addr \<Rightarrow> loc"
  tq_live :: "addr set"

text \<open>Field accesses of an element.\<close>

definition TAILQ_NEXT :: "addr \<Rightarrow> 'a tailq_scheme \<Rightarrow> ptr option" where
  "TAILQ_NEXT elm s = (if elm \<in> tq_live s then Some (tqe_next s elm) else None)"

definition TAILQ_get_prev :: "addr \<Rightarrow> 'a tailq_scheme \<Rightarrow> loc option" where
  "TAILQ_get_prev elm s = (if elm \<in> tq_live s then Some (tqe_prev s elm) else None)"

definition TAILQ_set_next :: "addr \<Rightarrow> ptr \<Rightarrow> 'a tailq_scheme \<Rightarrow> 'a tailq_scheme option" where
  "TAILQ_set_next elm v s = (if elm \<in> tq_live s then Some (s\<lparr> tqe_next := (tqe_next s)(elm := v) \<rparr>) else None)"

definition TAILQ_set_prev :: "addr \<Rightarrow> loc \<Rightarrow> 'a tailq_scheme \<Rightarrow> 'a tailq_scheme option" where
  "TAILQ_set_prev elm l s = (if elm \<in> tq_live s then Some (s\<lparr> tqe_prev := (tqe_prev s)(elm := l) \<rparr>) else None)"

text \<open>
  \<^verbatim>\<open>*l = v\<close> and \<^verbatim>\<open>*l\<close> through the address of a next field, and
  \<^verbatim>\<open>((struct headname *) l)->tqh_last\<close>: head and link have the same layout, so at the
  head's address this is its \<^verbatim>\<open>tqh_last\<close>, at an element's link its \<^verbatim>\<open>tqe_prev\<close>.
\<close>

definition TAILQ_store :: "loc \<Rightarrow> ptr \<Rightarrow> 'a tailq_scheme \<Rightarrow> 'a tailq_scheme option" where
  "TAILQ_store l v s =
     (case l of Head_first \<Rightarrow> Some (s\<lparr> tqh_first := v \<rparr>) | Next_of a \<Rightarrow> TAILQ_set_next a v s)"

definition TAILQ_load :: "loc \<Rightarrow> 'a tailq_scheme \<Rightarrow> ptr option" where
  "TAILQ_load l s = (case l of Head_first \<Rightarrow> Some (tqh_first s) | Next_of a \<Rightarrow> TAILQ_NEXT a s)"

definition TAILQ_last_field :: "loc \<Rightarrow> 'a tailq_scheme \<Rightarrow> loc option" where
  "TAILQ_last_field l s = (case l of Head_first \<Rightarrow> Some (tqh_last s) | Next_of a \<Rightarrow> TAILQ_get_prev a s)"

definition TAILQ_EMPTY :: "'a tailq_scheme \<Rightarrow> bool" where
  "TAILQ_EMPTY s \<longleftrightarrow> tqh_first s = None"

definition TAILQ_FIRST :: "'a tailq_scheme \<Rightarrow> ptr" where
  "TAILQ_FIRST s = tqh_first s"

definition TAILQ_LAST :: "'a tailq_scheme \<Rightarrow> ptr option" where
  "TAILQ_LAST s = do { l \<leftarrow> TAILQ_last_field (tqh_last s) s; TAILQ_load l s }"

definition TAILQ_PREV :: "addr \<Rightarrow> 'a tailq_scheme \<Rightarrow> ptr option" where
  "TAILQ_PREV elm s = do { p \<leftarrow> TAILQ_get_prev elm s; l \<leftarrow> TAILQ_last_field p s; TAILQ_load l s }"

text \<open>The three loops; \<open>body\<close> may change the queue and free elements.\<close>

partial_function (option) tailq_loop ::
    "(addr \<Rightarrow> 'h \<Rightarrow> ptr option) \<Rightarrow> (addr \<Rightarrow> 'h \<Rightarrow> 'h option) \<Rightarrow> ptr \<Rightarrow> 'h \<Rightarrow> 'h option" where
  "tailq_loop step body var h =
     (case var of None \<Rightarrow> Some h
      | Some v \<Rightarrow> do { h \<leftarrow> body v h; var \<leftarrow> step v h; tailq_loop step body var h })"

definition TAILQ_FOREACH ::
    "(addr \<Rightarrow> 'a tailq_scheme \<Rightarrow> 'a tailq_scheme option) \<Rightarrow> 'a tailq_scheme \<Rightarrow> 'a tailq_scheme option" where
  "TAILQ_FOREACH body s = tailq_loop TAILQ_NEXT body (TAILQ_FIRST s) s"

definition TAILQ_FOREACH_REVERSE ::
    "(addr \<Rightarrow> 'a tailq_scheme \<Rightarrow> 'a tailq_scheme option) \<Rightarrow> 'a tailq_scheme \<Rightarrow> 'a tailq_scheme option" where
  "TAILQ_FOREACH_REVERSE body s = do { var \<leftarrow> TAILQ_LAST s; tailq_loop TAILQ_PREV body var s }"

definition next_or_null :: "ptr \<Rightarrow> 'a tailq_scheme \<Rightarrow> ptr option" where
  "next_or_null var s = (case var of None \<Rightarrow> Some None | Some v \<Rightarrow> TAILQ_NEXT v s)"

partial_function (option) tailq_safe_loop ::
    "(ptr \<Rightarrow> 'h \<Rightarrow> ptr option) \<Rightarrow> (addr \<Rightarrow> 'h \<Rightarrow> 'h option) \<Rightarrow> ptr \<Rightarrow> ptr \<Rightarrow> 'h \<Rightarrow> 'h option" where
  "tailq_safe_loop nxt body var next h =
     (case var of None \<Rightarrow> Some h
      | Some v \<Rightarrow> do { h \<leftarrow> body v h; next' \<leftarrow> nxt next h; tailq_safe_loop nxt body next next' h })"

definition TAILQ_FOREACH_SAFE ::
    "(addr \<Rightarrow> 'a tailq_scheme \<Rightarrow> 'a tailq_scheme option) \<Rightarrow> 'a tailq_scheme \<Rightarrow> 'a tailq_scheme option" where
  "TAILQ_FOREACH_SAFE body s = do {
     next \<leftarrow> next_or_null (TAILQ_FIRST s) s;
     tailq_safe_loop next_or_null body (TAILQ_FIRST s) next s }"

declare tailq_loop.simps [code] tailq_safe_loop.simps [code]

text \<open>Initialisation and updates.\<close>

text \<open>The static initializer sets the same two fields of the head as \<^verbatim>\<open>TAILQ_INIT\<close>.\<close>

definition TAILQ_HEAD_INITIALIZER :: "'a tailq_scheme \<Rightarrow> 'a tailq_scheme" where
  "TAILQ_HEAD_INITIALIZER s = s\<lparr> tqh_first := None, tqh_last := Head_first \<rparr>"

definition TAILQ_INIT :: "'a tailq_scheme \<Rightarrow> 'a tailq_scheme" where
  "TAILQ_INIT s = s\<lparr> tqh_first := None, tqh_last := Head_first \<rparr>"

definition TAILQ_INSERT_AFTER :: "addr \<Rightarrow> addr \<Rightarrow> 'a tailq_scheme \<Rightarrow> 'a tailq_scheme option" where
  "TAILQ_INSERT_AFTER listelm elm s = do {
     n \<leftarrow> TAILQ_NEXT listelm s;
     s \<leftarrow> TAILQ_set_next elm n s;
     s \<leftarrow> (case n of Some e \<Rightarrow> TAILQ_set_prev e (Next_of elm) s
            | None \<Rightarrow> Some (s\<lparr> tqh_last := Next_of elm \<rparr>));
     s \<leftarrow> TAILQ_set_next listelm (Some elm) s;
     TAILQ_set_prev elm (Next_of listelm) s }"

definition TAILQ_INSERT_BEFORE :: "addr \<Rightarrow> addr \<Rightarrow> 'a tailq_scheme \<Rightarrow> 'a tailq_scheme option" where
  "TAILQ_INSERT_BEFORE listelm elm s = do {
     p \<leftarrow> TAILQ_get_prev listelm s;
     s \<leftarrow> TAILQ_set_prev elm p s;
     s \<leftarrow> TAILQ_set_next elm (Some listelm) s;
     p \<leftarrow> TAILQ_get_prev listelm s;
     s \<leftarrow> TAILQ_store p (Some elm) s;
     TAILQ_set_prev listelm (Next_of elm) s }"

definition TAILQ_INSERT_HEAD :: "addr \<Rightarrow> 'a tailq_scheme \<Rightarrow> 'a tailq_scheme option" where
  "TAILQ_INSERT_HEAD elm s = do {
     let n = TAILQ_FIRST s;
     s \<leftarrow> TAILQ_set_next elm n s;
     s \<leftarrow> (case n of Some e \<Rightarrow> TAILQ_set_prev e (Next_of elm) s
            | None \<Rightarrow> Some (s\<lparr> tqh_last := Next_of elm \<rparr>));
     let s = s\<lparr> tqh_first := Some elm \<rparr>;
     TAILQ_set_prev elm Head_first s }"

definition TAILQ_INSERT_TAIL :: "addr \<Rightarrow> 'a tailq_scheme \<Rightarrow> 'a tailq_scheme option" where
  "TAILQ_INSERT_TAIL elm s = do {
     s \<leftarrow> TAILQ_set_next elm None s;
     s \<leftarrow> TAILQ_set_prev elm (tqh_last s) s;
     s \<leftarrow> TAILQ_store (tqh_last s) (Some elm) s;
     Some (s\<lparr> tqh_last := Next_of elm \<rparr>) }"

definition TAILQ_REMOVE :: "addr \<Rightarrow> 'a tailq_scheme \<Rightarrow> 'a tailq_scheme option" where
  "TAILQ_REMOVE elm s = do {
     n \<leftarrow> TAILQ_NEXT elm s;
     p \<leftarrow> TAILQ_get_prev elm s;
     s \<leftarrow> (case n of Some e \<Rightarrow> TAILQ_set_prev e p s
            | None \<Rightarrow> Some (s\<lparr> tqh_last := p \<rparr>));
     p \<leftarrow> TAILQ_get_prev elm s;
     n \<leftarrow> TAILQ_NEXT elm s;
     TAILQ_store p n s }"

section \<open>Representation\<close>

definition tailq_rep :: "'a tailq_scheme \<Rightarrow> addr list \<Rightarrow> bool" where
  "tailq_rep s xs \<longleftrightarrow> chain (tqe_next s) (tqh_first s) xs \<and> tqh_last s = end_loc xs \<and>
     backlinks (tqe_prev s) Head_first xs \<and> set xs \<subseteq> tq_live s"

fun tailq_exec :: "queue_op \<Rightarrow> 'a tailq_scheme \<Rightarrow> 'a tailq_scheme option" where
  "tailq_exec Q_init s = Some (TAILQ_INIT s)"
| "tailq_exec (Q_insert_head x) s = TAILQ_INSERT_HEAD x s"
| "tailq_exec (Q_insert_tail x) s = TAILQ_INSERT_TAIL x s"
| "tailq_exec (Q_insert_after y x) s = TAILQ_INSERT_AFTER y x s"
| "tailq_exec (Q_insert_before y x) s = TAILQ_INSERT_BEFORE y x s"
| "tailq_exec (Q_remove x) s = TAILQ_REMOVE x s"
| "tailq_exec _ s = None"

text \<open>The macros that the structure has, on elements from a set \<open>L\<close>.\<close>

fun tailq_supported :: "addr set \<Rightarrow> queue_op \<Rightarrow> bool" where
  "tailq_supported L Q_init \<longleftrightarrow> True"
| "tailq_supported L (Q_insert_head x) \<longleftrightarrow> x \<in> L"
| "tailq_supported L (Q_insert_tail x) \<longleftrightarrow> x \<in> L"
| "tailq_supported L (Q_insert_after y x) \<longleftrightarrow> x \<in> L"
| "tailq_supported L (Q_insert_before y x) \<longleftrightarrow> x \<in> L"
| "tailq_supported L (Q_remove x) \<longleftrightarrow> True"
| "tailq_supported L _ \<longleftrightarrow> False"

lemmas tailq_access = TAILQ_NEXT_def TAILQ_get_prev_def TAILQ_set_next_def TAILQ_set_prev_def
  TAILQ_store_def TAILQ_load_def TAILQ_last_field_def

text \<open>What every update leaves alone: the set of allocated elements and the client's fields.\<close>

definition tailq_same_env :: "'a tailq_scheme \<Rightarrow> 'a tailq_scheme \<Rightarrow> bool" where
  "tailq_same_env s s' \<longleftrightarrow> tq_live s' = tq_live s \<and> tailq.more s' = tailq.more s"

lemma tailq_insert_tail_rep:
  assumes "tailq_rep s xs" and "x \<notin> set xs" and "x \<in> tq_live s"
  shows "\<exists>s'. TAILQ_INSERT_TAIL x s = Some s' \<and> tailq_rep s' (xs @ [x]) \<and> tailq_same_env s s'"
proof (cases xs rule: rev_cases)
  case Nil
  with assms show ?thesis
    by (simp add: tailq_rep_def tailq_same_env_def TAILQ_INSERT_TAIL_def tailq_access)
next
  case (snoc ys y)
  with assms chain_distinct [of "tqe_next s" "tqh_first s" xs] show ?thesis
    by (auto simp: tailq_rep_def tailq_same_env_def TAILQ_INSERT_TAIL_def tailq_access chain_append)
qed

lemma tailq_insert_head_rep:
  assumes "tailq_rep s xs" and "x \<notin> set xs" and "x \<in> tq_live s"
  shows "\<exists>s'. TAILQ_INSERT_HEAD x s = Some s' \<and> tailq_rep s' (x # xs) \<and> tailq_same_env s s'"
  using assms chain_distinct [of "tqe_next s" "tqh_first s" xs]
  by (cases xs) (auto simp: tailq_rep_def tailq_same_env_def TAILQ_INSERT_HEAD_def TAILQ_FIRST_def tailq_access)

lemma tailq_insert_after_rep:
  assumes "tailq_rep s (ys @ y # zs)" and "x \<notin> set (ys @ y # zs)" and "x \<in> tq_live s"
  shows "\<exists>s'. TAILQ_INSERT_AFTER y x s = Some s' \<and> tailq_rep s' (ys @ y # x # zs) \<and> tailq_same_env s s'"
proof -
  have ch: "chain (tqe_next s) (tqh_first s) (ys @ y # zs)"
    using assms by (simp add: tailq_rep_def)
  show ?thesis using chain_at [OF ch] assms chain_distinct [OF ch]
    by (cases zs) (auto simp: tailq_rep_def tailq_same_env_def TAILQ_INSERT_AFTER_def tailq_access chain_append)
qed

lemma tailq_insert_before_rep:
  assumes "tailq_rep s (ys @ y # zs)" and "x \<notin> set (ys @ y # zs)" and "x \<in> tq_live s"
  shows "\<exists>s'. TAILQ_INSERT_BEFORE y x s = Some s' \<and> tailq_rep s' (ys @ x # y # zs) \<and> tailq_same_env s s'"
proof -
  have ch: "chain (tqe_next s) (tqh_first s) (ys @ y # zs)"
    using assms by (simp add: tailq_rep_def)
  show ?thesis using chain_at [OF ch] assms chain_distinct [OF ch]
    by (cases ys rule: rev_cases)
      (auto simp: tailq_rep_def tailq_same_env_def TAILQ_INSERT_BEFORE_def tailq_access chain_append)
qed

lemma tailq_remove_rep:
  assumes "tailq_rep s (ys @ y # zs)"
  shows "\<exists>s'. TAILQ_REMOVE y s = Some s' \<and> tailq_rep s' (ys @ zs) \<and> tailq_same_env s s'"
proof -
  have ch: "chain (tqe_next s) (tqh_first s) (ys @ y # zs)"
    using assms by (simp add: tailq_rep_def)
  show ?thesis using chain_at [OF ch] assms chain_distinct [OF ch]
    by (cases ys rule: rev_cases; cases zs)
      (auto simp: tailq_rep_def tailq_same_env_def TAILQ_REMOVE_def tailq_access chain_append)
qed

definition tailq_rep_on :: "addr set \<Rightarrow> 'a tailq_scheme \<Rightarrow> addr list \<Rightarrow> bool" where
  "tailq_rep_on L s xs \<longleftrightarrow> tailq_rep s xs \<and> L \<subseteq> tq_live s"

interpretation tailq: fifo_sim "tailq_rep_on L" tailq_exec "tailq_supported L" L for L
proof (unfold_locales)
  fix s :: "'a tailq_scheme" and xs q
  assume r: "tailq_rep_on L s xs" and sup: "tailq_supported L q" and ok: "op_ok q xs"
  then have rep: "tailq_rep s xs" and live: "\<And>x. x \<in> L \<Longrightarrow> x \<in> tq_live s"
    by (auto simp: tailq_rep_on_def)
  have keep: "(\<exists>s'. tailq_exec q s = Some s' \<and> tailq_rep s' ys \<and> tailq_same_env s s') \<Longrightarrow>
      \<exists>s'. tailq_exec q s = Some s' \<and> tailq_rep_on L s' ys" for ys
    using r by (auto simp: tailq_rep_on_def tailq_same_env_def)
  have split: "\<exists>ys zs. xs = ys @ y # zs \<and> y \<notin> set ys" if "y \<in> set xs" for y
    using that by (blast elim: split_member)
  show "\<exists>s'. tailq_exec q s = Some s' \<and> tailq_rep_on L s' (list_op q xs)"
  proof (intro keep, cases q)
    case (Q_insert_after y x)
    with ok split [of y] rep sup live show "\<exists>s'. tailq_exec q s = Some s' \<and> tailq_rep s' (list_op q xs) \<and> tailq_same_env s s'"
      by (auto simp: insert_after_split tailq_insert_after_rep)
  next
    case (Q_insert_before y x)
    with ok split [of y] rep sup live show "\<exists>s'. tailq_exec q s = Some s' \<and> tailq_rep s' (list_op q xs) \<and> tailq_same_env s s'"
      by (auto simp: insert_before_split tailq_insert_before_rep)
  next
    case (Q_remove y)
    with ok split [of y] rep show "\<exists>s'. tailq_exec q s = Some s' \<and> tailq_rep s' (list_op q xs) \<and> tailq_same_env s s'"
      by (auto simp: remove1_split tailq_remove_rep)
  next
    case Q_init
    then show "\<exists>s'. tailq_exec q s = Some s' \<and> tailq_rep s' (list_op q xs) \<and> tailq_same_env s s'"
      by (simp add: tailq_rep_def TAILQ_INIT_def tailq_same_env_def)
  qed (use rep ok sup live in \<open>simp_all add: tailq_insert_head_rep tailq_insert_tail_rep\<close>)
qed (simp_all)

section \<open>Ends and traversal\<close>

text \<open>Reading the pointer that leads to a position of the queue gives the element before it.\<close>

definition last_of :: "addr list \<Rightarrow> ptr" where
  "last_of xs = (if xs = [] then None else Some (last xs))"

lemma last_of_simps [simp]: "last_of [] = None" "last_of (xs @ [x]) = Some x"
  by (simp_all add: last_of_def)

lemma tailq_back_pointer:
  assumes "tailq_rep s (xs @ ys)"
  shows "(TAILQ_last_field (if ys = [] then tqh_last s else tqe_prev s (hd ys)) s \<bind> (\<lambda>l. TAILQ_load l s)) =
     Some (last_of xs)"
proof (cases xs rule: rev_cases)
  case Nil
  with assms show ?thesis
    using chain_last [of "tqe_next s" "tqh_first s" ys] last_in_set [of ys]
    by (cases ys) (auto simp: tailq_rep_def tailq_access end_loc_def simp del: chain.simps(2) last.simps)
next
  case (snoc us u)
  with assms show ?thesis
    by (cases us rule: rev_cases; cases ys) (auto simp: tailq_rep_def tailq_access chain_append last_of_def)
qed

lemma TAILQ_LAST_rep: "tailq_rep s xs \<Longrightarrow> TAILQ_LAST s = Some (last_of xs)"
  using tailq_back_pointer [of s xs "[]"] by (simp add: TAILQ_LAST_def)

lemma TAILQ_PREV_rep: "tailq_rep s (xs @ y # ys) \<Longrightarrow> TAILQ_PREV y s = Some (last_of xs)"
  using tailq_back_pointer [of s xs "y # ys"] by (simp add: TAILQ_PREV_def TAILQ_get_prev_def tailq_rep_def)

lemma TAILQ_NEXT_rep: "tailq_rep s (xs @ y # ys) \<Longrightarrow> TAILQ_NEXT y s = Some (first_of ys)"
  using chain_at [of "tqe_next s" "tqh_first s" xs y ys] by (simp add: TAILQ_NEXT_def tailq_rep_def)

lemma TAILQ_FIRST_rep: "tailq_rep s xs \<Longrightarrow> TAILQ_FIRST s = first_of xs"
  unfolding TAILQ_FIRST_def tailq_rep_def by (blast dest: chain_first)

lemma TAILQ_EMPTY_rep: "tailq_rep s xs \<Longrightarrow> TAILQ_EMPTY s = (xs = [])"
  using TAILQ_FIRST_rep [of s xs] by (simp add: TAILQ_FIRST_def TAILQ_EMPTY_def)

text \<open>A loop whose body leaves the links alone visits what its step function leads to.\<close>

fun steps :: "(addr \<Rightarrow> 'h \<Rightarrow> ptr option) \<Rightarrow> 'h \<Rightarrow> ptr \<Rightarrow> addr list \<Rightarrow> bool" where
  "steps step h p [] \<longleftrightarrow> p = None"
| "steps step h p (x # xs) \<longleftrightarrow> p = Some x \<and> (\<exists>q. step x h = Some q \<and> steps step h q xs)"

lemma steps_frame: "(\<And>w. step w h' = step w h) \<Longrightarrow> steps step h' p xs = steps step h p xs"
  by (induction xs arbitrary: p) auto

lemma tailq_loop_visits:
  assumes "steps step h p xs" and "\<And>v w h. step w (upd v h) = step w h"
  shows "tailq_loop step (\<lambda>v h. Some (upd v h)) p h = Some (fold upd xs h)"
  using assms(1)
proof (induction xs arbitrary: p h)
  case Nil then show ?case by (subst tailq_loop.simps) simp
next
  case (Cons x xs)
  then obtain q where q: "step x (upd x h) = Some q" "steps step (upd x h) q xs"
    using assms(2) steps_frame [of step "upd x h" h] by auto
  then show ?case using Cons by (subst tailq_loop.simps) simp
qed

lemma tailq_steps_forward: "tailq_rep s (xs @ ys) \<Longrightarrow> steps TAILQ_NEXT s (first_of ys) ys"
proof (induction ys arbitrary: xs)
  case (Cons y ys)
  then show ?case using TAILQ_NEXT_rep [OF Cons.prems] Cons.IH [of "xs @ [y]"] by simp
qed simp

lemma tailq_steps_reverse: "tailq_rep s (xs @ ys) \<Longrightarrow> steps TAILQ_PREV s (last_of xs) (rev xs)"
proof (induction xs arbitrary: ys rule: rev_induct)
  case (snoc x xs)
  then have r: "tailq_rep s (xs @ x # ys)" by simp
  then show ?case using TAILQ_PREV_rep [OF r] snoc.IH by simp
qed simp

definition tailq_note :: "addr \<Rightarrow> addr list tailq_scheme \<Rightarrow> addr list tailq_scheme option" where
  "tailq_note v s = Some (tailq.more_update (\<lambda>seen. seen @ [v]) s)"

lemma access_more [simp]:
  "TAILQ_NEXT w (tailq.more_update f s) = TAILQ_NEXT w s"
  "TAILQ_get_prev w (tailq.more_update f s) = TAILQ_get_prev w s"
  "TAILQ_load l (tailq.more_update f s) = TAILQ_load l s"
  "TAILQ_last_field l (tailq.more_update f s) = TAILQ_last_field l s"
  "TAILQ_PREV w (tailq.more_update f s) = TAILQ_PREV w s"
proof -
  show 1: "TAILQ_NEXT w (tailq.more_update f s) = TAILQ_NEXT w s" for w
    by (simp add: TAILQ_NEXT_def)
  show 2: "TAILQ_get_prev w (tailq.more_update f s) = TAILQ_get_prev w s" for w
    by (simp add: TAILQ_get_prev_def)
  show 3: "TAILQ_load l (tailq.more_update f s) = TAILQ_load l s" for l
    by (simp add: TAILQ_load_def 1 split: loc.split)
  show 4: "TAILQ_last_field l (tailq.more_update f s) = TAILQ_last_field l s" for l
    by (simp add: TAILQ_last_field_def 2 split: loc.split)
  show "TAILQ_PREV w (tailq.more_update f s) = TAILQ_PREV w s"
    by (simp add: TAILQ_PREV_def 2 3 4)
qed

lemma fold_note:
  "fold (\<lambda>v. tailq.more_update (\<lambda>seen. seen @ [v])) xs s = tailq.more_update (\<lambda>seen. seen @ xs) s"
  by (induction xs arbitrary: s) simp_all

lemma TAILQ_FOREACH_visits:
  assumes "tailq_rep s xs" and "\<And>v w s. TAILQ_NEXT w (upd v s) = TAILQ_NEXT w s"
  shows "TAILQ_FOREACH (\<lambda>v s. Some (upd v s)) s = Some (fold upd xs s)"
  using tailq_loop_visits [OF tailq_steps_forward [of s "[]" xs], of upd] assms
  by (simp add: TAILQ_FOREACH_def TAILQ_FIRST_rep)

lemma TAILQ_FOREACH_REVERSE_visits:
  assumes "tailq_rep s xs" and "\<And>v w s. TAILQ_PREV w (upd v s) = TAILQ_PREV w s"
  shows "TAILQ_FOREACH_REVERSE (\<lambda>v s. Some (upd v s)) s = Some (fold upd (rev xs) s)"
  using tailq_loop_visits [OF tailq_steps_reverse [of s xs "[]"], of upd] assms
  by (simp add: TAILQ_FOREACH_REVERSE_def TAILQ_LAST_rep)

lemma tailq_note_all:
  assumes "tailq_rep s xs"
  shows "TAILQ_FOREACH tailq_note s = Some (tailq.more_update (\<lambda>seen. seen @ xs) s)"
    and "TAILQ_FOREACH_REVERSE tailq_note s = Some (tailq.more_update (\<lambda>seen. seen @ rev xs) s)"
  using TAILQ_FOREACH_visits [OF assms, of "\<lambda>v. tailq.more_update (\<lambda>seen. seen @ [v])"]
    TAILQ_FOREACH_REVERSE_visits [OF assms, of "\<lambda>v. tailq.more_update (\<lambda>seen. seen @ [v])"]
  by (simp_all add: tailq_note_def [abs_def] fold_note)

text \<open>
  \<open>TAILQ_FOREACH_SAFE\<close> with a body that takes the current element out of the queue, and
  may free it, empties the queue. \<open>P s xs\<close> is the invariant when \<open>xs\<close> is left.
\<close>

lemma next_or_null_rep: "tailq_rep s xs \<Longrightarrow> next_or_null (first_of xs) s = Some (first_of (tl xs))"
  using TAILQ_NEXT_rep [of s "[]"] by (cases xs) (simp_all add: next_or_null_def)

lemma TAILQ_FOREACH_SAFE_drains:
  assumes P: "P s xs" and rep: "\<And>s xs. P s xs \<Longrightarrow> tailq_rep s xs"
    and body: "\<And>s x xs. P s (x # xs) \<Longrightarrow> \<exists>s'. body x s = Some s' \<and> P s' xs"
  shows "\<exists>s'. TAILQ_FOREACH_SAFE body s = Some s' \<and> P s' []"
proof -
  have "\<exists>s'. tailq_safe_loop next_or_null body (first_of xs) (first_of (tl xs)) s = Some s' \<and> P s' []"
    using P
  proof (induction xs arbitrary: s)
    case Nil then show ?case by (subst tailq_safe_loop.simps) simp
  next
    case (Cons x xs)
    then obtain s1 where s1: "body x s = Some s1" "P s1 xs" using body by blast
    then have "next_or_null (first_of xs) s1 = Some (first_of (tl xs))"
      using next_or_null_rep rep by blast
    with s1 Cons.IH [OF s1(2)] show ?case by (subst tailq_safe_loop.simps) simp
  qed
  then show ?thesis using next_or_null_rep [OF rep [OF P]] TAILQ_FIRST_rep [OF rep [OF P]]
    by (simp add: TAILQ_FOREACH_SAFE_def)
qed

lemma tailq_init_rep: "L \<subseteq> tq_live s \<Longrightarrow> tailq_rep_on L (TAILQ_INIT s) []"
  by (simp add: tailq_rep_on_def tailq_rep_def TAILQ_INIT_def)

section \<open>Properties\<close>

text \<open>
  C9: From an initialised TAILQ, every sequence of macro calls on allocated elements whose
  arguments are in the queue (or, for new elements, not in it) runs without a fault and has
  the effect of the same list operations. TAILQ_FIRST and TAILQ_LAST (which reads the last
  element through a head and a link of equal layout) are the ends of the list,
  TAILQ_FOREACH visits it forwards and TAILQ_FOREACH_REVERSE backwards.
\<close>

theorem tailq_refines_list:
  assumes "L \<subseteq> tq_live s" and "ops_ok (tailq_supported L) qs []"
  shows "\<exists>s'. run_ops tailq_exec qs (TAILQ_INIT s) = Some s' \<and> tailq_rep s' (list_ops qs []) \<and>
     TAILQ_FIRST s' = first_of (list_ops qs []) \<and> TAILQ_LAST s' = Some (last_of (list_ops qs [])) \<and>
     TAILQ_FOREACH tailq_note s' = Some (tailq.more_update (\<lambda>seen. seen @ list_ops qs []) s') \<and>
     TAILQ_FOREACH_REVERSE tailq_note s' = Some (tailq.more_update (\<lambda>seen. seen @ rev (list_ops qs [])) s')"
  using tailq.run_sim [OF tailq_init_rep [OF assms(1)] assms(2)]
    TAILQ_FIRST_rep TAILQ_LAST_rep tailq_note_all unfolding tailq_rep_on_def by blast

definition fresh_tailq :: "addr list tailq_scheme" where
  "fresh_tailq = \<lparr> tqh_first = Some 9, tqh_last = Head_first, tqe_next = (\<lambda>_. None),
     tqe_prev = (\<lambda>_. Head_first), tq_live = {1, 2, 3, 4}, \<dots> = [] \<rparr>"

theorem tailq_refines_list_witness:
  "\<exists>s'. run_ops tailq_exec [Q_insert_tail 1, Q_insert_head 2, Q_insert_before 1 3, Q_insert_after 1 4,
         Q_remove 2] (TAILQ_INIT fresh_tailq) = Some s' \<and>
     tailq_rep s' [3, 1, 4] \<and> TAILQ_LAST s' = Some (Some 4) \<and>
     TAILQ_FOREACH_REVERSE tailq_note s' = Some (tailq.more_update (\<lambda>seen. seen @ [4, 1, 3]) s')"
  using tailq_refines_list [of "{1, 2, 3, 4}" fresh_tailq
      "[Q_insert_tail 1, Q_insert_head 2, Q_insert_before 1 3, Q_insert_after 1 4, Q_remove 2]"]
  by (auto simp: fresh_tailq_def last_of_def)

text \<open>
  Used with TAILQ_INSERT_TAIL and TAILQ_REMOVE only, the queue is first in, first out:
  after distinct allocated elements were appended one by one and the first \<open>n\<close> of them
  removed, exactly the others are queued, in the order in which they came.
\<close>

theorem tailq_fifo:
  assumes "distinct xs" and "set xs \<subseteq> tq_live s" and "n \<le> length xs"
  shows "\<exists>s'. run_ops tailq_exec (map Q_insert_tail xs @ map Q_remove (take n xs)) (TAILQ_INIT s) = Some s' \<and>
     tailq_rep s' (drop n xs)"
  using tailq.fifo [OF tailq_init_rep [OF assms(2)] assms(1) subset_refl assms(3)]
  by (auto simp: tailq_rep_on_def)

theorem tailq_fifo_witness:
  "\<exists>s'. run_ops tailq_exec [Q_insert_tail 3, Q_insert_tail 1, Q_insert_tail 2, Q_remove 3] (TAILQ_INIT fresh_tailq) = Some s' \<and>
     tailq_rep s' [1, 2]"
  using tailq_fifo [of "[3, 1, 2]" fresh_tailq 1] by (simp add: fresh_tailq_def)

end
