(* ===== verification/Queue_Threads.thy ===== *)
theory Queue_Threads
  imports Tail_Queue
begin

text \<open>
  The two programs built on the tail queue: the kernel module \<^verbatim>\<open>Kthread_Queue/thread.c\<close>,
  in which one kernel thread appends records and another one drains the queue under a
  spinlock, and the user-space example \<^verbatim>\<open>queue_test_userspace.c\<close>.

  The module is a state machine. Each thread has a program counter; one call of
  \<open>test_thread1\<close>, \<open>test_thread2\<close> or \<open>test_exit\<close> is one step of that thread between two
  points at which another thread can interfere. A thread that spins on the lock, or that
  waits for another one, makes a step that changes nothing. What the environment chooses
  (a pending signal, the result of \<^verbatim>\<open>kmalloc\<close>) is an argument of the step. \<open>None\<close> is a
  fault: an access to a record that is not allocated, or \<^verbatim>\<open>kthread_stop\<close> on something that
  is not a running thread.
\<close>

section \<open>The kernel module\<close>

datatype pc1 = T1_Off | T1_Wait | T1_Alloc | T1_Lock addr | T1_Insert addr | T1_Unlock | T1_Count | T1_Check | T1_End
datatype pc2 = T2_Off | T2_Wait | T2_Lock | T2_Loop ptr ptr | T2_Unlock | T2_Check | T2_End
datatype exit_pc = X_Idle | X_Wait1 | X_Wait2 | X_Done

datatype qmsg = Thread1_count c_int | Thread2_count c_int | Removing c_int

record scan_module = tailq +
  datum :: "addr \<Rightarrow> c_int"
  scanQueueLock :: bool
  printk_log :: "qmsg list"
  count1 :: c_int
  count2 :: c_int
  status1 :: c_int
  status2 :: c_int
  stop1 :: bool
  stop2 :: bool
  pc1 :: pc1
  pc2 :: pc2
  pcx :: exit_pc
  produced :: "c_int list"

text \<open>\<open>produced\<close> is no variable of the module: it records the data of the records in the order
  in which they were put into the queue.\<close>

definition initial_module :: "(addr \<Rightarrow> ptr) \<Rightarrow> (addr \<Rightarrow> loc) \<Rightarrow> (addr \<Rightarrow> c_int) \<Rightarrow> scan_module" where
  "initial_module nxt prv dat =
     \<lparr> tqh_first = None, tqh_last = Head_first, tqe_next = nxt, tqe_prev = prv, tq_live = {},
       datum = dat, scanQueueLock = False, printk_log = [], count1 = 0, count2 = 0,
       status1 = 1, status2 = 1, stop1 = False, stop2 = False,
       pc1 = T1_Off, pc2 = T2_Off, pcx = X_Idle, produced = [] \<rparr>"

definition kfree_record :: "addr \<Rightarrow> 'a tailq_scheme \<Rightarrow> 'a tailq_scheme option" where
  "kfree_record a s = (if a \<in> tq_live s then Some (s\<lparr> tq_live := tq_live s - {a} \<rparr>) else None)"

text \<open>The thread function of the producer.\<close>

definition test_thread1 :: "bool \<Rightarrow> ptr \<Rightarrow> scan_module \<Rightarrow> scan_module option" where
  "test_thread1 signal_pending kmalloc_result s =
     (case pc1 s of
        T1_Off \<Rightarrow> Some s
      | T1_Wait \<Rightarrow> Some (s\<lparr> pc1 := if signal_pending then T1_End else T1_Alloc \<rparr>)
      | T1_Alloc \<Rightarrow>
          (let s = s\<lparr> printk_log := printk_log s @ [Thread1_count (count1 s)] \<rparr>
           in case kmalloc_result of
                None \<Rightarrow> Some (s\<lparr> pc1 := T1_Count \<rparr>)
              | Some a \<Rightarrow> Some (s\<lparr> tq_live := insert a (tq_live s), datum := (datum s)(a := count1 s),
                                   pc1 := T1_Lock a \<rparr>))
      | T1_Lock a \<Rightarrow> Some (if scanQueueLock s then s else s\<lparr> scanQueueLock := True, pc1 := T1_Insert a \<rparr>)
      | T1_Insert a \<Rightarrow> do {
          s \<leftarrow> TAILQ_INSERT_TAIL a s;
          Some (s\<lparr> pc1 := T1_Unlock, produced := produced s @ [datum s a] \<rparr>) }
      | T1_Unlock \<Rightarrow> Some (s\<lparr> scanQueueLock := False, pc1 := T1_Count \<rparr>)
      | T1_Count \<Rightarrow> Some (s\<lparr> count1 := count1 s + 1, pc1 := T1_Check \<rparr>)
      | T1_Check \<Rightarrow> Some (s\<lparr> pc1 := if stop1 s then T1_End else T1_Wait \<rparr>)
      | T1_End \<Rightarrow> Some s)"

text \<open>The loop body of the consumer: print, unlink, free.\<close>

definition drain_body :: "addr \<Rightarrow> scan_module \<Rightarrow> scan_module option" where
  "drain_body tempInsert s = do {
     s \<leftarrow> (if tempInsert \<in> tq_live s
           then Some (s\<lparr> printk_log := printk_log s @ [Removing (datum s tempInsert)] \<rparr>) else None);
     s \<leftarrow> TAILQ_REMOVE tempInsert s;
     kfree_record tempInsert s }"

text \<open>The thread function of the consumer; one step in \<open>T2_Loop\<close> is one iteration of
  \<^verbatim>\<open>TAILQ_FOREACH_SAFE\<close>.\<close>

definition test_thread2 :: "bool \<Rightarrow> scan_module \<Rightarrow> scan_module option" where
  "test_thread2 signal_pending s =
     (case pc2 s of
        T2_Off \<Rightarrow> Some s
      | T2_Wait \<Rightarrow>
          Some (if signal_pending then s\<lparr> pc2 := T2_End \<rparr>
                else s\<lparr> printk_log := printk_log s @ [Thread2_count (count2 s)], count2 := count2 s + 1, pc2 := T2_Lock \<rparr>)
      | T2_Lock \<Rightarrow>
          if scanQueueLock s then Some s
          else do {
            let s = s\<lparr> scanQueueLock := True \<rparr>;
            tmp \<leftarrow> next_or_null (TAILQ_FIRST s) s;
            Some (s\<lparr> pc2 := T2_Loop (TAILQ_FIRST s) tmp \<rparr>) }
      | T2_Loop tempInsert tmp \<Rightarrow>
          (case tempInsert of
             None \<Rightarrow> Some (s\<lparr> pc2 := T2_Unlock \<rparr>)
           | Some v \<Rightarrow> do {
               s \<leftarrow> drain_body v s;
               tmp' \<leftarrow> next_or_null tmp s;
               Some (s\<lparr> pc2 := T2_Loop tmp tmp' \<rparr>) })
      | T2_Unlock \<Rightarrow> Some (s\<lparr> scanQueueLock := False, pc2 := T2_Check \<rparr>)
      | T2_Check \<Rightarrow> Some (s\<lparr> pc2 := if stop2 s then T2_End else T2_Wait \<rparr>)
      | T2_End \<Rightarrow> Some s)"

text \<open>
  Loading starts both threads; the results of \<^verbatim>\<open>kthread_run\<close> are not checked. Unloading
  stops first the producer and then the consumer; \<^verbatim>\<open>kthread_stop\<close> needs a thread that was
  started and has not returned, and waits until it returns.
\<close>

definition test_init :: "bool \<Rightarrow> bool \<Rightarrow> scan_module \<Rightarrow> scan_module \<times> int" where
  "test_init run1_ok run2_ok s =
     (let s = s\<lparr> status1 := 1, status2 := 1 \<rparr>;
          s = (if run1_ok then s\<lparr> pc1 := T1_Wait \<rparr> else s);
          s = (if run2_ok then s\<lparr> pc2 := T2_Wait \<rparr> else s)
      in (s, 0))"

definition test_exit :: "scan_module \<Rightarrow> scan_module option" where
  "test_exit s =
     (case pcx s of
        X_Idle \<Rightarrow>
          (let s = s\<lparr> status1 := 0 \<rparr>
           in if pc1 s = T1_Off \<or> pc1 s = T1_End then None
              else Some (s\<lparr> stop1 := True, pcx := X_Wait1 \<rparr>))
      | X_Wait1 \<Rightarrow>
          if pc1 s \<noteq> T1_End then Some s
          else (let s = s\<lparr> status2 := 0 \<rparr>
                in if pc2 s = T2_Off \<or> pc2 s = T2_End then None
                   else Some (s\<lparr> stop2 := True, pcx := X_Wait2 \<rparr>))
      | X_Wait2 \<Rightarrow> Some (if pc2 s \<noteq> T2_End then s else s\<lparr> pcx := X_Done \<rparr>)
      | X_Done \<Rightarrow> Some s)"

section \<open>Reachable states\<close>

text \<open>\<open>kmalloc\<close> returns \<^verbatim>\<open>NULL\<close> or an address that is not in use; \<open>sig\<close> says whether signals
  may be delivered to the threads, \<open>run1\<close> and \<open>run2\<close> whether \<^verbatim>\<open>kthread_run\<close> started them.\<close>

definition kmalloc_ok :: "ptr \<Rightarrow> 'a tailq_scheme \<Rightarrow> bool" where
  "kmalloc_ok p s \<longleftrightarrow> (case p of None \<Rightarrow> True | Some a \<Rightarrow> a \<notin> tq_live s)"

inductive module_step :: "bool \<Rightarrow> scan_module \<Rightarrow> scan_module \<Rightarrow> bool" for sig where
  step_thread1: "(signal \<longrightarrow> sig) \<Longrightarrow> kmalloc_ok p s \<Longrightarrow> test_thread1 signal p s = Some s' \<Longrightarrow> module_step sig s s'"
| step_thread2: "(signal \<longrightarrow> sig) \<Longrightarrow> test_thread2 signal s = Some s' \<Longrightarrow> module_step sig s s'"
| step_exit: "test_exit s = Some s' \<Longrightarrow> module_step sig s s'"

inductive reach :: "bool \<Rightarrow> bool \<Rightarrow> bool \<Rightarrow> scan_module \<Rightarrow> bool" for sig run1 run2 where
  reach_init: "reach sig run1 run2 (fst (test_init run1 run2 (initial_module nxt prv dat)))"
| reach_step: "reach sig run1 run2 s \<Longrightarrow> module_step sig s s' \<Longrightarrow> reach sig run1 run2 s'"

section \<open>The invariant\<close>

fun removed_data :: "qmsg list \<Rightarrow> c_int list" where
  "removed_data [] = []"
| "removed_data (Removing d # ms) = d # removed_data ms"
| "removed_data (_ # ms) = removed_data ms"

text \<open>The record that the producer holds outside the queue, and who holds the lock.\<close>

definition in_flight :: "scan_module \<Rightarrow> addr set" where
  "in_flight s = (case pc1 s of T1_Lock a \<Rightarrow> {a} | T1_Insert a \<Rightarrow> {a} | _ \<Rightarrow> {})"

definition lock_by1 :: "scan_module \<Rightarrow> bool" where
  "lock_by1 s = (case pc1 s of T1_Insert a \<Rightarrow> True | T1_Unlock \<Rightarrow> True | _ \<Rightarrow> False)"

definition lock_by2 :: "scan_module \<Rightarrow> bool" where
  "lock_by2 s = (case pc2 s of T2_Loop p q \<Rightarrow> True | T2_Unlock \<Rightarrow> True | _ \<Rightarrow> False)"

definition queue_inv :: "scan_module \<Rightarrow> addr list \<Rightarrow> bool" where
  "queue_inv s xs \<longleftrightarrow>
     tailq_rep s xs \<and>
     tq_live s = set xs \<union> in_flight s \<and> set xs \<inter> in_flight s = {} \<and>
     scanQueueLock s = (lock_by1 s \<or> lock_by2 s) \<and> \<not> (lock_by1 s \<and> lock_by2 s) \<and>
     (case pc2 s of T2_Loop var tmp \<Rightarrow> var = first_of xs \<and> tmp = first_of (tl xs) | _ \<Rightarrow> True) \<and>
     removed_data (printk_log s) @ map (datum s) xs = produced s"

section \<open>Every step keeps the invariant\<close>

lemma removed_data_append [simp]: "removed_data (ms @ ms') = removed_data ms @ removed_data ms'"
  by (induction ms rule: removed_data.induct) simp_all

lemma tailq_rep_fields [simp]:
  fixes s :: scan_module
  shows "tailq_rep (s\<lparr> datum := d \<rparr>) xs = tailq_rep s xs"
    and "tailq_rep (s\<lparr> scanQueueLock := b \<rparr>) xs = tailq_rep s xs"
    and "tailq_rep (s\<lparr> printk_log := l \<rparr>) xs = tailq_rep s xs"
    and "tailq_rep (s\<lparr> count1 := c \<rparr>) xs = tailq_rep s xs"
    and "tailq_rep (s\<lparr> count2 := c \<rparr>) xs = tailq_rep s xs"
    and "tailq_rep (s\<lparr> status1 := c \<rparr>) xs = tailq_rep s xs"
    and "tailq_rep (s\<lparr> status2 := c \<rparr>) xs = tailq_rep s xs"
    and "tailq_rep (s\<lparr> stop1 := b \<rparr>) xs = tailq_rep s xs"
    and "tailq_rep (s\<lparr> stop2 := b \<rparr>) xs = tailq_rep s xs"
    and "tailq_rep (s\<lparr> pc1 := p1 \<rparr>) xs = tailq_rep s xs"
    and "tailq_rep (s\<lparr> pc2 := p2 \<rparr>) xs = tailq_rep s xs"
    and "tailq_rep (s\<lparr> pcx := px \<rparr>) xs = tailq_rep s xs"
    and "tailq_rep (s\<lparr> produced := pr \<rparr>) xs = tailq_rep s xs"
  by (simp_all add: tailq_rep_def)

lemma tailq_rep_live: "tailq_rep s xs \<Longrightarrow> set xs \<subseteq> L \<Longrightarrow> tailq_rep (s\<lparr> tq_live := L \<rparr>) xs"
  by (simp add: tailq_rep_def)

lemma same_env_fields:
  fixes s s' :: scan_module
  assumes "tailq_same_env s s'"
  shows "tq_live s' = tq_live s" "datum s' = datum s" "scanQueueLock s' = scanQueueLock s"
    "printk_log s' = printk_log s" "count1 s' = count1 s" "count2 s' = count2 s" "status1 s' = status1 s"
    "status2 s' = status2 s" "stop1 s' = stop1 s" "stop2 s' = stop2 s" "pc1 s' = pc1 s" "pc2 s' = pc2 s"
    "pcx s' = pcx s" "produced s' = produced s"
  using assms by (cases s; cases s'; simp add: tailq_same_env_def)+

lemmas owner_defs = in_flight_def lock_by1_def lock_by2_def

text \<open>The consumer's loop body on the first element of the queue.\<close>

lemma drain_body_effect:
  fixes s :: scan_module
  assumes "tailq_rep s (x # xs)"
  shows "\<exists>s'. drain_body x s = Some s' \<and> tailq_rep s' xs \<and> tq_live s' = tq_live s - {x} \<and>
     printk_log s' = printk_log s @ [Removing (datum s x)] \<and> datum s' = datum s \<and>
     scanQueueLock s' = scanQueueLock s \<and> produced s' = produced s \<and> pc1 s' = pc1 s \<and> pc2 s' = pc2 s \<and>
     pcx s' = pcx s \<and> stop1 s' = stop1 s \<and> stop2 s' = stop2 s"
proof -
  let ?s = "s\<lparr> printk_log := printk_log s @ [Removing (datum s x)] \<rparr>"
  have x: "x \<in> tq_live s" "x \<notin> set xs" "set xs \<subseteq> tq_live s"
    using assms chain_distinct [of "tqe_next s" "tqh_first s" "x # xs"] by (auto simp: tailq_rep_def)
  obtain s1 where s1: "TAILQ_REMOVE x ?s = Some s1" "tailq_rep s1 xs" "tailq_same_env ?s s1"
    using tailq_remove_rep [of ?s "[]" x xs] assms by auto
  note f = same_env_fields [OF s1(3)]
  have "kfree_record x s1 = Some (s1\<lparr> tq_live := tq_live s1 - {x} \<rparr>)"
    using x f(1) by (simp add: kfree_record_def)
  moreover have "tailq_rep (s1\<lparr> tq_live := tq_live s1 - {x} \<rparr>) xs"
    using s1(2) x f(1) by (intro tailq_rep_live) auto
  ultimately show ?thesis using s1(1) f x(1) by (simp add: drain_body_def)
qed

lemma queue_inv_init: "queue_inv (fst (test_init run1 run2 (initial_module nxt prv dat))) []"
  by (cases run1; cases run2; simp add: test_init_def initial_module_def queue_inv_def owner_defs tailq_rep_def)

lemma thread1_keeps:
  assumes inv: "queue_inv s xs" and p: "kmalloc_ok p s"
  shows "\<exists>xs' s'. test_thread1 signal p s = Some s' \<and> queue_inv s' xs' \<and> pc2 s' = pc2 s \<and> pcx s' = pcx s \<and>
     stop1 s' = stop1 s \<and> stop2 s' = stop2 s \<and> (pc1 s' = T1_End \<longrightarrow> pc1 s = T1_End \<or> signal \<or> stop1 s) \<and>
     (pc1 s' = T1_Off \<longrightarrow> pc1 s = T1_Off)"
proof (cases "pc1 s")
  case T1_Alloc
  show ?thesis
  proof (cases p)
    case None
    with T1_Alloc inv show ?thesis
      by (intro exI [of _ xs]) (simp add: test_thread1_def queue_inv_def owner_defs)
  next
    case (Some a)
    with p have a: "a \<notin> tq_live s" by (simp add: kmalloc_ok_def)
    with inv have "a \<notin> set xs" by (auto simp: queue_inv_def)
    then have "map ((datum s)(a := count1 s)) xs = map (datum s) xs" by simp
    with Some T1_Alloc inv a show ?thesis
      by (auto simp: test_thread1_def queue_inv_def owner_defs intro!: tailq_rep_live exI [of _ xs])
  qed
next
  case (T1_Insert a)
  with inv have a: "a \<in> tq_live s" "a \<notin> set xs" and nl: "\<not> lock_by2 s"
    by (auto simp: queue_inv_def owner_defs)
  obtain s1 where s1: "TAILQ_INSERT_TAIL a s = Some s1" "tailq_rep s1 (xs @ [a])" "tailq_same_env s s1"
    using tailq_insert_tail_rep [OF _ a(2,1)] inv unfolding queue_inv_def by blast
  note f = same_env_fields [OF s1(3)]
  have "removed_data (printk_log s) @ map (datum s) xs = produced s" using inv by (simp add: queue_inv_def)
  with T1_Insert s1 inv nl f show ?thesis
    by (intro exI [of _ "xs @ [a]"])
      (auto simp: test_thread1_def queue_inv_def owner_defs split: pc2.splits)
qed (use inv in \<open>auto simp: test_thread1_def queue_inv_def owner_defs intro!: exI [of _ xs]\<close>)

lemma thread2_keeps:
  assumes inv: "queue_inv s xs"
  shows "\<exists>xs' s'. test_thread2 signal s = Some s' \<and> queue_inv s' xs' \<and> pc1 s' = pc1 s \<and> pcx s' = pcx s \<and>
     stop1 s' = stop1 s \<and> stop2 s' = stop2 s \<and> (pc2 s' = T2_End \<longrightarrow> pc2 s = T2_End \<or> signal \<or> stop2 s) \<and>
     (pc2 s' = T2_Off \<longrightarrow> pc2 s = T2_Off)"
proof (cases "pc2 s")
  case T2_Lock
  let ?s = "s\<lparr> scanQueueLock := True \<rparr>"
  have rep: "tailq_rep ?s xs" using inv by (simp add: queue_inv_def)
  then have "next_or_null (TAILQ_FIRST ?s) ?s = Some (first_of (tl xs))" "TAILQ_FIRST ?s = first_of xs"
    by (simp_all add: next_or_null_rep TAILQ_FIRST_rep)
  with T2_Lock inv show ?thesis
    by (intro exI [of _ xs]) (auto simp: test_thread2_def queue_inv_def owner_defs Let_def)
next
  case (T2_Loop var tmp)
  then have v: "var = first_of xs" "tmp = first_of (tl xs)" and rep: "tailq_rep s xs"
    using inv by (simp_all add: queue_inv_def)
  show ?thesis
  proof (cases xs)
    case Nil
    with T2_Loop v inv show ?thesis
      by (intro exI [of _ xs]) (auto simp: test_thread2_def queue_inv_def owner_defs)
  next
    case (Cons x ys)
    obtain s1 where s1: "drain_body x s = Some s1" "tailq_rep s1 ys" "tq_live s1 = tq_live s - {x}"
        "printk_log s1 = printk_log s @ [Removing (datum s x)]" "datum s1 = datum s"
        "scanQueueLock s1 = scanQueueLock s" "produced s1 = produced s" "pc1 s1 = pc1 s" "pcx s1 = pcx s"
        "stop1 s1 = stop1 s" "stop2 s1 = stop2 s"
      using drain_body_effect [of s x ys] rep Cons by auto
    have "x \<notin> set ys" using rep Cons chain_distinct [of "tqe_next s" "tqh_first s" xs] by (auto simp: tailq_rep_def)
    with T2_Loop v Cons s1 inv next_or_null_rep [OF s1(2)] show ?thesis
      by (intro exI [of _ ys]) (auto simp: test_thread2_def queue_inv_def owner_defs)
  qed
qed (use inv in \<open>auto simp: test_thread2_def queue_inv_def owner_defs intro!: exI [of _ xs]\<close>)

lemma queue_inv_control [simp]:
  "queue_inv (s\<lparr> status1 := c \<rparr>) xs = queue_inv s xs" "queue_inv (s\<lparr> status2 := c \<rparr>) xs = queue_inv s xs"
  "queue_inv (s\<lparr> stop1 := b \<rparr>) xs = queue_inv s xs" "queue_inv (s\<lparr> stop2 := b \<rparr>) xs = queue_inv s xs"
  "queue_inv (s\<lparr> pcx := px \<rparr>) xs = queue_inv s xs"
  by (simp_all add: queue_inv_def owner_defs)

lemma exit_keeps:
  assumes "queue_inv s xs" and "test_exit s = Some s'"
  shows "queue_inv s' xs"
  using assms by (auto simp: test_exit_def Let_def split: exit_pc.splits if_splits)

text \<open>Which thread can have returned, and how far unloading has got.\<close>

definition control_inv :: "bool \<Rightarrow> bool \<Rightarrow> bool \<Rightarrow> scan_module \<Rightarrow> bool" where
  "control_inv sig run1 run2 s \<longleftrightarrow>
     (pc1 s = T1_Off \<longleftrightarrow> \<not> run1) \<and> (pc2 s = T2_Off \<longleftrightarrow> \<not> run2) \<and>
     (\<not> run1 \<longrightarrow> pcx s = X_Idle) \<and> (\<not> run2 \<longrightarrow> pcx s = X_Idle \<or> pcx s = X_Wait1) \<and>
     (pc1 s = T1_End \<longrightarrow> stop1 s \<or> sig) \<and> (pc2 s = T2_End \<longrightarrow> stop2 s \<or> sig) \<and>
     (case pcx s of X_Idle \<Rightarrow> \<not> stop1 s \<and> \<not> stop2 s | X_Wait1 \<Rightarrow> \<not> stop2 s
      | X_Wait2 \<Rightarrow> pc1 s = T1_End | X_Done \<Rightarrow> pc1 s = T1_End \<and> pc2 s = T2_End)"

lemma thread1_end: "pc1 s = T1_End \<or> pc1 s = T1_Off \<Longrightarrow> test_thread1 signal p s = Some s"
  by (auto simp: test_thread1_def)

lemma thread2_end: "pc2 s = T2_End \<or> pc2 s = T2_Off \<Longrightarrow> test_thread2 signal s = Some s"
  by (auto simp: test_thread2_def)

lemma control_thread1:
  assumes "control_inv sig run1 run2 s" and "pc2 s' = pc2 s" "pcx s' = pcx s" "stop1 s' = stop1 s" "stop2 s' = stop2 s"
    and "pc1 s' = T1_End \<longrightarrow> pc1 s = T1_End \<or> sig \<or> stop1 s" and "pc1 s' = T1_Off \<longrightarrow> pc1 s = T1_Off"
    and "pc1 s = T1_End \<or> pc1 s = T1_Off \<longrightarrow> s' = s"
  shows "control_inv sig run1 run2 s'"
proof (cases "pc1 s = T1_End \<or> pc1 s = T1_Off")
  case False
  with assms(1-7) show ?thesis unfolding control_inv_def by (cases "pcx s") auto
qed (use assms(1,8) in blast)

lemma control_thread2:
  assumes "control_inv sig run1 run2 s" and "pc1 s' = pc1 s" "pcx s' = pcx s" "stop1 s' = stop1 s" "stop2 s' = stop2 s"
    and "pc2 s' = T2_End \<longrightarrow> pc2 s = T2_End \<or> sig \<or> stop2 s" and "pc2 s' = T2_Off \<longrightarrow> pc2 s = T2_Off"
    and "pc2 s = T2_End \<or> pc2 s = T2_Off \<longrightarrow> s' = s"
  shows "control_inv sig run1 run2 s'"
proof (cases "pc2 s = T2_End \<or> pc2 s = T2_Off")
  case False
  with assms(1-7) show ?thesis unfolding control_inv_def by (cases "pcx s") auto
qed (use assms(1,8) in blast)

lemma control_exit:
  assumes "control_inv sig run1 run2 s" and "test_exit s = Some s'"
  shows "control_inv sig run1 run2 s'"
  using assms by (cases "pcx s") (auto simp: control_inv_def test_exit_def Let_def split: if_splits)

lemma reach_inv: "reach sig run1 run2 s \<Longrightarrow> (\<exists>xs. queue_inv s xs) \<and> control_inv sig run1 run2 s"
proof (induction rule: reach.induct)
  case (reach_init nxt prv dat)
  have "control_inv sig run1 run2 (fst (test_init run1 run2 (initial_module nxt prv dat)))"
    by (cases run1; cases run2; simp add: control_inv_def test_init_def initial_module_def)
  then show ?case using queue_inv_init by blast
next
  case (reach_step s s')
  then obtain xs where inv: "queue_inv s xs" and con: "control_inv sig run1 run2 s" by blast
  from reach_step.hyps(2) show ?case
  proof (cases rule: module_step.cases)
    case (step_thread1 signal p)
    then obtain xs' where "queue_inv s' xs'" "pc2 s' = pc2 s" "pcx s' = pcx s" "stop1 s' = stop1 s" "stop2 s' = stop2 s"
      "pc1 s' = T1_End \<longrightarrow> pc1 s = T1_End \<or> sig \<or> stop1 s" "pc1 s' = T1_Off \<longrightarrow> pc1 s = T1_Off"
      using thread1_keeps [OF inv step_thread1(2), of signal] by auto
    moreover have "pc1 s = T1_End \<or> pc1 s = T1_Off \<longrightarrow> s' = s" using step_thread1(3) thread1_end [of s signal p] by auto
    ultimately show ?thesis using control_thread1 [OF con, of s'] by blast
  next
    case (step_thread2 signal)
    then obtain xs' where "queue_inv s' xs'" "pc1 s' = pc1 s" "pcx s' = pcx s" "stop1 s' = stop1 s" "stop2 s' = stop2 s"
      "pc2 s' = T2_End \<longrightarrow> pc2 s = T2_End \<or> sig \<or> stop2 s" "pc2 s' = T2_Off \<longrightarrow> pc2 s = T2_Off"
      using thread2_keeps [OF inv, of signal] by auto
    moreover have "pc2 s = T2_End \<or> pc2 s = T2_Off \<longrightarrow> s' = s" using step_thread2(2) thread2_end [of s signal] by auto
    ultimately show ?thesis using control_thread2 [OF con, of s'] by blast
  next
    case step_exit
    then show ?thesis using exit_keeps [OF inv] control_exit [OF con] by blast
  qed
qed

text \<open>A schedule as a list of steps, for concrete executions.\<close>

datatype action = Thread1 bool ptr | Thread2 bool | Unload

fun act :: "action \<Rightarrow> scan_module \<Rightarrow> scan_module option" where
  "act (Thread1 signal p) s = (if kmalloc_ok p s then test_thread1 signal p s else None)"
| "act (Thread2 signal) s = test_thread2 signal s"
| "act Unload s = test_exit s"

fun signals :: "action \<Rightarrow> bool" where
  "signals (Thread1 signal p) \<longleftrightarrow> signal"
| "signals (Thread2 signal) \<longleftrightarrow> signal"
| "signals Unload \<longleftrightarrow> False"

fun schedule :: "action list \<Rightarrow> scan_module \<Rightarrow> scan_module option" where
  "schedule [] s = Some s"
| "schedule (a # as) s = do { s \<leftarrow> act a s; schedule as s }"

lemma act_step: "act a s = Some s' \<Longrightarrow> (signals a \<longrightarrow> sig) \<Longrightarrow> module_step sig s s'"
  by (cases a) (auto intro: module_step.intros split: if_splits)

lemma schedule_reach:
  "reach sig run1 run2 s \<Longrightarrow> schedule as s = Some s' \<Longrightarrow> (\<forall>a\<in>set as. signals a \<longrightarrow> sig) \<Longrightarrow> reach sig run1 run2 s'"
proof (induction as arbitrary: s)
  case (Cons a as)
  then obtain s1 where s1: "act a s = Some s1" "schedule as s1 = Some s'" by (auto simp: bind_eq_Some_conv')
  with Cons.prems have "reach sig run1 run2 s1" by (auto intro: reach_step act_step)
  with Cons s1 show ?case by simp
qed simp

definition loaded_module :: scan_module where
  "loaded_module = fst (test_init True True (initial_module (\<lambda>_. None) (\<lambda>_. Head_first) (\<lambda>_. 0)))"

lemma loaded_reach: "reach sig True True loaded_module"
  unfolding loaded_module_def by (rule reach_init)

lemmas module_eval = loaded_module_def initial_module_def test_init_def test_thread1_def test_thread2_def
  test_exit_def drain_body_def kfree_record_def kmalloc_ok_def TAILQ_INSERT_TAIL_def TAILQ_REMOVE_def
  TAILQ_FIRST_def next_or_null_def tailq_access

definition leaking_schedule :: "action list" where
  "leaking_schedule =
     [Thread2 False, Thread2 False, Thread2 False, Thread2 False,
      Thread1 False None, Thread1 False (Some 1), Thread1 False None, Thread1 False None, Thread1 False None,
      Thread1 False None, Unload, Thread1 False None, Unload, Thread2 False, Unload]"

lemma leaking_schedule_result:
  "\<exists>s. schedule leaking_schedule loaded_module = Some s \<and> pcx s = X_Done \<and> tq_live s = {1} \<and> tqh_first s = Some 1"
  by (simp add: leaking_schedule_def module_eval)

section \<open>Properties of the module\<close>

text \<open>
  C10: In every state that the module can reach, under any interleaving of the two threads
  and of unloading, with signals or without, whether or not each of the threads could be
  started, and whatever kmalloc returns, neither thread's
  next step faults: no record is touched after it was freed. The spinlock is never held by
  both threads, the queue is well-formed, and the allocated records are exactly those in
  the queue and the one the producer is about to append.
\<close>

theorem threads_memory_safe:
  assumes "reach sig run1 run2 s" and "kmalloc_ok p s"
  shows "test_thread1 signal p s \<noteq> None \<and> test_thread2 signal s \<noteq> None \<and>
     \<not> (lock_by1 s \<and> lock_by2 s) \<and> (\<exists>xs. tailq_rep s xs \<and> tq_live s = set xs \<union> in_flight s)"
proof (intro conjI)
  obtain xs where inv: "queue_inv s xs" using reach_inv [OF assms(1)] by blast
  show "test_thread1 signal p s \<noteq> None" using thread1_keeps [OF inv assms(2), of signal] by auto
  show "test_thread2 signal s \<noteq> None" using thread2_keeps [OF inv, of signal] by auto
  show "\<not> (lock_by1 s \<and> lock_by2 s)" "\<exists>xs. tailq_rep s xs \<and> tq_live s = set xs \<union> in_flight s"
    using inv by (auto simp: queue_inv_def)
qed

theorem threads_memory_safe_witness: "test_thread1 False (Some 4) loaded_module \<noteq> None"
  using threads_memory_safe [OF loaded_reach, of "Some 4" False]
  by (simp add: kmalloc_ok_def loaded_module_def test_init_def initial_module_def)

text \<open>
  C11: The consumer prints and frees the records in the order in which the producer appended
  them, none twice and none left out: in every reachable state the data printed so far,
  followed by the data still queued, is the sequence of data appended; and the records that
  are still allocated are exactly those still queued and the one the producer has in hand, so
  that every record printed has been freed and no other one.
\<close>

theorem threads_fifo:
  assumes "reach sig run1 run2 s"
  shows "\<exists>xs. tailq_rep s xs \<and> removed_data (printk_log s) @ map (datum s) xs = produced s \<and>
    tq_live s = set xs \<union> in_flight s \<and>
    card (tq_live s) + length (removed_data (printk_log s)) = length (produced s) + card (in_flight s)"
proof -
  obtain xs where inv: "queue_inv s xs" using reach_inv [OF assms] by blast
  then have fifo: "removed_data (printk_log s) @ map (datum s) xs = produced s"
    and live: "tq_live s = set xs \<union> in_flight s" "set xs \<inter> in_flight s = {}" and rep: "tailq_rep s xs"
    by (simp_all add: queue_inv_def)
  have "distinct xs" using rep chain_distinct [of "tqe_next s" "tqh_first s" xs] by (auto simp: tailq_rep_def)
  moreover have "finite (in_flight s)" by (simp add: in_flight_def split: pc1.split)
  ultimately have "card (tq_live s) = length xs + card (in_flight s)"
    using live by (simp add: card_Un_disjoint distinct_card)
  then show ?thesis using rep fifo live(1) by (intro exI [of _ xs]) (simp flip: fifo)
qed

text \<open>Two records appended, one of them printed and freed.\<close>

definition half_drained :: "action list" where
  "half_drained =
     [Thread1 False None, Thread1 False (Some 1), Thread1 False None, Thread1 False None, Thread1 False None,
      Thread1 False None, Thread1 False None, Thread1 False None, Thread1 False (Some 2), Thread1 False None,
      Thread1 False None, Thread1 False None, Thread2 False, Thread2 False, Thread2 False]"

lemma half_drained_result:
  "\<exists>s. schedule half_drained loaded_module = Some s \<and> printk_log s = [Thread1_count 0, Thread1_count 1, Thread2_count 0, Removing 0] \<and>
     produced s = [0, 1] \<and> pc1 s = T1_Count"
  by (simp add: half_drained_def module_eval)

theorem threads_fifo_witness:
  "\<exists>s xs. schedule half_drained loaded_module = Some s \<and> tailq_rep s xs \<and>
     removed_data (printk_log s) = [0] \<and> map (datum s) xs = [1] \<and> tq_live s = set xs \<and> card (tq_live s) = 1"
proof -
  obtain s where s: "schedule half_drained loaded_module = Some s" "produced s = [0, 1]" "pc1 s = T1_Count"
    "printk_log s = [Thread1_count 0, Thread1_count 1, Thread2_count 0, Removing 0]"
    using half_drained_result by blast
  then have "reach False True True s"
    using schedule_reach [OF loaded_reach, of half_drained s False] by (auto simp: half_drained_def)
  from threads_fifo [OF this] obtain xs where "tailq_rep s xs" "removed_data (printk_log s) @ map (datum s) xs = produced s"
    "tq_live s = set xs \<union> in_flight s"
    "card (tq_live s) + length (removed_data (printk_log s)) = length (produced s) + card (in_flight s)"
    by blast
  then show ?thesis using s by (intro exI [of _ s] exI [of _ xs]) (simp add: in_flight_def)
qed

text \<open>
  C15: Unloading when no signal reaches the threads. If both threads could be started it never
  faults: kthread_stop is only called on a thread that is running, and when unloading is done
  both threads have returned and the spinlock is free. The results of kthread_run are not
  checked, though: if the producer could not be started, unloading faults at once in every
  reachable state; if only the consumer could not be started, unloading waits for the producer,
  faults exactly when that has returned, and is never done.
\<close>

theorem unload_safe:
  assumes "reach False run1 run2 s"
  shows "(run1 \<and> run2 \<longrightarrow> test_exit s \<noteq> None \<and>
       (pcx s = X_Done \<longrightarrow> pc1 s = T1_End \<and> pc2 s = T2_End \<and> \<not> scanQueueLock s)) \<and>
     (\<not> run1 \<longrightarrow> test_exit s = None) \<and>
     (run1 \<and> \<not> run2 \<longrightarrow> (test_exit s = None \<longleftrightarrow> pcx s = X_Wait1 \<and> pc1 s = T1_End) \<and> pcx s \<noteq> X_Done)"
proof (intro conjI impI)
  obtain xs where inv: "queue_inv s xs" and con: "control_inv False run1 run2 s" using reach_inv [OF assms] by blast
  show "test_exit s \<noteq> None" if "run1 \<and> run2" using con that
    by (auto simp: control_inv_def test_exit_def Let_def split: exit_pc.splits)
  show "pc1 s = T1_End" "pc2 s = T2_End" "\<not> scanQueueLock s" if "pcx s = X_Done"
    using inv con that by (simp_all add: control_inv_def queue_inv_def owner_defs)
  show "test_exit s = None" if "\<not> run1" using con that by (simp add: control_inv_def test_exit_def Let_def)
  show "test_exit s = None \<longleftrightarrow> pcx s = X_Wait1 \<and> pc1 s = T1_End" "pcx s \<noteq> X_Done" if "run1 \<and> \<not> run2"
    using con that by (auto simp: control_inv_def test_exit_def Let_def split: exit_pc.splits)
qed

theorem unload_safe_witness:
  "test_exit loaded_module \<noteq> None \<and>
   test_exit (fst (test_init False True (initial_module (\<lambda>_. None) (\<lambda>_. Head_first) (\<lambda>_. 0)))) = None"
  using unload_safe [OF loaded_reach]
    unload_safe [OF reach_init [of False False True "\<lambda>_. None" "\<lambda>_. Head_first" "\<lambda>_. 0"]] by blast

text \<open>
  The module can be unloaded with a record still in the queue, which nobody frees: the
  consumer looks at kthread_should_stop after its last pass over the queue, and the producer
  can append a record in between.
\<close>

theorem unload_can_leak:
  "\<exists>s. reach False True True s \<and> pcx s = X_Done \<and> tqh_first s = Some 1 \<and> tq_live s = {1}"
proof -
  obtain s where "schedule leaking_schedule loaded_module = Some s" "pcx s = X_Done" "tq_live s = {1}" "tqh_first s = Some 1"
    using leaking_schedule_result by blast
  with schedule_reach [OF loaded_reach, of leaking_schedule s False] show ?thesis
    by (auto simp: leaking_schedule_def)
qed

text \<open>
  A signal ends a thread before the module is unloaded, and unloading then calls
  kthread_stop on a thread that has returned.
\<close>

theorem signal_then_unload_faults:
  "\<exists>s. reach True True True s \<and> pcx s = X_Idle \<and> pc1 s = T1_End \<and> test_exit s = None"
proof -
  have "\<exists>s. schedule [Thread1 True None] loaded_module = Some s \<and> pcx s = X_Idle \<and> pc1 s = T1_End \<and> test_exit s = None"
    by (simp add: module_eval)
  then show ?thesis using schedule_reach [OF loaded_reach, of "[Thread1 True None]" _ True] by auto
qed

section \<open>The user-space example\<close>

datatype foo_out = Out_item c_int | Out_blank | Out_heading | Out_removing c_int

record foo_program = tailq +
  foo_datum :: "addr \<Rightarrow> c_int"
  foo_output :: "foo_out list"

text \<open>\<^verbatim>\<open>p = malloc(sizeof *p); p->datum = d;\<close> without a test of \<^verbatim>\<open>p\<close>.\<close>

definition new_foo :: "ptr \<Rightarrow> c_int \<Rightarrow> foo_program \<Rightarrow> (addr \<times> foo_program) option" where
  "new_foo malloc_result d s =
     (case malloc_result of None \<Rightarrow> None
      | Some a \<Rightarrow> Some (a, s\<lparr> tq_live := insert a (tq_live s), foo_datum := (foo_datum s)(a := d) \<rparr>))"

definition print_foo :: "addr \<Rightarrow> foo_program \<Rightarrow> foo_program" where
  "print_foo p s = s\<lparr> foo_output := foo_output s @ [Out_item (foo_datum s p)] \<rparr>"

definition remove_foo :: "addr \<Rightarrow> foo_program \<Rightarrow> foo_program option" where
  "remove_foo p s = do {
     let s = s\<lparr> foo_output := foo_output s @ [Out_removing (foo_datum s p)] \<rparr>;
     s \<leftarrow> TAILQ_REMOVE p s;
     kfree_record p s }"

definition queue_test_main :: "ptr \<Rightarrow> ptr \<Rightarrow> ptr \<Rightarrow> foo_program \<Rightarrow> foo_program option" where
  "queue_test_main p1 p2 p3 s = do {
     let s = TAILQ_HEAD_INITIALIZER s;
     (data1, s) \<leftarrow> new_foo p1 1 s;
     (data2, s) \<leftarrow> new_foo p2 2 s;
     (data3, s) \<leftarrow> new_foo p3 3 s;
     s \<leftarrow> TAILQ_INSERT_TAIL data1 s;
     s \<leftarrow> TAILQ_INSERT_TAIL data2 s;
     s \<leftarrow> TAILQ_INSERT_TAIL data3 s;
     s \<leftarrow> TAILQ_FOREACH (\<lambda>p s. Some (print_foo p s)) s;
     let s = s\<lparr> foo_output := foo_output s @ [Out_blank, Out_heading] \<rparr>;
     TAILQ_FOREACH_SAFE remove_foo s }"

lemma foo_env_fields:
  fixes s s' :: foo_program
  assumes "tailq_same_env s s'"
  shows "tq_live s' = tq_live s" "foo_datum s' = foo_datum s" "foo_output s' = foo_output s"
  using assms by (cases s; cases s'; simp add: tailq_same_env_def)+

definition foo_left :: "foo_out list \<Rightarrow> (addr \<Rightarrow> c_int) \<Rightarrow> foo_program \<Rightarrow> addr list \<Rightarrow> bool" where
  "foo_left out dat s xs \<longleftrightarrow> tailq_rep s xs \<and> tq_live s = set xs \<and> foo_datum s = dat \<and>
     foo_output s @ map (\<lambda>x. Out_removing (dat x)) xs = out"

lemma remove_foo_effect:
  assumes "foo_left out dat s (x # xs)"
  shows "\<exists>s'. remove_foo x s = Some s' \<and> foo_left out dat s' xs"
proof -
  let ?s = "s\<lparr> foo_output := foo_output s @ [Out_removing (foo_datum s x)] \<rparr>"
  have rep: "tailq_rep ?s (x # xs)" using assms by (simp add: foo_left_def tailq_rep_def)
  then have x: "x \<notin> set xs"
    using chain_distinct [of "tqe_next ?s" "tqh_first ?s" "x # xs"] by (simp add: tailq_rep_def)
  obtain s1 where s1: "TAILQ_REMOVE x ?s = Some s1" "tailq_rep s1 xs" "tailq_same_env ?s s1"
    using tailq_remove_rep [of ?s "[]" x xs] rep by auto
  then have "tailq_rep (s1\<lparr> tq_live := tq_live s1 - {x} \<rparr>) xs"
    using x assms foo_env_fields [OF s1(3)] by (intro tailq_rep_live) (auto simp: foo_left_def)
  then show ?thesis using s1 foo_env_fields [OF s1(3)] assms x
    by (auto simp: remove_foo_def kfree_record_def foo_left_def)
qed

lemma remove_foo_drains:
  assumes "foo_left out dat s xs"
  shows "\<exists>s'. TAILQ_FOREACH_SAFE remove_foo s = Some s' \<and> foo_left out dat s' []"
  using assms
proof (rule TAILQ_FOREACH_SAFE_drains [where P = "foo_left out dat"])
  show "foo_left out dat s xs \<Longrightarrow> tailq_rep s xs" for s xs by (simp add: foo_left_def)
qed (rule remove_foo_effect)

text \<open>
  C16: The user-space example, given three distinct addresses by malloc, runs to the end
  without a fault: it prints 1, 2, 3, an empty line and the heading, then removes 1, 2, 3 in
  this order, and has freed everything. It does not check malloc: if any of the three calls
  fails the program dereferences NULL.
\<close>

theorem queue_test_main_correct:
  assumes "distinct [a, b, c]" and "tq_live s = {}" and "foo_output s = []"
  shows "(\<exists>s'. queue_test_main (Some a) (Some b) (Some c) s = Some s' \<and> tailq_rep s' [] \<and> tq_live s' = {} \<and>
       foo_output s' = [Out_item 1, Out_item 2, Out_item 3, Out_blank, Out_heading,
         Out_removing 1, Out_removing 2, Out_removing 3]) \<and>
     (p1 = None \<or> p2 = None \<or> p3 = None \<longrightarrow> queue_test_main p1 p2 p3 s = None)"
proof
  let ?dat = "((foo_datum s)(a := 1, b := 2, c := 3))"
  let ?s0 = "s\<lparr> tqh_first := None, tqh_last := Head_first, tq_live := {c, b, a}, foo_datum := ?dat \<rparr>"
  have r0: "tailq_rep ?s0 []" by (simp add: tailq_rep_def)
  obtain s1 where s1: "TAILQ_INSERT_TAIL a ?s0 = Some s1" "tailq_rep s1 [a]" "tailq_same_env ?s0 s1"
    using tailq_insert_tail_rep [OF r0, of a] by auto
  obtain s2 where s2: "TAILQ_INSERT_TAIL b s1 = Some s2" "tailq_rep s2 [a, b]" "tailq_same_env s1 s2"
    using tailq_insert_tail_rep [OF s1(2), of b] assms(1) foo_env_fields [OF s1(3)] by auto
  obtain s3 where s3: "TAILQ_INSERT_TAIL c s2 = Some s3" "tailq_rep s3 [a, b, c]" "tailq_same_env s2 s3"
    using tailq_insert_tail_rep [OF s2(2), of c] assms(1) foo_env_fields [OF s1(3)] foo_env_fields [OF s2(3)] by auto
  note f = foo_env_fields [OF s1(3)] foo_env_fields [OF s2(3)] foo_env_fields [OF s3(3)]
  have each: "TAILQ_FOREACH (\<lambda>p s. Some (print_foo p s)) s3 = Some (fold print_foo [a, b, c] s3)"
    by (rule TAILQ_FOREACH_visits [OF s3(2)]) (simp add: print_foo_def TAILQ_NEXT_def)
  let ?s4 = "s3\<lparr> foo_output := [Out_item 1, Out_item 2, Out_item 3, Out_blank, Out_heading] \<rparr>"
  let ?out = "foo_output ?s4 @ [Out_removing 1, Out_removing 2, Out_removing 3]"
  have "foo_left ?out ?dat ?s4 [a, b, c]"
    using s3(2) f assms(1) by (auto simp: foo_left_def tailq_rep_def)
  from remove_foo_drains [OF this] obtain s5
    where "TAILQ_FOREACH_SAFE remove_foo ?s4 = Some s5" "foo_left ?out ?dat s5 []" by blast
  with s1 s2 s3 each f assms show "\<exists>s'. queue_test_main (Some a) (Some b) (Some c) s = Some s' \<and>
      tailq_rep s' [] \<and> tq_live s' = {} \<and> foo_output s' = [Out_item 1, Out_item 2, Out_item 3, Out_blank,
        Out_heading, Out_removing 1, Out_removing 2, Out_removing 3]"
    by (simp add: queue_test_main_def new_foo_def TAILQ_HEAD_INITIALIZER_def foo_left_def print_foo_def)
  show "p1 = None \<or> p2 = None \<or> p3 = None \<longrightarrow> queue_test_main p1 p2 p3 s = None"
    by (cases p1; cases p2; cases p3) (simp_all add: queue_test_main_def new_foo_def)
qed

definition fresh_foo :: foo_program where
  "fresh_foo = \<lparr> tqh_first = None, tqh_last = Head_first, tqe_next = (\<lambda>_. None), tqe_prev = (\<lambda>_. Head_first),
     tq_live = {}, foo_datum = (\<lambda>_. 0), foo_output = [] \<rparr>"

theorem queue_test_main_correct_witness:
  "(\<exists>s'. queue_test_main (Some 1) (Some 2) (Some 3) fresh_foo = Some s' \<and> tq_live s' = {}) \<and>
   queue_test_main (Some 1) None (Some 3) fresh_foo = None"
  using queue_test_main_correct [of 1 2 3 fresh_foo "Some 1" None "Some 3"] by (auto simp: fresh_foo_def)

end
