(* ===== verification/C_Strings.thy ===== *)
theory C_Strings
  imports Kernel_Prelude
begin

text \<open>
  C strings as character lists: the part of a buffer before the terminator, the decimal
  conversion \<^verbatim>\<open>%ld\<close>, bounded formatting as by \<^verbatim>\<open>snprintf\<close>, and the base-10 conversion of
  \<^verbatim>\<open>simple_strtol\<close>, which accumulates in an unsigned 64-bit integer and stops at the first
  character that is no digit. Printing and reading back are shown to be inverse.
\<close>

section \<open>Definitions\<close>

abbreviation NUL :: char where "NUL \<equiv> CHR 0x00"

definition c_str :: "string \<Rightarrow> string" where
  "c_str buf = takeWhile (\<lambda>c. c \<noteq> NUL) buf"

fun dec_digits :: "nat \<Rightarrow> string" where
  "dec_digits n = (if n < 10 then [char_of (48 + n)] else dec_digits (n div 10) @ [char_of (48 + n mod 10)])"

declare dec_digits.simps [simp del]

definition format_ld :: "c_long \<Rightarrow> string" where
  "format_ld v = (if sint v < 0 then CHR ''-'' # dec_digits (nat (- sint v)) else dec_digits (nat (sint v)))"

text \<open>What \<^verbatim>\<open>snprintf(buf, len, ...)\<close> leaves in a zeroed buffer of \<open>len\<close> bytes when the
  full text is \<open>t\<close>: at most \<open>len - 1\<close> characters of it, and zeros.\<close>

definition snprintf_zeroed :: "nat \<Rightarrow> string \<Rightarrow> string" where
  "snprintf_zeroed len t = (let u = take (len - 1) t in u @ replicate (len - length u) NUL)"

definition is_digit :: "char \<Rightarrow> bool" where
  "is_digit c \<longleftrightarrow> 48 \<le> (of_char c :: nat) \<and> (of_char c :: nat) \<le> 57"

fun strtoul_acc :: "u64 \<Rightarrow> string \<Rightarrow> u64" where
  "strtoul_acc acc [] = acc"
| "strtoul_acc acc (c # cs) =
     (if is_digit c then strtoul_acc (acc * 10 + of_nat (of_char c - 48)) cs else acc)"

fun simple_strtol :: "string \<Rightarrow> c_long" where
  "simple_strtol [] = 0"
| "simple_strtol (c # cs) = (if c = CHR ''-'' then - strtoul_acc 0 cs else strtoul_acc 0 (c # cs))"

section \<open>Lemmas\<close>

lemma is_digit_char: "d < 10 \<Longrightarrow> is_digit (char_of (48 + d :: nat))"
  by (simp add: is_digit_def)

lemma dec_digits_are_digits: "c \<in> set (dec_digits n) \<Longrightarrow> is_digit c"
proof (induction n arbitrary: c rule: dec_digits.induct)
  case (1 n)
  then show ?case
    by (subst (asm) dec_digits.simps) (auto split: if_splits simp: is_digit_char)
qed

lemma dec_digits_not_Nil [simp]: "dec_digits n \<noteq> []"
  by (subst dec_digits.simps) simp

lemma digit_not_special: "is_digit c \<Longrightarrow> c \<noteq> NUL \<and> c \<noteq> CHR ''-'' \<and> c \<noteq> CHR ''\<newline>''"
  by (auto simp: is_digit_def)

lemma strtoul_digits:
  "strtoul_acc a (dec_digits n @ r) = strtoul_acc (a * 10 ^ length (dec_digits n) + of_nat n) r"
proof (induction n arbitrary: a r rule: dec_digits.induct)
  case (1 n)
  show ?case
  proof (cases "n < 10")
    case True
    then have "dec_digits n = [char_of (48 + n)]" by (subst dec_digits.simps) simp
    then show ?thesis using True by (simp add: is_digit_char)
  next
    case False
    then have d: "dec_digits n = dec_digits (n div 10) @ [char_of (48 + n mod 10)]"
      by (subst dec_digits.simps) simp
    have n: "n = n div 10 * 10 + n mod 10" by simp
    have m: "(of_nat n :: u64) = of_nat (n div 10) * 10 + of_nat (n mod 10)"
      by (subst n) (simp only: of_nat_add of_nat_mult of_nat_numeral)
    show ?thesis using 1 [OF False, of a "char_of (48 + n mod 10) # r"]
      by (simp add: d is_digit_char m algebra_simps)
  qed
qed

lemma dec_digits_length: "n < 10 ^ k \<Longrightarrow> 0 < k \<Longrightarrow> length (dec_digits n) \<le> k"
proof (induction k arbitrary: n)
  case (Suc k)
  show ?case
  proof (cases "n < 10")
    case True then show ?thesis by (subst dec_digits.simps) simp
  next
    case False
    then have "0 < k" using Suc.prems by (cases k) simp_all
    moreover have "n div 10 < 10 ^ k" using Suc.prems by (simp add: less_mult_imp_div_less mult.commute)
    ultimately have "length (dec_digits (n div 10)) \<le> k" using Suc.IH by blast
    with False show ?thesis by (subst dec_digits.simps) simp
  qed
qed simp

text \<open>Reading back what was printed; a digit-free rest of the buffer does not matter.\<close>

definition no_digit_first :: "string \<Rightarrow> bool" where
  "no_digit_first r \<longleftrightarrow> (case r of [] \<Rightarrow> True | c # _ \<Rightarrow> \<not> is_digit c)"

lemma strtoul_stop: "no_digit_first r \<Longrightarrow> strtoul_acc a r = a"
  by (cases r) (simp_all add: no_digit_first_def)

lemma word_of_sint: "of_int (sint v) = (v :: 64 word)"
  by simp

lemma strtol_format:
  assumes "no_digit_first r"
  shows "simple_strtol (format_ld v @ r) = v"
proof (cases "sint v < 0")
  case True
  then have "(of_nat (nat (- sint v)) :: u64) = - v"
    by simp
  with True show ?thesis by (simp add: format_ld_def strtoul_digits strtoul_stop [OF assms])
next
  case False
  then have "(of_nat (nat (sint v)) :: u64) = v"
    by (metis int_nat_eq not_less of_int_of_nat_eq word_of_sint)
  moreover obtain c cs where c: "dec_digits (nat (sint v)) = c # cs"
    by (cases "dec_digits (nat (sint v))") auto
  moreover have "c \<noteq> CHR ''-''"
    using dec_digits_are_digits [of c "nat (sint v)"] digit_not_special c by auto
  ultimately show ?thesis using False strtoul_digits [of 0 "nat (sint v)" r]
    by (simp add: format_ld_def strtoul_stop [OF assms])
qed

lemma format_ld_no_nul: "NUL \<notin> set (format_ld v)"
  using dec_digits_are_digits digit_not_special unfolding format_ld_def by (auto split: if_splits)

lemma c_str_terminated: "NUL \<notin> set t \<Longrightarrow> c_str (t @ NUL # r) = t"
  by (induction t) (auto simp: c_str_def)

lemma length_snprintf: "0 < len \<Longrightarrow> length (snprintf_zeroed len t) = len"
  by (simp add: snprintf_zeroed_def)

lemma c_str_snprintf:
  assumes "0 < len" and "NUL \<notin> set t"
  shows "c_str (snprintf_zeroed len t) = take (len - 1) t"
proof -
  have "NUL \<notin> set (take (len - 1) t)" using assms(2) by (meson in_set_takeD)
  moreover have "replicate (len - length (take (len - 1) t)) NUL =
      NUL # replicate (len - length (take (len - 1) t) - 1) NUL"
    using assms(1) by (cases "len - length (take (len - 1) t)") auto
  ultimately show ?thesis by (simp add: snprintf_zeroed_def c_str_terminated del: take_append)
qed

lemma format_ld_length: "length (format_ld v) \<le> 20"
proof -
  have "sint v < 2 ^ 63" "- (2 ^ 63) \<le> sint v" using sint_less [of v] sint_ge [of v] by simp_all
  then have "nat (- sint v) < 10 ^ 19" "nat (sint v) < 10 ^ 19" by simp_all
  then have "length (dec_digits (nat (- sint v))) \<le> 19" "length (dec_digits (nat (sint v))) \<le> 19"
    using dec_digits_length [of _ 19] by simp_all
  then show ?thesis by (simp add: format_ld_def)
qed

end
