(* ===== verification/Proc_Fs.thy ===== *)
theory Proc_Fs
  imports C_Strings
begin

unbundle bit_operations_syntax

text \<open>
  The module \<^verbatim>\<open>Proc_Example/procfs.c\<close>: a \<^verbatim>\<open>long\<close> variable that user space reads and writes
  as decimal text through \<^verbatim>\<open>/proc/ashish/Test_PROCFS\<close>. Both variants of the handlers are
  modelled, the one for kernels from 3.10 on and the one before (\<open>_2_6\<close>). What the kernel
  decides (whether an allocation or a creation succeeds, how many bytes a user copy could
  not transfer) is an argument; \<open>live_bufs\<close> counts the buffers that are allocated.
\<close>

section \<open>State\<close>

datatype proc_node = Proc_dir | Proc_file u32

record proc_state =
  test_proc :: c_long
  proc_dir_root :: bool
  proc_tree :: "string list \<rightharpoonup> proc_node"
  live_bufs :: nat

definition ROOT_PROCFS :: string where "ROOT_PROCFS = ''ashish''"

definition LONG_BUF_LEN :: nat where "LONG_BUF_LEN = 21"

text \<open>\<^verbatim>\<open>(int) x\<close> for a \<^verbatim>\<open>long\<close> and for a \<^verbatim>\<open>size_t\<close>, and \<^verbatim>\<open>(long) x\<close> for an \<^verbatim>\<open>int\<close>.\<close>

definition long_to_int :: "c_long \<Rightarrow> c_int" where "long_to_int x = word_of_int (sint x)"
definition size_to_int :: "u64 \<Rightarrow> c_int" where "size_to_int x = word_of_int (uint x)"
definition int_to_long :: "c_int \<Rightarrow> c_long" where "int_to_long x = word_of_int (sint x)"

section \<open>The directory and the entry\<close>

definition init_procfs :: "bool \<Rightarrow> proc_state \<Rightarrow> int \<times> proc_state" where
  "init_procfs mkdir_ok s =
     (if mkdir_ok then (0, s\<lparr> proc_dir_root := True, proc_tree := (proc_tree s)([ROOT_PROCFS] \<mapsto> Proc_dir) \<rparr>)
      else (- ENOMEM, s\<lparr> proc_dir_root := False \<rparr>))"

definition term_procfs :: "proc_state \<Rightarrow> proc_state" where
  "term_procfs s = (if proc_dir_root s then s\<lparr> proc_tree := (proc_tree s)([ROOT_PROCFS] := None) \<rparr> else s)"

definition PF_getDir :: "proc_state \<Rightarrow> bool" where
  "PF_getDir s = proc_dir_root s"

definition dummy_proc_open :: "proc_state \<Rightarrow> int \<times> proc_state" where
  "dummy_proc_open s = (0, s)"

text \<open>Where an entry goes: a \<^verbatim>\<open>NULL\<close> parent is the root of \<^verbatim>\<open>/proc\<close>.\<close>

definition entry_path :: "bool \<Rightarrow> string \<Rightarrow> string list" where
  "entry_path parent name = (if parent then [ROOT_PROCFS, name] else [name])"

definition entry_mode :: "bool \<Rightarrow> bool \<Rightarrow> u32" where
  "entry_mode read write =
     (let mode = 0x8000;
          mode = (if read then mode OR 0x100 else mode)
      in if write then mode OR 0x80 else mode)"

definition procfs_create_entry :: "bool \<Rightarrow> string \<Rightarrow> bool \<Rightarrow> bool \<Rightarrow> proc_state \<Rightarrow> proc_state" where
  "procfs_create_entry create_ok name read write s =
     (if create_ok
      then s\<lparr> proc_tree := (proc_tree s)(entry_path (proc_dir_root s) name \<mapsto> Proc_file (entry_mode read write)) \<rparr>
      else s)"

text \<open>Before 3.10 the entry is created first and its handlers are stored into it then; the file
  in the tree is the same.\<close>

definition procfs_create_entry_2_6 :: "bool \<Rightarrow> string \<Rightarrow> bool \<Rightarrow> bool \<Rightarrow> proc_state \<Rightarrow> proc_state" where
  "procfs_create_entry_2_6 create_ok name read write s =
     (let mode = 0x8000;
          mode = (if read then mode OR 0x100 else mode);
          mode = (if write then mode OR 0x80 else mode)
      in if \<not> create_ok then s
         else s\<lparr> proc_tree := (proc_tree s)((if PF_getDir s then [ROOT_PROCFS, name] else [name]) \<mapsto> Proc_file mode) \<rparr>)"

definition procfs_remove_entry :: "string \<Rightarrow> proc_state \<Rightarrow> proc_state" where
  "procfs_remove_entry name s =
     (if proc_dir_root s then s\<lparr> proc_tree := (proc_tree s)(entry_path True name := None) \<rparr> else s)"

definition procfs_init :: "bool \<Rightarrow> bool \<Rightarrow> proc_state \<Rightarrow> int \<times> proc_state" where
  "procfs_init mkdir_ok create_ok s =
     (let (_, s) = init_procfs mkdir_ok s
      in (0, procfs_create_entry create_ok ''Test_PROCFS'' True True s))"

definition procfs_cleanup :: "proc_state \<Rightarrow> proc_state" where
  "procfs_cleanup s = term_procfs (procfs_remove_entry ''Test_PROCFS'' s)"

section \<open>The handlers for kernels from 3.10 on\<close>

text \<open>
  The read handler returns its result, the bytes that reached the user buffer and the new
  file position. \<open>not_copied\<close> is the result of \<^verbatim>\<open>copy_to_user\<close> or \<^verbatim>\<open>copy_from_user\<close>.
\<close>

definition procfs_read_long :: "bool \<Rightarrow> nat \<Rightarrow> u64 \<Rightarrow> u64 \<Rightarrow> proc_state \<Rightarrow> c_int \<times> string \<times> u64 \<times> proc_state" where
  "procfs_read_long kzalloc_ok not_copied count ppos s =
     (if ppos \<ge> count then (0, [], ppos, s)
      else if kzalloc_ok then
        (let s = s\<lparr> live_bufs := live_bufs s + 1 \<rparr>;
             data = snprintf_zeroed LONG_BUF_LEN (format_ld (test_proc s) @ [CHR 0x0A]);
             user = take (LONG_BUF_LEN - not_copied) data
         in if not_copied \<noteq> 0 then (0, user, ppos, s)
            else (size_to_int count, user, ppos + count, s\<lparr> live_bufs := live_bufs s - 1 \<rparr>))
      else (0, [], ppos, s))"

text \<open>\<^verbatim>\<open>data\<close> is a pointer, so \<^verbatim>\<open>sizeof(data) - 1\<close> is 7 on a 64-bit machine.\<close>

definition procfs_write_long :: "bool \<Rightarrow> nat \<Rightarrow> string \<Rightarrow> u64 \<Rightarrow> proc_state \<Rightarrow> c_int \<times> proc_state" where
  "procfs_write_long kzalloc_ok not_copied userbuf count s =
     (if kzalloc_ok then
        (let s = s\<lparr> live_bufs := live_bufs s + 1 \<rparr>
         in if count > 8 - 1 then (word_of_int (- EINVAL), s\<lparr> live_bufs := live_bufs s - 1 \<rparr>)
            else if not_copied \<noteq> 0 then (word_of_int (- EINVAL), s\<lparr> live_bufs := live_bufs s - 1 \<rparr>)
            else
              (let data = take (unat count) userbuf @ [NUL];
                   intVal = long_to_int (simple_strtol (c_str data))
               in (size_to_int count, s\<lparr> test_proc := int_to_long intVal, live_bufs := live_bufs s - 1 \<rparr>)))
      else (word_of_int (- ENOMEM), s))"

section \<open>The handlers for older kernels\<close>

text \<open>Result, offset of \<^verbatim>\<open>*start\<close> in the page, \<^verbatim>\<open>*eof\<close> and the page.\<close>

definition procfs_read_long_2_6 :: "int \<Rightarrow> int \<Rightarrow> bool \<Rightarrow> proc_state \<Rightarrow> int \<times> int \<times> bool \<times> string" where
  "procfs_read_long_2_6 off count eof s =
     (let page = format_ld (test_proc s) @ [CHR 0x0A];
          len = int (length page);
          eof = (if len \<le> off + count then True else eof);
          len = len - off
      in (if len < 0 then 0 else len, off, eof, page))"

definition procfs_write_long_2_6 :: "nat \<Rightarrow> string \<Rightarrow> u64 \<Rightarrow> proc_state \<Rightarrow> int \<times> proc_state" where
  "procfs_write_long_2_6 not_copied buffer count s =
     (if count > of_nat LONG_BUF_LEN - 1 then (- EINVAL, s)
      else if not_copied \<noteq> 0 then (- EINVAL, s)
      else
        (let buff_long = take (unat count) buffer @ [NUL]
         in (uint count, s\<lparr> test_proc := simple_strtol (c_str buff_long) \<rparr>)))"

section \<open>Lemmas\<close>

lemma procfs_create_entry_variants: "procfs_create_entry_2_6 = procfs_create_entry"
  by (simp add: fun_eq_iff procfs_create_entry_2_6_def procfs_create_entry_def entry_path_def entry_mode_def PF_getDir_def Let_def)

lemma int_round_trip:
  assumes "- (2 ^ 31) \<le> sint v" and "sint v < 2 ^ 31"
  shows "int_to_long (long_to_int v) = v"
proof -
  have "sint (word_of_int k :: 32 word) = signed_take_bit 31 k" for k
    by (simp add: sint_sbintrunc')
  then have "sint (word_of_int (sint v) :: 32 word) = sint v"
    using assms by (simp only: signed_take_bit_int_eq_self)
  then show ?thesis by (simp add: int_to_long_def long_to_int_def)
qed

lemma dec_digits_bound: "n < 10 ^ length (dec_digits n)"
proof (induction n rule: dec_digits.induct)
  case (1 n)
  show ?case
  proof (cases "n < 10")
    case True then show ?thesis by (subst dec_digits.simps) simp
  next
    case False
    then have "length (dec_digits n) = Suc (length (dec_digits (n div 10)))" by (subst dec_digits.simps) simp
    moreover have "n div 10 < 10 ^ length (dec_digits (n div 10))" using 1 False by blast
    ultimately show ?thesis by simp
  qed
qed

lemma short_is_int:
  assumes "length (format_ld v) \<le> 7"
  shows "- (2 ^ 31) \<le> sint v" and "sint v < 2 ^ 31"
proof -
  have "n < 10 ^ 7" if "length (dec_digits n) \<le> 7" for n
    using dec_digits_bound [of n] power_increasing [OF that, of "10 :: nat"] by simp
  then have "nat \<bar>sint v\<bar> < 10 ^ 7" using assms by (auto simp: format_ld_def split: if_splits)
  then show "- (2 ^ 31) \<le> sint v" "sint v < 2 ^ 31" by simp_all
qed

lemma written_text:
  assumes "NUL \<notin> set r" and "no_digit_first r" and "length (format_ld v @ r) < 2 ^ 64"
  shows "simple_strtol (c_str (take (unat (of_nat (length (format_ld v @ r)) :: u64)) (format_ld v @ r) @ [NUL])) = v"
proof -
  have "unat (of_nat (length (format_ld v @ r)) :: u64) = length (format_ld v @ r)"
    using assms(3) by (rule unat_of_nat_u64)
  moreover have "c_str ((format_ld v @ r) @ NUL # []) = format_ld v @ r"
    using assms(1) format_ld_no_nul by (intro c_str_terminated) auto
  ultimately show ?thesis using strtol_format [OF assms(2)] by (simp only: take_all_iff order.refl take_all)
qed

lemma size_to_int_small: "n < 2 ^ 31 \<Longrightarrow> size_to_int (of_nat n) = of_nat n"
  by (simp add: size_to_int_def uint_nat unat_of_nat_u64)

lemma of_nat_le_u64: "n \<le> k \<Longrightarrow> k < 2 ^ 64 \<Longrightarrow> \<not> of_nat k < (of_nat n :: u64)"
  by (simp add: word_less_nat_alt unat_of_nat_u64)

lemma of_nat_gt_u64: "k < n \<Longrightarrow> n < 2 ^ 64 \<Longrightarrow> of_nat k < (of_nat n :: u64)"
  by (simp add: word_less_nat_alt unat_of_nat_u64)

lemma write_long_accepts:
  assumes "NUL \<notin> set r" and "no_digit_first r" and "length (format_ld v @ r) \<le> 7"
  shows "procfs_write_long True 0 (format_ld v @ r) (of_nat (length (format_ld v @ r))) s =
     (of_nat (length (format_ld v @ r)), s\<lparr> test_proc := v \<rparr>)"
proof -
  let ?n = "length (format_ld v @ r)"
  have n: "\<not> 7 < (of_nat ?n :: u64)" using of_nat_le_u64 [of ?n 7] assms(3) by simp
  have c: "size_to_int (of_nat ?n) = of_nat ?n" by (rule size_to_int_small) (use assms(3) in simp)
  have v: "int_to_long (long_to_int v) = v"
    using int_round_trip short_is_int [of v] assms(3) by simp
  have "?n < 2 ^ 64" using assms(3) by simp
  note t = written_text [OF assms(1,2) this]
  have m: "s\<lparr> test_proc := v, live_bufs := live_bufs s \<rparr> = s\<lparr> test_proc := v \<rparr>" by simp
  show ?thesis unfolding procfs_write_long_def using n c v m by (simp add: t del: length_append of_nat_add take_append append_assoc)
qed

lemma read_long_text:
  assumes "ppos < count"
  shows "procfs_read_long True 0 count ppos s =
     (size_to_int count, snprintf_zeroed LONG_BUF_LEN (format_ld (test_proc s) @ [CHR 0x0A]), ppos + count, s)"
  using assms by (simp add: procfs_read_long_def length_snprintf LONG_BUF_LEN_def not_le [symmetric])

lemma format_ld_short: "length (format_ld v) \<le> 7 \<Longrightarrow> c_str (snprintf_zeroed LONG_BUF_LEN (format_ld v @ [CHR 0x0A])) = format_ld v @ [CHR 0x0A]"
  using format_ld_no_nul [of v] by (subst c_str_snprintf) (simp_all add: LONG_BUF_LEN_def)

section \<open>Properties\<close>

text \<open>
  C20: Round trip through the proc file (kernels from 3.10 on): writing the decimal text of a
  value, with anything but a digit behind it, in at most 7 bytes stores exactly that value,
  in spite of the detour over an int, and returns the number of bytes; a read from the start
  of the file then returns the same text with a newline. Neither call leaks a buffer.
\<close>

theorem procfs_write_read:
  assumes "NUL \<notin> set r" and "no_digit_first r" and "length (format_ld v @ r) \<le> 7" and "0 < count"
  shows "procfs_write_long True 0 (format_ld v @ r) (of_nat (length (format_ld v @ r))) s =
       (of_nat (length (format_ld v @ r)), s\<lparr> test_proc := v \<rparr>) \<and>
     (\<exists>user. procfs_read_long True 0 count 0 (s\<lparr> test_proc := v \<rparr>) =
         (size_to_int count, user, count, s\<lparr> test_proc := v \<rparr>) \<and>
       c_str user = format_ld v @ [CHR 0x0A])"
  using write_long_accepts [OF assms(1-3)] read_long_text [OF assms(4)] format_ld_short [of v] assms(3) by auto

definition idle_proc :: proc_state where
  "idle_proc = \<lparr> test_proc = 0, proc_dir_root = False, proc_tree = Map.empty, live_bufs = 0 \<rparr>"

lemma format_minus_42: "format_ld (- 42) = ''-42''"
  by (simp add: format_ld_def dec_digits.simps [of 42] dec_digits.simps [of 4] char_of_def bit_0)

lemma format_12345678: "format_ld 12345678 = ''12345678''"
  by (simp add: format_ld_def dec_digits.simps [of 12345678] dec_digits.simps [of 1234567] dec_digits.simps [of 123456]
      dec_digits.simps [of 12345] dec_digits.simps [of 1234] dec_digits.simps [of 123] dec_digits.simps [of 12]
      dec_digits.simps [of 1] dec_digits.simps [of "Suc 0"] char_of_def bit_0)

theorem procfs_write_read_witness:
  "procfs_write_long True 0 (''-42'' @ [CHR 0x0A]) 4 idle_proc = (4, idle_proc\<lparr> test_proc := - 42 \<rparr>) \<and>
   (\<exists>user. procfs_read_long True 0 64 0 (idle_proc\<lparr> test_proc := - 42 \<rparr>) =
       (size_to_int 64, user, 64, idle_proc\<lparr> test_proc := - 42 \<rparr>) \<and> c_str user = ''-42'' @ [CHR 0x0A])"
  using procfs_write_read [of "[CHR 0x0A]" "- 42" 64 idle_proc]
  by (simp add: format_minus_42 no_digit_first_def is_digit_def)

text \<open>
  The handlers of the two kernel generations accept different texts. The old handler
  stores every 64-bit value from its decimal text; the new one refuses, with -EINVAL and no
  change of state, every text of more than 7 bytes, because it takes the size of a pointer
  for the size of the buffer.
\<close>

theorem procfs_write_limit:
  "procfs_write_long_2_6 0 (format_ld v) (of_nat (length (format_ld v))) s =
       (int (length (format_ld v)), s\<lparr> test_proc := v \<rparr>) \<and>
   (7 < length (format_ld v) \<longrightarrow>
     procfs_write_long True 0 (format_ld v) (of_nat (length (format_ld v))) s = (word_of_int (- EINVAL), s))"
proof (intro conjI impI)
  let ?n = "length (format_ld v)"
  have n: "?n \<le> 20" by (rule format_ld_length)
  have "\<not> 20 < (of_nat ?n :: u64)" using of_nat_le_u64 [of ?n 20] n by simp
  moreover have "uint (of_nat ?n :: u64) = int ?n" using n by (simp add: uint_nat unat_of_nat_u64)
  moreover have "simple_strtol (c_str (take (unat (of_nat ?n :: u64)) (format_ld v) @ [NUL])) = v"
    using written_text [of "[]" v] n by (simp add: no_digit_first_def)
  ultimately show "procfs_write_long_2_6 0 (format_ld v) (of_nat ?n) s = (int ?n, s\<lparr> test_proc := v \<rparr>)"
    by (simp add: procfs_write_long_2_6_def LONG_BUF_LEN_def)
  assume "7 < ?n"
  then have "7 < (of_nat ?n :: u64)" using of_nat_gt_u64 [of 7 ?n] n by simp
  then show "procfs_write_long True 0 (format_ld v) (of_nat ?n) s = (word_of_int (- EINVAL), s)"
    by (simp add: procfs_write_long_def)
qed

theorem procfs_write_limit_witness:
  "procfs_write_long_2_6 0 ''12345678'' 8 idle_proc = (8, idle_proc\<lparr> test_proc := 12345678 \<rparr>) \<and>
   procfs_write_long True 0 ''12345678'' 8 idle_proc = (word_of_int (- EINVAL), idle_proc)"
  using procfs_write_limit [of 12345678 idle_proc] by (simp add: format_12345678)

text \<open>
  The new read handler ignores the size of the user buffer: a read that is not at its end
  copies 21 bytes whatever the caller asked for, yet returns the number it was asked for; a
  failed copy is reported as end of file and leaks the kernel buffer.
\<close>

theorem procfs_read_ignores_count:
  assumes "ppos < count" and "0 < n"
  shows "(\<exists>user. procfs_read_long True 0 count ppos s = (size_to_int count, user, ppos + count, s) \<and> length user = 21) \<and>
     (\<exists>user. procfs_read_long True n count ppos s = (0, user, ppos, s\<lparr> live_bufs := live_bufs s + 1 \<rparr>))"
  using assms read_long_text [OF assms(1)] length_snprintf [of 21]
  by (simp add: procfs_read_long_def LONG_BUF_LEN_def)

theorem procfs_read_ignores_count_witness:
  "\<exists>user. procfs_read_long True 0 1 0 idle_proc = (size_to_int 1, user, 1, idle_proc) \<and> length user = 21"
  using procfs_read_ignores_count [of 0 1 1 idle_proc] by simp

text \<open>
  Loading always reports success. If the directory could be created, unloading removes
  the entry and the directory and leaves the proc tree as it was; if not, the entry goes to
  the root of /proc, unloading leaves it there, and its handlers outlive the module.
\<close>

theorem procfs_load_unload:
  assumes "proc_tree s [ROOT_PROCFS] = None" and "proc_tree s [ROOT_PROCFS, ''Test_PROCFS''] = None"
  shows "fst (procfs_init mkdir_ok create_ok s) = 0 \<and>
     proc_tree (procfs_cleanup (snd (procfs_init True create_ok s))) = proc_tree s \<and>
     proc_tree (procfs_cleanup (snd (procfs_init False True s))) [''Test_PROCFS''] = Some (Proc_file 0x8180)"
proof (intro conjI)
  show "fst (procfs_init mkdir_ok create_ok s) = 0" by (simp add: procfs_init_def split: prod.split)
  show "proc_tree (procfs_cleanup (snd (procfs_init True create_ok s))) = proc_tree s"
    using assms by (auto simp: procfs_init_def init_procfs_def procfs_create_entry_def procfs_cleanup_def term_procfs_def
        procfs_remove_entry_def entry_path_def fun_eq_iff)
  show "proc_tree (procfs_cleanup (snd (procfs_init False True s))) [''Test_PROCFS''] = Some (Proc_file 0x8180)"
    by (simp add: procfs_init_def init_procfs_def procfs_create_entry_def procfs_cleanup_def term_procfs_def
        procfs_remove_entry_def entry_path_def entry_mode_def)
qed

theorem procfs_load_unload_witness:
  "proc_tree (procfs_cleanup (snd (procfs_init True True idle_proc))) = Map.empty \<and>
   proc_tree (procfs_cleanup (snd (procfs_init False True idle_proc))) [''Test_PROCFS''] = Some (Proc_file 0x8180)"
  using procfs_load_unload [of idle_proc True True] by (simp add: idle_proc_def)

end
