(* ===== verification/Logger.thy ===== *)
theory Logger
  imports Kernel_Prelude
begin

text \<open>
  The logging macros of \<^verbatim>\<open>LoggerHeaderCode/log.h\<close>: a module-wide level that is clamped
  when it is set, and messages that are printed, with the prefix of their level, when the
  level admits them. \<^verbatim>\<open>printk\<close> output is a list of lines; the formatted text of a message is
  an argument.
\<close>

abbreviation (input) LOG_LEVEL_NONE :: int where "LOG_LEVEL_NONE \<equiv> 0"
abbreviation (input) LOG_LEVEL_CRITICAL :: int where "LOG_LEVEL_CRITICAL \<equiv> 1"
abbreviation (input) LOG_LEVEL_ERROR :: int where "LOG_LEVEL_ERROR \<equiv> 2"
abbreviation (input) LOG_LEVEL_WARNING :: int where "LOG_LEVEL_WARNING \<equiv> 3"
abbreviation (input) LOG_LEVEL_NOTICE :: int where "LOG_LEVEL_NOTICE \<equiv> 4"
abbreviation (input) LOG_LEVEL_INFO :: int where "LOG_LEVEL_INFO \<equiv> 5"
abbreviation (input) LOG_LEVEL_DEBUG :: int where "LOG_LEVEL_DEBUG \<equiv> 6"

record log_state =
  module_log_level :: int
  log_lines :: "string list"

definition SET_LOG_LEVEL :: "int \<Rightarrow> log_state \<Rightarrow> log_state" where
  "SET_LOG_LEVEL num s =
     (if num \<le> LOG_LEVEL_NONE then s\<lparr> module_log_level := LOG_LEVEL_NONE \<rparr>
      else if num \<ge> LOG_LEVEL_DEBUG then s\<lparr> module_log_level := LOG_LEVEL_DEBUG \<rparr>
      else s\<lparr> module_log_level := num \<rparr>)"

definition GET_LOG_LEVEL :: "log_state \<Rightarrow> int" where
  "GET_LOG_LEVEL s = module_log_level s"

definition printk_line :: "string \<Rightarrow> string \<Rightarrow> log_state \<Rightarrow> log_state" where
  "printk_line prefix msg s = s\<lparr> log_lines := log_lines s @ [prefix @ msg] \<rparr>"

definition LOG_MSG :: "int \<Rightarrow> string \<Rightarrow> log_state \<Rightarrow> log_state" where
  "LOG_MSG level msg s =
     (if level \<le> module_log_level s then
        if level = LOG_LEVEL_DEBUG then printk_line ''MODULE_DEBUG   : '' msg s
        else if level = LOG_LEVEL_INFO then printk_line ''MODULE_INFO    : '' msg s
        else if level = LOG_LEVEL_NOTICE then printk_line ''MODULE_NOTICE  : '' msg s
        else if level = LOG_LEVEL_WARNING then printk_line ''MODULE_WARNING : '' msg s
        else if level = LOG_LEVEL_ERROR then printk_line ''MODULE_ERROR   : '' msg s
        else if level = LOG_LEVEL_CRITICAL then printk_line ''MODULE_CRITICAL: '' msg s
        else s
      else s)"

text \<open>Messages of several levels, logged one after the other.\<close>

definition log_all :: "(int \<times> string) list \<Rightarrow> log_state \<Rightarrow> log_state" where
  "log_all ms s = fold (\<lambda>(level, msg). LOG_MSG level msg) ms s"

fun level_prefix :: "int \<Rightarrow> string" where
  "level_prefix level =
     (if level = 6 then ''MODULE_DEBUG   : '' else if level = 5 then ''MODULE_INFO    : ''
      else if level = 4 then ''MODULE_NOTICE  : '' else if level = 3 then ''MODULE_WARNING : ''
      else if level = 2 then ''MODULE_ERROR   : '' else ''MODULE_CRITICAL: '')"

lemma SET_LOG_LEVEL_clamps: "module_log_level (SET_LOG_LEVEL num s) = max 0 (min num 6)"
  by (simp add: SET_LOG_LEVEL_def)

lemma LOG_MSG_effect:
  assumes "module_log_level s \<le> 6"
  shows "LOG_MSG level msg s =
     (if 1 \<le> level \<and> level \<le> module_log_level s then printk_line (level_prefix level) msg s else s)"
  using assms by (auto simp: LOG_MSG_def)

lemma log_all_lines:
  "module_log_level s \<le> 6 \<Longrightarrow> log_lines (log_all ms s) = log_lines s @
     map (\<lambda>(level, msg). level_prefix level @ msg) (filter (\<lambda>(level, msg). 1 \<le> level \<and> level \<le> module_log_level s) ms)"
proof (induction ms arbitrary: s)
  case (Cons m ms)
  obtain level msg where m: "m = (level, msg)" by (cases m)
  have "module_log_level (LOG_MSG level msg s) = module_log_level s"
    using Cons.prems by (simp add: LOG_MSG_effect printk_line_def)
  with Cons.IH [of "LOG_MSG level msg s"] Cons.prems m show ?case
    by (simp add: log_all_def LOG_MSG_effect printk_line_def)
qed (simp add: log_all_def)

text \<open>
  The level is clamped to the range from none to debug, and from then on exactly the
  messages of a level between critical and the one set are printed, in order and each with
  the prefix of its own level; nothing is printed at level none or below, nor above debug.
\<close>

theorem log_level_filters:
  "GET_LOG_LEVEL (SET_LOG_LEVEL num s) = max 0 (min num 6) \<and>
   log_lines (log_all ms (SET_LOG_LEVEL num s)) = log_lines s @
     map (\<lambda>(level, msg). level_prefix level @ msg) (filter (\<lambda>(level, msg). 1 \<le> level \<and> level \<le> min num 6) ms)"
proof -
  have "log_lines (SET_LOG_LEVEL num s) = log_lines s" by (simp add: SET_LOG_LEVEL_def)
  moreover have "(1 \<le> level \<and> level \<le> max 0 (min num 6)) = (1 \<le> level \<and> level \<le> min num 6)" for level :: int
    by auto
  ultimately show ?thesis using log_all_lines [of "SET_LOG_LEVEL num s" ms]
    by (simp add: SET_LOG_LEVEL_clamps GET_LOG_LEVEL_def)
qed

end
