(* ===== verification/Mount_Iter.thy ===== *)
theory Mount_Iter
  imports Kernel_Prelude
begin

text \<open>
  The module \<^verbatim>\<open>Iterate_MountFS/mount_iter.c\<close>, for kernels from 3.3 on: it walks the tree of
  mounts along the kernel's intrusive lists, keeps one record per file system type, prints
  the types and frees the records. The links between mounts are a record of pointer fields;
  the tree they stand for is the datatype \<open>mtree\<close>. The list of records is a HOL list, and
  \<open>rec_live\<close> counts the record objects that are allocated. Locks and RCU sections do not
  appear: nothing else changes the tree here.
\<close>

section \<open>Data\<close>

text \<open>A \<^verbatim>\<open>struct list_head *\<close>: the head \<^verbatim>\<open>mnt_mounts\<close> or the link \<^verbatim>\<open>mnt_child\<close> of a mount.\<close>

datatype lh = Mounts_of addr | Child_of addr

record mounts =
  mnt_parent :: "addr \<Rightarrow> addr"
  mounts_next :: "addr \<Rightarrow> lh"
  child_next :: "addr \<Rightarrow> lh"
  fs_name :: "addr \<Rightarrow> string"

record iter_state =
  mount_records :: "addr list"
  rec_live :: nat
  kmallocs :: nat
  mnt_count :: "addr \<Rightarrow> int"
  fs_log :: "string list"

section \<open>Operations\<close>

definition filesystem_name_compare :: "mounts \<Rightarrow> addr \<Rightarrow> addr \<Rightarrow> bool" where
  "filesystem_name_compare h mnt_point1 mnt_point2 \<longleftrightarrow> fs_name h mnt_point1 = fs_name h mnt_point2"

fun vfs_mount_point_compare :: "mounts \<Rightarrow> addr \<Rightarrow> addr list \<Rightarrow> bool" where
  "vfs_mount_point_compare h mnt [] \<longleftrightarrow> False"
| "vfs_mount_point_compare h mnt (tmp # rest) \<longleftrightarrow>
     (if filesystem_name_compare h tmp mnt then True else vfs_mount_point_compare h mnt rest)"

text \<open>\<open>kmalloc_ok n\<close> says whether the \<open>n\<close>-th allocation succeeds.\<close>

definition add_to_filesystem_record :: "(nat \<Rightarrow> bool) \<Rightarrow> mounts \<Rightarrow> addr \<Rightarrow> iter_state \<Rightarrow> int \<times> iter_state" where
  "add_to_filesystem_record kmalloc_ok h mnt s =
     (let ok = kmalloc_ok (kmallocs s);
          s = s\<lparr> kmallocs := kmallocs s + 1 \<rparr>
      in if ok then
           (let s = s\<lparr> rec_live := rec_live s + 1 \<rparr>
            in if mount_records s \<noteq> [] then
                 (if \<not> vfs_mount_point_compare h mnt (mount_records s)
                  then (0, s\<lparr> mount_records := mount_records s @ [mnt] \<rparr>) else (0, s))
               else (0, s\<lparr> mount_records := mount_records s @ [mnt] \<rparr>))
         else (- ENOMEM, s))"

partial_function (option) get_root_mount_point :: "mounts \<Rightarrow> addr \<Rightarrow> addr option" where
  "get_root_mount_point h mount_list =
     (if mount_list = mnt_parent h mount_list then Some mount_list
      else get_root_mount_point h (mnt_parent h mount_list))"

text \<open>\<^verbatim>\<open>list_entry\<close> of a list head that is no \<^verbatim>\<open>mnt_child\<close> gives no mount.\<close>

fun child_mounted_filesystem :: "lh \<Rightarrow> addr option" where
  "child_mounted_filesystem (Child_of m) = Some m"
| "child_mounted_filesystem (Mounts_of m) = None"

definition mntget :: "addr \<Rightarrow> iter_state \<Rightarrow> iter_state" where
  "mntget m s = s\<lparr> mnt_count := (mnt_count s)(m := mnt_count s m + 1) \<rparr>"

definition mntput :: "addr \<Rightarrow> iter_state \<Rightarrow> iter_state" where
  "mntput m s = s\<lparr> mnt_count := (mnt_count s)(m := mnt_count s m - 1) \<rparr>"

text \<open>The inner loop, which climbs to the nearest ancestor that has a next sibling.\<close>

partial_function (option) climb :: "mounts \<Rightarrow> addr \<Rightarrow> lh \<Rightarrow> (addr \<times> lh) option" where
  "climb h mnt_next next =
     (if mnt_next \<noteq> mnt_parent h mnt_next then
        (let next = child_next h mnt_next
         in if next \<noteq> Mounts_of (mnt_parent h mnt_next) then Some (mnt_next, next)
            else climb h (mnt_parent h mnt_next) next)
      else Some (mnt_next, next))"

text \<open>The mount after \<open>mount_list\<close>, \<open>Some None\<close> when the loop is left.\<close>

definition next_mount :: "mounts \<Rightarrow> addr \<Rightarrow> addr option option" where
  "next_mount h mount_list =
     (let next = mounts_next h mount_list
      in if next \<noteq> Mounts_of mount_list then map_option Some (child_mounted_filesystem next)
         else do {
           (mnt_next, next) \<leftarrow> climb h mount_list next;
           if mnt_next = mnt_parent h mnt_next then Some None
           else map_option Some (child_mounted_filesystem next) })"

partial_function (option) iterate_loop ::
    "(nat \<Rightarrow> bool) \<Rightarrow> mounts \<Rightarrow> addr \<Rightarrow> iter_state \<Rightarrow> iter_state option" where
  "iterate_loop kmalloc_ok h mnt s =
     (let s = snd (add_to_filesystem_record kmalloc_ok h mnt s)
      in do {
        r \<leftarrow> next_mount h mnt;
        case r of
          None \<Rightarrow> Some (mntput mnt s)
        | Some mnt_next \<Rightarrow> iterate_loop kmalloc_ok h mnt_next (mntput mnt (mntget mnt_next s)) })"

declare get_root_mount_point.simps [code] climb.simps [code] iterate_loop.simps [code]

definition iterate_mount_point :: "(nat \<Rightarrow> bool) \<Rightarrow> mounts \<Rightarrow> addr \<Rightarrow> iter_state \<Rightarrow> (int \<times> iter_state) option" where
  "iterate_mount_point kmalloc_ok h current_root s = do {
     mount_list \<leftarrow> get_root_mount_point h current_root;
     s \<leftarrow> iterate_loop kmalloc_ok h mount_list (mntget mount_list s);
     Some (0, s) }"

definition log_names :: "mounts \<Rightarrow> addr list \<Rightarrow> iter_state \<Rightarrow> iter_state" where
  "log_names h ms s = s\<lparr> fs_log := fs_log s @ map (fs_name h) ms \<rparr>"

text \<open>\<^verbatim>\<open>list_for_each_safe\<close> with \<^verbatim>\<open>list_del\<close> and \<^verbatim>\<open>kfree\<close>.\<close>

fun delete_records :: "mounts \<Rightarrow> addr list \<Rightarrow> iter_state \<Rightarrow> iter_state" where
  "delete_records h [] s = s"
| "delete_records h (tmp # rest) s =
     delete_records h rest (s\<lparr> fs_log := fs_log s @ [fs_name h tmp], mount_records := tl (mount_records s),
                               rec_live := rec_live s - 1 \<rparr>)"

definition filesystem_list_init :: "(nat \<Rightarrow> bool) \<Rightarrow> mounts \<Rightarrow> addr \<Rightarrow> iter_state \<Rightarrow> (int \<times> iter_state) option" where
  "filesystem_list_init kmalloc_ok h current_root s = do {
     let s = s\<lparr> mount_records := [] \<rparr>;
     (_, s) \<leftarrow> iterate_mount_point kmalloc_ok h current_root s;
     let s = log_names h (mount_records s) s;
     Some (0, delete_records h (mount_records s) s) }"

section \<open>The tree of mounts\<close>

datatype mtree = MNode addr "mtree list"

fun mroot :: "mtree \<Rightarrow> addr" where
  "mroot (MNode m ts) = m"

fun preorder :: "mtree \<Rightarrow> addr list" where
  "preorder (MNode m ts) = m # concat (map preorder ts)"

definition first_link :: "addr \<Rightarrow> mtree list \<Rightarrow> lh" where
  "first_link m ts = (case ts of [] \<Rightarrow> Mounts_of m | t # _ \<Rightarrow> Child_of (mroot t))"

fun siblings :: "mounts \<Rightarrow> addr \<Rightarrow> mtree list \<Rightarrow> bool" where
  "siblings h m [] \<longleftrightarrow> True"
| "siblings h m (t # ts) \<longleftrightarrow> mnt_parent h (mroot t) = m \<and> mroot t \<noteq> m \<and>
     child_next h (mroot t) = first_link m ts \<and> siblings h m ts"

fun mounted :: "mounts \<Rightarrow> mtree \<Rightarrow> bool" where
  "mounted h (MNode m ts) \<longleftrightarrow> mounts_next h m = first_link m ts \<and> siblings h m ts \<and> (\<forall>t\<in>set ts. mounted h t)"

definition mount_tree :: "mounts \<Rightarrow> mtree \<Rightarrow> bool" where
  "mount_tree h t \<longleftrightarrow> mounted h t \<and> mnt_parent h (mroot t) = mroot t"

section \<open>The walk visits the tree in preorder\<close>

text \<open>The mount that follows the whole subtree of \<open>m\<close>.\<close>

definition after_subtree :: "mounts \<Rightarrow> addr \<Rightarrow> addr option option" where
  "after_subtree h m = do {
     (m', next) \<leftarrow> climb h m (Mounts_of m);
     if m' = mnt_parent h m' then Some None else map_option Some (child_mounted_filesystem next) }"

fun walk :: "mounts \<Rightarrow> addr option \<Rightarrow> addr list \<Rightarrow> addr option \<Rightarrow> bool" where
  "walk h p [] q \<longleftrightarrow> p = q"
| "walk h p (x # xs) q \<longleftrightarrow> p = Some x \<and> (\<exists>p'. next_mount h x = Some p' \<and> walk h p' xs q)"

lemma walk_append: "walk h p (xs @ ys) q \<longleftrightarrow> (\<exists>r. walk h p xs r \<and> walk h r ys q)"
  by (induction xs arbitrary: p) auto

lemma after_root: "mnt_parent h m = m \<Longrightarrow> after_subtree h m = Some None"
  unfolding after_subtree_def by (subst climb.simps) simp

lemma after_sibling:
  assumes "mnt_parent h c = m" and "c \<noteq> m" and "child_next h c = Child_of d"
  shows "after_subtree h c = Some (Some d)"
  unfolding after_subtree_def using assms by (subst climb.simps) simp

lemma after_last:
  assumes "mnt_parent h c = m" and "c \<noteq> m" and "child_next h c = Mounts_of m"
  shows "after_subtree h c = after_subtree h m"
proof (cases "mnt_parent h m = m")
  case True
  then show ?thesis unfolding after_subtree_def using assms
    by (subst (1 2) climb.simps, subst climb.simps) simp
next
  case False
  have "climb h c (Mounts_of c) = climb h m (Mounts_of m)"
    using assms by (subst climb.simps) simp
  then show ?thesis by (simp add: after_subtree_def)
qed

lemma next_mount_leaf: "mounts_next h m = Mounts_of m \<Longrightarrow> next_mount h m = after_subtree h m"
  by (simp add: next_mount_def after_subtree_def)

lemma mroot_in_preorder: "\<exists>xs. preorder t = mroot t # xs"
  by (cases t) simp

text \<open>A forest of siblings is walked tree by tree, and then the walk goes on after the parent.\<close>

lemma walk_forest:
  assumes "siblings h m ts" and "ts \<noteq> []" and "after_subtree h m = Some q"
    and "\<And>t q. t \<in> set ts \<Longrightarrow> after_subtree h (mroot t) = Some q \<Longrightarrow> walk h (Some (mroot t)) (preorder t) q"
  shows "walk h (Some (mroot (hd ts))) (concat (map preorder ts)) q"
  using assms
proof (induction ts)
  case (Cons t ts)
  show ?case
  proof (cases ts)
    case Nil
    with Cons.prems have "after_subtree h (mroot t) = Some q"
      using after_last [of h "mroot t" m] by (simp add: first_link_def)
    with Cons.prems(4) Nil show ?thesis by simp
  next
    case (Cons u us)
    then have "after_subtree h (mroot t) = Some (Some (mroot u))"
      using Cons.prems(1) after_sibling [of h "mroot t" m] by (simp add: first_link_def)
    then have "walk h (Some (mroot t)) (preorder t) (Some (mroot u))" using Cons.prems(4) by simp
    moreover have "walk h (Some (mroot u)) (concat (map preorder ts)) q"
      using Cons.IH Cons.prems Cons by simp
    ultimately show ?thesis using Cons by (auto simp: walk_append)
  qed
qed simp

lemma walk_tree:
  "mounted h t \<Longrightarrow> after_subtree h (mroot t) = Some q \<Longrightarrow> walk h (Some (mroot t)) (preorder t) q"
proof (induction t arbitrary: q)
  case (MNode m ts)
  show ?case
  proof (cases ts)
    case Nil
    with MNode.prems show ?thesis by (simp add: next_mount_leaf first_link_def)
  next
    case (Cons u us)
    with MNode.prems have "next_mount h m = Some (Some (mroot u))" by (simp add: next_mount_def first_link_def)
    moreover have "walk h (Some (mroot (hd ts))) (concat (map preorder ts)) q"
      using MNode Cons by (intro walk_forest [of h m]) auto
    ultimately show ?thesis using Cons by simp
  qed
qed

section \<open>What the walk records\<close>

definition record_first :: "mounts \<Rightarrow> addr \<Rightarrow> addr list \<Rightarrow> addr list" where
  "record_first h m rs = (if fs_name h m \<in> fs_name h ` set rs then rs else rs @ [m])"

lemma vfs_mount_point_compare_iff: "vfs_mount_point_compare h m rs \<longleftrightarrow> fs_name h m \<in> fs_name h ` set rs"
  by (induction rs) (auto simp: filesystem_name_compare_def)

lemma add_record_ok:
  "kmalloc_ok (kmallocs s) \<Longrightarrow> add_to_filesystem_record kmalloc_ok h m s =
     (0, s\<lparr> kmallocs := kmallocs s + 1, rec_live := rec_live s + 1,
            mount_records := record_first h m (mount_records s) \<rparr>)"
  by (cases "mount_records s = []")
    (auto simp: add_to_filesystem_record_def record_first_def vfs_mount_point_compare_iff Let_def)

lemma add_record_fails:
  "\<not> kmalloc_ok (kmallocs s) \<Longrightarrow> add_to_filesystem_record kmalloc_ok h m s =
     (- ENOMEM, s\<lparr> kmallocs := kmallocs s + 1 \<rparr>)"
  by (simp add: add_to_filesystem_record_def)

lemma iterate_loop_walk:
  assumes "walk h (Some m) (m # xs) None" and "\<forall>n. kmalloc_ok n"
  shows "iterate_loop kmalloc_ok h m s = Some (s\<lparr>
     kmallocs := kmallocs s + length (m # xs), rec_live := rec_live s + length (m # xs),
     mount_records := fold (record_first h) (m # xs) (mount_records s),
     mnt_count := (mnt_count s)(m := mnt_count s m - 1) \<rparr>)"
  using assms(1)
proof (induction xs arbitrary: m s)
  case Nil
  then have "next_mount h m = Some None" by auto
  then show ?case using assms(2)
    by (subst iterate_loop.simps) (simp add: add_record_ok mntput_def)
next
  case (Cons x xs)
  then have n: "next_mount h m = Some (Some x)" and w: "walk h (Some x) (x # xs) None" by auto
  let ?c = "(mnt_count s)(x := mnt_count s x + 1)"
  have c: "?c(m := ?c m - 1, x := (?c(m := ?c m - 1)) x - 1) = (mnt_count s)(m := mnt_count s m - 1)"
    by auto
  have k: "kmalloc_ok = (\<lambda>_. True)" using assms(2) by auto
  show ?case unfolding k using Cons.IH [OF w, unfolded k] n c
    by (subst iterate_loop.simps) (simp add: add_record_ok mntput_def mntget_def Let_def del: fun_upd_apply)
qed

lemma first_occurrences:
  "map (fs_name h) (fold (record_first h) xs rs) =
     map (fs_name h) rs @ rev (remdups (filter (\<lambda>n. n \<notin> set (map (fs_name h) rs)) (rev (map (fs_name h) xs))))"
proof (induction xs arbitrary: rs)
  case (Cons x xs)
  show ?case
  proof (cases "fs_name h x \<in> fs_name h ` set rs")
    case True
    then show ?thesis using Cons.IH [of rs] by (simp add: record_first_def)
  next
    case False
    let ?P = "\<lambda>n. n \<notin> set (map (fs_name h) rs)"
    have snoc: "rev (remdups (ns @ [n])) = n # rev (remdups (filter (\<lambda>k. k \<noteq> n) ns))" for ns :: "string list" and n
      by (induction ns) auto
    have "filter (\<lambda>n. n \<notin> set (map (fs_name h) (rs @ [x]))) (rev (map (fs_name h) xs)) =
        filter (\<lambda>k. k \<noteq> fs_name h x) (filter ?P (rev (map (fs_name h) xs)))"
      by (auto simp: filter_filter intro!: filter_cong)
    then show ?thesis using False Cons.IH [of "rs @ [x]"] by (simp add: record_first_def snoc)
  qed
qed simp

definition names_once :: "string list \<Rightarrow> string list" where
  "names_once ns = rev (remdups (rev ns))"

lemma recorded_names: "map (fs_name h) (fold (record_first h) xs []) = names_once (map (fs_name h) xs)"
  using first_occurrences [of h xs "[]"] by (simp add: names_once_def)

lemma delete_records_effect:
  "length ms \<le> rec_live s \<Longrightarrow> delete_records h ms s =
     s\<lparr> fs_log := fs_log s @ map (fs_name h) ms, mount_records := drop (length ms) (mount_records s),
        rec_live := rec_live s - length ms \<rparr>"
proof (induction ms arbitrary: s)
  case (Cons m ms)
  then show ?case by (simp add: drop_Suc)
qed simp

lemma iterate_tree:
  assumes "mount_tree h t" and "get_root_mount_point h root = Some (mroot t)" and "\<forall>n. kmalloc_ok n"
  shows "iterate_mount_point kmalloc_ok h root s = Some (0, s\<lparr>
     kmallocs := kmallocs s + length (preorder t), rec_live := rec_live s + length (preorder t),
     mount_records := fold (record_first h) (preorder t) (mount_records s) \<rparr>)"
proof -
  have "walk h (Some (mroot t)) (preorder t) None"
    using assms(1) by (intro walk_tree after_root) (simp_all add: mount_tree_def)
  moreover obtain xs where xs: "preorder t = mroot t # xs" using mroot_in_preorder by blast
  ultimately have "iterate_loop kmalloc_ok h (mroot t) (mntget (mroot t) s) =
      Some ((mntget (mroot t) s)\<lparr>
     kmallocs := kmallocs s + length (preorder t), rec_live := rec_live s + length (preorder t),
     mount_records := fold (record_first h) (preorder t) (mount_records s), mnt_count := mnt_count s \<rparr>)"
    using iterate_loop_walk [OF _ assms(3), of h "mroot t" xs "mntget (mroot t) s"]
    by (simp add: mntget_def del: walk.simps fold_simps)
  then show ?thesis using assms(2) by (simp add: iterate_mount_point_def mntget_def)
qed

text \<open>Whatever the allocations do, the walk ends with balanced reference counts.\<close>

lemma add_record_any:
  assumes "distinct (map (fs_name h) (mount_records s))"
  shows "\<exists>rs n. snd (add_to_filesystem_record kmalloc_ok h m s) =
       s\<lparr> kmallocs := kmallocs s + 1, rec_live := n, mount_records := rs \<rparr> \<and>
     distinct (map (fs_name h) rs) \<and> set rs \<subseteq> insert m (set (mount_records s))"
proof (cases "kmalloc_ok (kmallocs s)")
  case True
  then show ?thesis using assms
    by (intro exI [of _ "record_first h m (mount_records s)"] exI [of _ "rec_live s + 1"])
      (auto simp: add_record_ok record_first_def)
next
  case False
  then show ?thesis using assms
    by (intro exI [of _ "mount_records s"] exI [of _ "rec_live s"]) (auto simp: add_record_fails)
qed

lemma iterate_loop_any:
  assumes "walk h (Some m) (m # xs) None" and "distinct (map (fs_name h) (mount_records s))"
  shows "\<exists>s'. iterate_loop kmalloc_ok h m s = Some s' \<and> distinct (map (fs_name h) (mount_records s')) \<and>
     set (mount_records s') \<subseteq> set (mount_records s) \<union> set (m # xs) \<and>
     mnt_count s' = (mnt_count s)(m := mnt_count s m - 1)"
  using assms
proof (induction xs arbitrary: m s)
  case Nil
  then have n: "next_mount h m = Some None" by auto
  obtain rs k where "snd (add_to_filesystem_record kmalloc_ok h m s) =
      s\<lparr> kmallocs := kmallocs s + 1, rec_live := k, mount_records := rs \<rparr>"
    "distinct (map (fs_name h) rs)" "set rs \<subseteq> insert m (set (mount_records s))"
    using add_record_any [OF Nil(2)] by blast
  with n show ?case by (subst iterate_loop.simps) (auto simp: mntput_def)
next
  case (Cons x xs)
  then have n: "next_mount h m = Some (Some x)" and w: "walk h (Some x) (x # xs) None" by auto
  obtain rs k where a: "snd (add_to_filesystem_record kmalloc_ok h m s) =
      s\<lparr> kmallocs := kmallocs s + 1, rec_live := k, mount_records := rs \<rparr>"
    "distinct (map (fs_name h) rs)" "set rs \<subseteq> insert m (set (mount_records s))"
    using add_record_any [OF Cons.prems(2)] by blast
  let ?s = "mntput m (mntget x (s\<lparr> kmallocs := kmallocs s + 1, rec_live := k, mount_records := rs \<rparr>))"
  have rs: "mount_records ?s = rs" by (simp add: mntput_def mntget_def)
  obtain s' where s': "iterate_loop kmalloc_ok h x ?s = Some s'" "distinct (map (fs_name h) (mount_records s'))"
    "set (mount_records s') \<subseteq> set rs \<union> set (x # xs)" "mnt_count s' = (mnt_count ?s)(x := mnt_count ?s x - 1)"
    using Cons.IH [OF w, of ?s] a(2) unfolding rs by blast
  have "mnt_count s' = (mnt_count s)(m := mnt_count s m - 1)" unfolding s'(4) by (auto simp: mntput_def mntget_def)
  with s' a n show ?case by (subst iterate_loop.simps) (auto simp: Let_def)
qed

lemma get_root_tree:
  "mounted h t \<Longrightarrow> m \<in> set (preorder t) \<Longrightarrow> get_root_mount_point h m = get_root_mount_point h (mroot t)"
proof (induction t)
  case (MNode r ts)
  have sib: "siblings h r us \<Longrightarrow> u \<in> set us \<Longrightarrow> mnt_parent h (mroot u) = r \<and> mroot u \<noteq> r" for us u
    by (induction us) auto
  show ?case
  proof (cases "m = r")
    case False
    with MNode.prems obtain u where u: "u \<in> set ts" "m \<in> set (preorder u)" by auto
    with MNode.prems sib [of ts u] have p: "mnt_parent h (mroot u) = r" "mroot u \<noteq> r" by simp_all
    have "get_root_mount_point h (mroot u) = get_root_mount_point h r"
      using p by (subst get_root_mount_point.simps) simp
    with MNode.IH [OF u(1)] MNode.prems u show ?thesis by simp
  qed simp
qed

lemma get_root_found:
  "mount_tree h t \<Longrightarrow> m \<in> set (preorder t) \<Longrightarrow> get_root_mount_point h m = Some (mroot t)"
  using get_root_tree [of h t m] by (simp add: mount_tree_def, subst (asm) (2) get_root_mount_point.simps) simp

section \<open>Properties\<close>

text \<open>
  C17: On every well-formed tree of mounts, started from any mount of it and whatever the
  allocations do, the walk terminates without following a list head that is no mount,
  returns 0, leaves every reference count as it was, and records mounts of the tree whose
  file system types are pairwise different.
\<close>

theorem iterate_mount_point_total:
  assumes "mount_tree h t" and "m \<in> set (preorder t)" and "mount_records s = []"
  shows "\<exists>s'. iterate_mount_point kmalloc_ok h m s = Some (0, s') \<and> mnt_count s' = mnt_count s \<and>
     distinct (map (fs_name h) (mount_records s')) \<and> set (mount_records s') \<subseteq> set (preorder t)"
proof -
  have "walk h (Some (mroot t)) (preorder t) None"
    using assms(1) by (intro walk_tree after_root) (simp_all add: mount_tree_def)
  moreover obtain xs where xs: "preorder t = mroot t # xs" using mroot_in_preorder by blast
  ultimately have w: "walk h (Some (mroot t)) (mroot t # xs) None" by (simp only:)
  obtain s' where s': "iterate_loop kmalloc_ok h (mroot t) (mntget (mroot t) s) = Some s'"
    "distinct (map (fs_name h) (mount_records s'))" "set (mount_records s') \<subseteq> set (mroot t # xs)"
    "mnt_count s' = mnt_count s"
    using iterate_loop_any [OF w, of "mntget (mroot t) s" kmalloc_ok] assms(3) by (auto simp: mntget_def)
  then show ?thesis using get_root_found [OF assms(1,2)] xs by (simp add: iterate_mount_point_def)
qed

definition four_mounts :: mounts where
  "four_mounts = \<lparr> mnt_parent = (\<lambda>m. if m = 4 then 2 else 1),
     mounts_next = (\<lambda>m. if m = 1 then Child_of 2 else if m = 2 then Child_of 4 else Mounts_of m),
     child_next = (\<lambda>m. if m = 2 then Child_of 3 else if m = 3 then Mounts_of 1 else Mounts_of 2),
     fs_name = (\<lambda>m. if m = 1 then ''ext4'' else if m = 3 then ''proc'' else ''tmpfs'') \<rparr>"

definition four_tree :: mtree where
  "four_tree = MNode 1 [MNode 2 [MNode 4 []], MNode 3 []]"

definition no_records :: iter_state where
  "no_records = \<lparr> mount_records = [], rec_live = 0, kmallocs = 0, mnt_count = (\<lambda>_. 1), fs_log = [] \<rparr>"

lemma four_mount_tree: "mount_tree four_mounts four_tree"
  by (simp add: mount_tree_def four_mounts_def four_tree_def first_link_def)

theorem iterate_mount_point_total_witness:
  "\<exists>s'. iterate_mount_point (\<lambda>n. n \<noteq> 1) four_mounts 4 no_records = Some (0, s') \<and> mnt_count s' = (\<lambda>_. 1)"
  using iterate_mount_point_total [OF four_mount_tree, of 4 no_records "\<lambda>n. n \<noteq> 1"]
  by (auto simp: four_tree_def no_records_def)

text \<open>
  C18: When all allocations succeed, loading the module prints the file system types of all
  mounts, each once, in the order of their first mount in the preorder walk, and prints them
  again when it frees the records; of the records allocated for further mounts of a type,
  none is freed: one object is lost for every mount whose type was already recorded.
\<close>

theorem filesystem_list_init_prints_once:
  assumes "mount_tree h t" and "m \<in> set (preorder t)" and "\<forall>n. kmalloc_ok n"
  shows "\<exists>s'. filesystem_list_init kmalloc_ok h m s = Some (0, s') \<and>
     fs_log s' = fs_log s @ names_once (map (fs_name h) (preorder t)) @ names_once (map (fs_name h) (preorder t)) \<and>
     mount_records s' = [] \<and> mnt_count s' = mnt_count s \<and>
     rec_live s' = rec_live s + (length (preorder t) - card (fs_name h ` set (preorder t)))"
proof -
  let ?rs = "fold (record_first h) (preorder t) []"
  have names: "map (fs_name h) ?rs = names_once (map (fs_name h) (preorder t))" by (rule recorded_names)
  have "length ?rs = length (names_once (map (fs_name h) (preorder t)))" by (metis names length_map)
  also have "\<dots> = card (fs_name h ` set (preorder t))"
    by (simp add: names_once_def length_remdups_card_conv)
  finally have len: "length ?rs = card (fs_name h ` set (preorder t))" .
  have le: "card (fs_name h ` set (preorder t)) \<le> length (preorder t)"
    using card_image_le [of "set (preorder t)" "fs_name h"] card_length [of "preorder t"] by simp
  show ?thesis
    using iterate_tree [OF assms(1) get_root_found [OF assms(1,2)] assms(3), of "s\<lparr> mount_records := [] \<rparr>"] len le
    by (simp add: filesystem_list_init_def log_names_def delete_records_effect names)
qed

theorem filesystem_list_init_prints_once_witness:
  "\<exists>s'. filesystem_list_init (\<lambda>_. True) four_mounts 4 no_records = Some (0, s') \<and>
     fs_log s' = [''ext4'', ''tmpfs'', ''proc'', ''ext4'', ''tmpfs'', ''proc''] \<and> rec_live s' = 1"
  using filesystem_list_init_prints_once [OF four_mount_tree, of 4 "\<lambda>_. True" no_records]
  by (auto simp: four_tree_def four_mounts_def no_records_def names_once_def)

end
