(* ===== verification/Mount_Versions.thy ===== *)
theory Mount_Versions
  imports Mount_Iter
begin

text \<open>
  The module \<^verbatim>\<open>mount_iter.c\<close> with its conditional compilation: every variant that the tests of
  \<^verbatim>\<open>LINUX_VERSION_CODE\<close> select, with the locks each of them takes and releases. The lemmas show that
  the variants do the same to the mounts and to the list of records as the functions of
  \<open>Mount_Iter\<close>, that each variant releases the locks it takes, on every path, and that all of
  them allocate with \<^verbatim>\<open>GFP_KERNEL\<close>, which may sleep, where sleeping is forbidden.
\<close>

section \<open>Kernel versions and locks\<close>

definition KERNEL_VERSION :: "nat \<Rightarrow> nat \<Rightarrow> nat \<Rightarrow> nat" where
  "KERNEL_VERSION a b c = a * 65536 + b * 256 + c"

text \<open>
  \<open>fs_lock\<close> is \<^verbatim>\<open>current->fs->lock\<close>, a reader/writer lock before 2.6.38 and a spinlock from then on.
  \<open>atomic_kmallocs\<close> counts the allocations that may sleep and were made inside an RCU section or
  with a spinlock held.
\<close>

record locked_state =
  iter :: iter_state
  rcu_depth :: nat
  fs_lock :: bool
  dcache_lock :: bool
  atomic_kmallocs :: nat

definition rcu_read_lock :: "locked_state \<Rightarrow> locked_state" where
  "rcu_read_lock s = s\<lparr> rcu_depth := rcu_depth s + 1 \<rparr>"

definition rcu_read_unlock :: "locked_state \<Rightarrow> locked_state option" where
  "rcu_read_unlock s = (if rcu_depth s = 0 then None else Some (s\<lparr> rcu_depth := rcu_depth s - 1 \<rparr>))"

definition lock_fs :: "locked_state \<Rightarrow> locked_state option" where
  "lock_fs s = (if fs_lock s then None else Some (s\<lparr> fs_lock := True \<rparr>))"

definition unlock_fs :: "locked_state \<Rightarrow> locked_state option" where
  "unlock_fs s = (if fs_lock s then Some (s\<lparr> fs_lock := False \<rparr>) else None)"

definition lock_dcache :: "locked_state \<Rightarrow> locked_state option" where
  "lock_dcache s = (if dcache_lock s then None else Some (s\<lparr> dcache_lock := True \<rparr>))"

definition unlock_dcache :: "locked_state \<Rightarrow> locked_state option" where
  "unlock_dcache s = (if dcache_lock s then Some (s\<lparr> dcache_lock := False \<rparr>) else None)"

definition in_atomic :: "locked_state \<Rightarrow> bool" where
  "in_atomic s \<longleftrightarrow> rcu_depth s > 0 \<or> fs_lock s \<or> dcache_lock s"

definition on_iter :: "(iter_state \<Rightarrow> iter_state) \<Rightarrow> locked_state \<Rightarrow> locked_state" where
  "on_iter f s = s\<lparr> iter := f (iter s) \<rparr>"

section \<open>The functions\<close>

text \<open>
  The three loops that look for the root differ in the names of the fields only; \<open>root\<close> is
  \<^verbatim>\<open>current->fs->root_mnt\<close>, \<^verbatim>\<open>current->fs->root.mnt\<close> or the \<^verbatim>\<open>struct mount\<close> around it.
\<close>

definition get_root_mount_point_locked :: "nat \<Rightarrow> mounts \<Rightarrow> addr \<Rightarrow> locked_state \<Rightarrow> (addr \<times> locked_state) option" where
  "get_root_mount_point_locked version h root s = do {
     s \<leftarrow> (if version \<ge> KERNEL_VERSION 2 6 38 then lock_fs (rcu_read_lock s)
          else do { s \<leftarrow> lock_fs s; lock_dcache s });
     m \<leftarrow> get_root_mount_point h root;
     s \<leftarrow> (if version \<ge> KERNEL_VERSION 2 6 38 then do { s \<leftarrow> unlock_fs s; rcu_read_unlock s }
          else do { s \<leftarrow> unlock_dcache s; unlock_fs s });
     Some (m, s) }"

definition add_to_filesystem_record_locked ::
    "(nat \<Rightarrow> bool) \<Rightarrow> mounts \<Rightarrow> addr \<Rightarrow> locked_state \<Rightarrow> locked_state" where
  "add_to_filesystem_record_locked kmalloc_ok h mnt s =
     (let s = (if in_atomic s then s\<lparr> atomic_kmallocs := atomic_kmallocs s + 1 \<rparr> else s)
      in on_iter (\<lambda>i. snd (add_to_filesystem_record kmalloc_ok h mnt i)) s)"

partial_function (option) iterate_loop_locked ::
    "nat \<Rightarrow> (nat \<Rightarrow> bool) \<Rightarrow> mounts \<Rightarrow> addr \<Rightarrow> locked_state \<Rightarrow> locked_state option" where
  "iterate_loop_locked version kmalloc_ok h mnt s = do {
     s \<leftarrow> (if version < KERNEL_VERSION 2 6 38 then lock_dcache s else Some s);
     let s = add_to_filesystem_record_locked kmalloc_ok h mnt s;
     r \<leftarrow> next_mount h mnt;
     case r of
       None \<Rightarrow> (let s = on_iter (mntput mnt) s
               in if version < KERNEL_VERSION 2 6 38 then unlock_dcache s else Some s)
     | Some mnt_next \<Rightarrow> do {
         let s = on_iter (\<lambda>i. mntput mnt (mntget mnt_next i)) s;
         s \<leftarrow> (if version < KERNEL_VERSION 2 6 38 then unlock_dcache s else Some s);
         iterate_loop_locked version kmalloc_ok h mnt_next s } }"

definition iterate_mount_point_locked ::
    "nat \<Rightarrow> (nat \<Rightarrow> bool) \<Rightarrow> mounts \<Rightarrow> addr \<Rightarrow> locked_state \<Rightarrow> (int \<times> locked_state) option" where
  "iterate_mount_point_locked version kmalloc_ok h root s = do {
     (m, s) \<leftarrow> get_root_mount_point_locked version h root s;
     let s = (if version \<ge> KERNEL_VERSION 2 6 38 then rcu_read_lock s else s);
     let s = on_iter (mntget m) s;
     s \<leftarrow> iterate_loop_locked version kmalloc_ok h m s;
     s \<leftarrow> (if version \<ge> KERNEL_VERSION 2 6 38 then rcu_read_unlock s else Some s);
     Some (0, s) }"

definition filesystem_list_init_locked ::
    "nat \<Rightarrow> (nat \<Rightarrow> bool) \<Rightarrow> mounts \<Rightarrow> addr \<Rightarrow> locked_state \<Rightarrow> (int \<times> locked_state) option" where
  "filesystem_list_init_locked version kmalloc_ok h root s = do {
     let s = on_iter (\<lambda>i. i\<lparr> mount_records := [] \<rparr>) s;
     (_, s) \<leftarrow> iterate_mount_point_locked version kmalloc_ok h root s;
     let s = on_iter (\<lambda>i. log_names h (mount_records i) i) s;
     Some (0, on_iter (\<lambda>i. delete_records h (mount_records i) i) s) }"

text \<open>Unloading prints one line and leaves the state alone: the records are gone already.\<close>

definition filesystem_list_cleanup :: "locked_state \<Rightarrow> locked_state" where
  "filesystem_list_cleanup s = s"

section \<open>Equivalence of the variants\<close>

lemmas lock_op_defs = rcu_read_lock_def rcu_read_unlock_def lock_fs_def unlock_fs_def lock_dcache_def
  unlock_dcache_def on_iter_def

definition unlocked :: "locked_state \<Rightarrow> bool" where
  "unlocked s \<longleftrightarrow> rcu_depth s = 0 \<and> \<not> fs_lock s \<and> \<not> dcache_lock s"

text \<open>The lock state inside the loop, between two rounds.\<close>

definition loop_locks :: "nat \<Rightarrow> locked_state \<Rightarrow> bool" where
  "loop_locks version s \<longleftrightarrow> \<not> fs_lock s \<and> \<not> dcache_lock s \<and>
     (if version \<ge> KERNEL_VERSION 2 6 38 then rcu_depth s > 0 else rcu_depth s = 0)"

text \<open>The state with the mounts and records \<open>i\<close>, after that many allocations more.\<close>

definition after_iter :: "locked_state \<Rightarrow> iter_state \<Rightarrow> locked_state" where
  "after_iter s i = s\<lparr> iter := i, atomic_kmallocs := atomic_kmallocs s + (kmallocs i - kmallocs (iter s)) \<rparr>"

lemma add_record_kmallocs [simp]:
  "kmallocs (snd (add_to_filesystem_record ok h m i)) = Suc (kmallocs i)"
  by (simp add: add_to_filesystem_record_def Let_def)

lemma ref_count_kmallocs [simp]: "kmallocs (mntget m i) = kmallocs i" "kmallocs (mntput m i) = kmallocs i"
  by (simp_all add: mntget_def mntput_def)

text \<open>One round of the loop, with the locks it takes and releases.\<close>

definition round_state :: "(nat \<Rightarrow> bool) \<Rightarrow> mounts \<Rightarrow> addr \<Rightarrow> (iter_state \<Rightarrow> iter_state) \<Rightarrow> locked_state \<Rightarrow> locked_state" where
  "round_state ok h m f s = s\<lparr> iter := f (snd (add_to_filesystem_record ok h m (iter s))),
     atomic_kmallocs := atomic_kmallocs s + 1 \<rparr>"

lemma locked_round_body:
  assumes "loop_locks version s"
  shows "do {
     s \<leftarrow> (if version < KERNEL_VERSION 2 6 38 then lock_dcache s else Some s);
     let s = add_to_filesystem_record_locked ok h m s;
     r \<leftarrow> next_mount h m;
     case r of
       None \<Rightarrow> (let s = on_iter (mntput m) s
               in if version < KERNEL_VERSION 2 6 38 then unlock_dcache s else Some s)
     | Some n \<Rightarrow> do {
         let s = on_iter (\<lambda>i. mntput m (mntget n i)) s;
         s \<leftarrow> (if version < KERNEL_VERSION 2 6 38 then unlock_dcache s else Some s);
         loop n s } } = do {
     r \<leftarrow> next_mount h m;
     case r of None \<Rightarrow> Some (round_state ok h m (mntput m) s)
     | Some n \<Rightarrow> loop n (round_state ok h m (\<lambda>i. mntput m (mntget n i)) s) }"
proof -
  have "s\<lparr> iter := i, atomic_kmallocs := k, dcache_lock := False \<rparr> = s\<lparr> iter := i, atomic_kmallocs := k \<rparr>" for i k
    using assms by (cases s) (simp add: loop_locks_def)
  then show ?thesis
    using assms
    by (cases s)
      (auto simp: loop_locks_def lock_op_defs add_to_filesystem_record_locked_def in_atomic_def Let_def
        round_state_def not_less not_le split: option.split intro!: arg_cong2 [where f = Option.bind])
qed

lemma locked_round:
  assumes "loop_locks version s"
  shows "iterate_loop_locked version ok h m s = do {
     r \<leftarrow> next_mount h m;
     case r of None \<Rightarrow> Some (round_state ok h m (mntput m) s)
     | Some n \<Rightarrow> iterate_loop_locked version ok h n (round_state ok h m (\<lambda>i. mntput m (mntget n i)) s) }"
  by (subst iterate_loop_locked.simps) (rule locked_round_body [OF assms])

lemma round_state_facts [simp]:
  "loop_locks version (round_state ok h m f s) = loop_locks version s"
  "iter (round_state ok h m f s) = f (snd (add_to_filesystem_record ok h m (iter s)))"
  by (simp_all add: loop_locks_def round_state_def)

lemma after_round:
  assumes "kmallocs (f (snd (add_to_filesystem_record ok h m (iter s)))) = Suc (kmallocs (iter s))"
    and "Suc (kmallocs (iter s)) \<le> kmallocs i"
  shows "after_iter (round_state ok h m f s) i = after_iter s i"
  using assms by (cases s) (simp add: after_iter_def round_state_def)

lemma iterate_loop_simulated:
  assumes "iterate_loop ok h m i = Some i'" and "iter s = i" and "loop_locks version s"
  shows "iterate_loop_locked version ok h m s = Some (after_iter s i') \<and> kmallocs i < kmallocs i'"
  using assms(2,3)
proof (induction arbitrary: s rule: iterate_loop.raw_induct [OF _ assms(1)])
  case (1 loop ok h m i i')
  let ?i = "snd (add_to_filesystem_record ok h m i)"
  obtain r where r: "next_mount h m = Some r" and
    body: "(case r of None \<Rightarrow> Some (mntput m ?i) | Some n \<Rightarrow> loop ok h n (mntput m (mntget n ?i))) = Some i'"
    using 1(2) by (auto simp: Let_def bind_eq_Some_conv)
  show ?case
  proof (cases r)
    case None
    then have i': "i' = mntput m ?i" using body by simp
    have "round_state ok h m (mntput m) s = after_iter s i'"
      using i' 1(3) by (simp add: round_state_def after_iter_def)
    then show ?thesis using locked_round [OF 1(4)] r None i' by simp
  next
    case (Some n)
    let ?s = "round_state ok h m (\<lambda>i. mntput m (mntget n i)) s"
    have IH: "iterate_loop_locked version ok h n ?s = Some (after_iter ?s i')"
      "kmallocs (mntput m (mntget n ?i)) < kmallocs i'"
      using 1(1) [of ok h n "mntput m (mntget n ?i)" i' ?s] body Some 1(3,4) by simp_all
    moreover have "after_iter ?s i' = after_iter s i'"
      by (rule after_round) (use IH(2) 1(3) in simp_all)
    ultimately show ?thesis using locked_round [OF 1(4)] r Some by simp
  qed
qed

lemma iterate_loop_simulates:
  assumes "iterate_loop_locked version ok h m s = Some s'" and "loop_locks version s"
  shows "iterate_loop ok h m (iter s) \<noteq> None"
  using assms(2)
proof (induction rule: iterate_loop_locked.raw_induct [OF _ assms(1)])
  case (1 loop version ok h m s s')
  let ?i = "snd (add_to_filesystem_record ok h m (iter s))"
  note round = 1(2) [unfolded locked_round_body [OF 1(3)]]
  from round obtain r where r: "next_mount h m = Some r" by (auto simp: bind_eq_Some_conv)
  show ?case
  proof (cases r)
    case None
    then show ?thesis using r by (subst iterate_loop.simps) simp
  next
    case (Some n)
    have "iterate_loop ok h n (mntput m (mntget n ?i)) \<noteq> None"
      using 1(1) [of version ok h n "round_state ok h m (\<lambda>i. mntput m (mntget n i)) s" s'] round r Some 1(3) by simp
    then show ?thesis using r Some by (subst iterate_loop.simps) simp
  qed
qed

lemma iterate_loop_locked_eq:
  assumes "loop_locks version s"
  shows "iterate_loop_locked version ok h m s = map_option (after_iter s) (iterate_loop ok h m (iter s))"
proof (cases "iterate_loop ok h m (iter s)")
  case None
  then have "iterate_loop_locked version ok h m s = None"
    using iterate_loop_simulates [OF _ assms, of ok h m] by (cases "iterate_loop_locked version ok h m s") auto
  then show ?thesis using None by simp
next
  case (Some i)
  then show ?thesis using iterate_loop_simulated [OF Some refl assms] by simp
qed

lemma get_root_locked:
  assumes "unlocked s"
  shows "get_root_mount_point_locked version h root s = map_option (\<lambda>m. (m, s)) (get_root_mount_point h root)"
  using assms by (cases s, cases "get_root_mount_point h root")
    (simp_all add: get_root_mount_point_locked_def lock_op_defs unlocked_def)

lemma iterate_mount_point_locked_eq:
  assumes "unlocked s"
  shows "iterate_mount_point_locked version ok h root s =
    map_option (\<lambda>(ret, i). (ret, after_iter s i)) (iterate_mount_point ok h root (iter s))"
proof (cases "get_root_mount_point h root")
  case (Some m)
  let ?s = "on_iter (mntget m) (if version \<ge> KERNEL_VERSION 2 6 38 then rcu_read_lock s else s)"
  have "loop_locks version ?s" using assms by (simp add: loop_locks_def unlocked_def lock_op_defs)
  note E = iterate_loop_locked_eq [OF this, of ok h m]
  have "iter ?s = mntget m (iter s)" by (simp add: lock_op_defs)
  then show ?thesis
    using E get_root_locked [OF assms, of version h root] Some assms
    by (cases "iterate_loop ok h m (mntget m (iter s))"; cases s)
      (auto simp: iterate_mount_point_locked_def iterate_mount_point_def Let_def lock_op_defs after_iter_def unlocked_def)
qed (simp add: iterate_mount_point_locked_def iterate_mount_point_def get_root_locked [OF assms])

lemma delete_records_kmallocs [simp]: "kmallocs (delete_records h ms i) = kmallocs i"
  by (induction h ms i rule: delete_records.induct) simp_all

text \<open>
  C19: All the variants are one program. Whatever the kernel version, loading the module does to
  the mounts, to the list of records and to the log what \<open>filesystem_list_init\<close> does, with the
  same result and without a deadlock, and ends exactly when that ends; it leaves every lock
  as it found it. In every variant all the allocations that may sleep are made in an
  RCU section or under the spinlock of the directory cache, where a thread must not sleep.
\<close>

theorem mount_versions_equivalent:
  assumes "unlocked s"
  shows "filesystem_list_init_locked version kmalloc_ok h root s =
    map_option (\<lambda>(ret, i). (ret, s\<lparr> iter := i,
        atomic_kmallocs := atomic_kmallocs s + (kmallocs i - kmallocs (iter s)) \<rparr>))
      (filesystem_list_init kmalloc_ok h root (iter s))"
proof -
  let ?s = "on_iter (\<lambda>i. i\<lparr> mount_records := [] \<rparr>) s"
  have "unlocked ?s" using assms by (simp add: unlocked_def on_iter_def)
  note E = iterate_mount_point_locked_eq [OF this, of version kmalloc_ok h root]
  have "iter ?s = (iter s)\<lparr> mount_records := [] \<rparr>" by (simp add: on_iter_def)
  then show ?thesis
    using E by (cases "iterate_mount_point kmalloc_ok h root ((iter s)\<lparr> mount_records := [] \<rparr>)"; cases s)
      (auto simp: filesystem_list_init_locked_def filesystem_list_init_def Let_def on_iter_def after_iter_def log_names_def)
qed

definition fresh_module :: locked_state where
  "fresh_module = \<lparr> iter = no_records, rcu_depth = 0, fs_lock = False, dcache_lock = False, atomic_kmallocs = 0 \<rparr>"

lemma four_mounts_kmallocs:
  "map_option (\<lambda>(ret, i). (ret, kmallocs i, fs_log i)) (filesystem_list_init (\<lambda>_. True) four_mounts 4 no_records) =
     Some (0, 4, [''ext4'', ''tmpfs'', ''proc'', ''ext4'', ''tmpfs'', ''proc''])"
  by code_simp

theorem mount_versions_equivalent_witness:
  "filesystem_list_init_locked (KERNEL_VERSION 2 6 30) (\<lambda>_. True) four_mounts 4 fresh_module =
     filesystem_list_init_locked (KERNEL_VERSION 3 10 0) (\<lambda>_. True) four_mounts 4 fresh_module \<and>
   map_option (\<lambda>(ret, s). (ret, atomic_kmallocs s, rcu_depth s, dcache_lock s))
     (filesystem_list_init_locked (KERNEL_VERSION 2 6 30) (\<lambda>_. True) four_mounts 4 fresh_module) = Some (0, 4, 0, False)"
proof -
  have u: "unlocked fresh_module" by (simp add: unlocked_def fresh_module_def)
  show ?thesis
    using mount_versions_equivalent [OF u, of "KERNEL_VERSION 2 6 30" "\<lambda>_. True" four_mounts 4]
      mount_versions_equivalent [OF u, of "KERNEL_VERSION 3 10 0" "\<lambda>_. True" four_mounts 4] four_mounts_kmallocs
    by (cases "filesystem_list_init (\<lambda>_. True) four_mounts 4 no_records")
      (auto simp: fresh_module_def no_records_def)
qed

end
