(* ===== verification/Kernel_Api.thy ===== *)
theory Kernel_Api
  imports C_Strings
begin

text \<open>
  Conventions of the kernel interface that several modules rely on. A kernel function that
  returns a pointer reports a failure either by \<^verbatim>\<open>NULL\<close> or by an error pointer, a small negative
  number in the place of an address; the modules here do not always test for the one that
  the function uses. Following a pointer that is not a real one is a fault (\<open>None\<close>).
\<close>

section \<open>Pointers and error pointers\<close>

datatype 'a kptr = Null_ptr | ERR_PTR int | Obj 'a

fun IS_ERR :: "'a kptr \<Rightarrow> bool" where
  "IS_ERR (ERR_PTR e) = True"
| "IS_ERR _ = False"

fun deref :: "'a kptr \<Rightarrow> 'a option" where
  "deref (Obj x) = Some x"
| "deref _ = None"

text \<open>A function that reports failures by error pointers, as documented for \<^verbatim>\<open>filp_open\<close>,
  \<^verbatim>\<open>dentry_open\<close> and \<^verbatim>\<open>kthread_run\<close>, never returns \<^verbatim>\<open>NULL\<close>.\<close>

definition err_or_obj :: "'a kptr \<Rightarrow> bool" where
  "err_or_obj p \<longleftrightarrow> p \<noteq> Null_ptr \<and> (\<forall>e. p = ERR_PTR e \<longrightarrow> e < 0)"

lemma err_or_obj_cases:
  assumes "err_or_obj p"
  obtains (err) e where "p = ERR_PTR e" and "e < 0" | (obj) x where "p = Obj x"
  using assms by (cases p) (auto simp: err_or_obj_def)

lemma err_or_obj_simps [simp]:
  "\<not> err_or_obj Null_ptr" "err_or_obj (ERR_PTR e) \<longleftrightarrow> e < 0" "err_or_obj (Obj x)"
  by (simp_all add: err_or_obj_def)

section \<open>Text buffers\<close>

text \<open>Printing a buffer with \<^verbatim>\<open>%s\<close> reads up to the terminator; without one it reads on behind
  the buffer.\<close>

definition print_s :: "string \<Rightarrow> string option" where
  "print_s buf = (if NUL \<in> set buf then Some (c_str buf) else None)"

lemma print_s_terminated [simp]: "NUL \<notin> set t \<Longrightarrow> print_s (t @ NUL # r) = Some t"
  by (simp add: print_s_def c_str_terminated)

lemma print_s_None_iff: "print_s buf = None \<longleftrightarrow> NUL \<notin> set buf"
  by (simp add: print_s_def)

text \<open>\<^verbatim>\<open>strncpy(dst, src, n)\<close>: \<open>n\<close> bytes, the text and zeros behind it; \<open>None\<close> when the
  destination is shorter than \<open>n\<close>.\<close>

definition strncpy :: "string \<Rightarrow> string \<Rightarrow> nat \<Rightarrow> string option" where
  "strncpy dst src n =
     (if length dst < n then None
      else Some (take n src @ replicate (n - length src) NUL @ drop n dst))"

text \<open>\<^verbatim>\<open>memset(dst, c, n)\<close>.\<close>

definition memset :: "string \<Rightarrow> char \<Rightarrow> nat \<Rightarrow> string option" where
  "memset dst c n = (if length dst < n then None else Some (replicate n c @ drop n dst))"

lemma length_strncpy: "strncpy dst src n = Some d \<Longrightarrow> length d = length dst"
  by (auto simp: strncpy_def split: if_splits)

lemma length_memset: "memset dst c n = Some d \<Longrightarrow> length d = length dst"
  by (auto simp: memset_def split: if_splits)

end
