(* ===== verification/Create_Fd.thy ===== *)
theory Create_Fd
  imports Kernel_Api
begin

text \<open>
  The module \<^verbatim>\<open>CreateUnusedFd/createfd.c\<close>: it opens a file, opens the same path a second time
  under a fresh descriptor of the current process, and closes that descriptor again. The
  state is the descriptor table of the process, the number of open files of the path, and the
  reference counts of its directory entry and of its mount. The answers of \<^verbatim>\<open>get_unused_fd\<close>,
  \<^verbatim>\<open>filp_open\<close> and \<^verbatim>\<open>dentry_open\<close> are arguments.
\<close>

section \<open>State and kernel interface\<close>

datatype fd_slot = Reserved | Installed

record fd_state =
  fd_table :: "int \<rightharpoonup> fd_slot"
  live_files :: int
  dentry_refs :: int
  mnt_refs :: int

text \<open>The path of a \<^verbatim>\<open>struct file\<close>: whether its two pointers are there.\<close>

record filp =
  f_dentry :: bool
  f_mnt :: bool

text \<open>\<^verbatim>\<open>get_unused_fd\<close> reserves the descriptor it returns, \<^verbatim>\<open>put_unused_fd\<close> gives it back.\<close>

definition get_unused_fd :: "int \<Rightarrow> fd_state \<Rightarrow> int \<times> fd_state" where
  "get_unused_fd r s = (r, if r < 0 then s else s\<lparr> fd_table := (fd_table s)(r \<mapsto> Reserved) \<rparr>)"

definition put_unused_fd :: "int \<Rightarrow> fd_state \<Rightarrow> fd_state" where
  "put_unused_fd fd s = s\<lparr> fd_table := (fd_table s)(fd := None) \<rparr>"

definition fd_install :: "int \<Rightarrow> fd_state \<Rightarrow> fd_state" where
  "fd_install fd s = s\<lparr> fd_table := (fd_table s)(fd \<mapsto> Installed) \<rparr>"

definition path_refs :: "int \<Rightarrow> fd_state \<Rightarrow> fd_state" where
  "path_refs n s = s\<lparr> dentry_refs := dentry_refs s + n, mnt_refs := mnt_refs s + n \<rparr>"

definition dget_mntget :: "filp \<Rightarrow> fd_state \<Rightarrow> fd_state" where
  "dget_mntget f s = s\<lparr> dentry_refs := dentry_refs s + of_bool (f_dentry f), mnt_refs := mnt_refs s + of_bool (f_mnt f) \<rparr>"

text \<open>
  \<^verbatim>\<open>dentry_open\<close>, which fails with the given error or succeeds. From Linux 3.6 on it takes
  its own references for the new file; before, the new file takes over the references of the
  caller, and a failure drops them.
\<close>

definition dentry_open :: "bool \<Rightarrow> int option \<Rightarrow> filp \<Rightarrow> fd_state \<Rightarrow> filp kptr \<times> fd_state" where
  "dentry_open since_3_6 err f s =
     (case err of
        None \<Rightarrow> (Obj f, (if since_3_6 then path_refs 1 s else s)\<lparr> live_files := live_files s + 1 \<rparr>)
      | Some e \<Rightarrow> (ERR_PTR e, if since_3_6 then s else path_refs (- 1) s))"

text \<open>Closing an installed descriptor releases the file and its references.\<close>

definition sys_close :: "int \<Rightarrow> fd_state \<Rightarrow> int \<times> fd_state" where
  "sys_close fd s =
     (if fd_table s fd = Some Installed
      then (0, path_refs (- 1) (s\<lparr> fd_table := (fd_table s)(fd := None), live_files := live_files s - 1 \<rparr>))
      else (- EBADF, s))"

section \<open>The module\<close>

definition create_fd :: "bool \<Rightarrow> int \<Rightarrow> int option \<Rightarrow> filp kptr \<Rightarrow> fd_state \<Rightarrow> (int \<times> fd_state) option" where
  "create_fd since_3_6 unused err filp s = do {
     let (client_fd, s) = get_unused_fd unused s;
     if client_fd < 0 then Some (- 1, s)
     else do {
       f \<leftarrow> deref filp;
       let s = dget_mntget f s;
       let (new_file, s) =
         (if f_dentry f \<and> f_mnt f then dentry_open since_3_6 err f s else (ERR_PTR (- EOVERFLOW), s));
       Some (case new_file of
               ERR_PTR e \<Rightarrow> (e, put_unused_fd client_fd s)
             | _ \<Rightarrow> (client_fd, fd_install client_fd s)) } }"

text \<open>\<^verbatim>\<open>filp_open\<close> gives the file its references; the result is only compared with \<^verbatim>\<open>NULL\<close>.\<close>

definition filp_open :: "filp kptr \<Rightarrow> fd_state \<Rightarrow> fd_state" where
  "filp_open filp s = (case filp of Obj _ \<Rightarrow> path_refs 1 (s\<lparr> live_files := live_files s + 1 \<rparr>) | _ \<Rightarrow> s)"

definition init_createfd_test :: "bool \<Rightarrow> int \<Rightarrow> int option \<Rightarrow> filp kptr \<Rightarrow> fd_state \<Rightarrow> (int \<times> fd_state) option" where
  "init_createfd_test since_3_6 unused err filp s = do {
     let s = filp_open filp s;
     if filp = Null_ptr then Some (0, s)
     else do {
       (fd, s) \<leftarrow> create_fd since_3_6 unused err filp s;
       let s = (if fd \<noteq> - 1 then snd (sys_close fd s) else s);
       Some (0, s) } }"

definition exit_createfd_test :: "fd_state \<Rightarrow> fd_state" where
  "exit_createfd_test s = s"

section \<open>Invariant and accounting\<close>

text \<open>Between two calls no descriptor is reserved, and descriptors are not negative.\<close>

definition fd_table_ok :: "fd_state \<Rightarrow> bool" where
  "fd_table_ok s \<longleftrightarrow> (\<forall>fd slot. fd_table s fd = Some slot \<longrightarrow> 0 \<le> fd \<and> slot = Installed)"

text \<open>References that no open file accounts for: \<open>n\<close> more of each kind in \<open>s'\<close> than in \<open>s\<close>.\<close>

definition stray_refs :: "int \<Rightarrow> fd_state \<Rightarrow> fd_state \<Rightarrow> bool" where
  "stray_refs n s s' \<longleftrightarrow>
     dentry_refs s' - live_files s' = dentry_refs s - live_files s + n \<and>
     mnt_refs s' - live_files s' = mnt_refs s - live_files s + n"

text \<open>A file that was opened has a complete path.\<close>

definition whole_path :: "filp \<Rightarrow> bool" where
  "whole_path f \<longleftrightarrow> f_dentry f \<and> f_mnt f"

datatype fd_call = Call_create int "int option" | Call_close int

fun fd_calls :: "bool \<Rightarrow> filp \<Rightarrow> fd_call list \<Rightarrow> fd_state \<Rightarrow> fd_state option" where
  "fd_calls v f [] s = Some s"
| "fd_calls v f (Call_create unused err # cs) s = do { (_, s) \<leftarrow> create_fd v unused err (Obj f) s; fd_calls v f cs s }"
| "fd_calls v f (Call_close fd # cs) s = fd_calls v f cs (snd (sys_close fd s))"

text \<open>The kernel only hands out descriptors that are free, and errors are negative.\<close>

fun answers_ok :: "bool \<Rightarrow> filp \<Rightarrow> fd_call list \<Rightarrow> fd_state \<Rightarrow> bool" where
  "answers_ok v f [] s \<longleftrightarrow> True"
| "answers_ok v f (Call_create unused err # cs) s \<longleftrightarrow>
     (0 \<le> unused \<longrightarrow> fd_table s unused = None) \<and> (\<forall>e. err = Some e \<longrightarrow> e < 0) \<and>
     (case create_fd v unused err (Obj f) s of None \<Rightarrow> True | Some (_, s) \<Rightarrow> answers_ok v f cs s)"
| "answers_ok v f (Call_close fd # cs) s \<longleftrightarrow> answers_ok v f cs (snd (sys_close fd s))"

fun strays :: "bool \<Rightarrow> fd_call list \<Rightarrow> int" where
  "strays v [] = 0"
| "strays v (Call_create unused err # cs) = of_bool (v \<and> 0 \<le> unused) + strays v cs"
| "strays v (Call_close fd # cs) = strays v cs"

section \<open>Lemmas\<close>

lemmas fd_ops = get_unused_fd_def put_unused_fd_def fd_install_def path_refs_def dget_mntget_def dentry_open_def

lemma path_refs_simps [simp]:
  "fd_table (path_refs n s) = fd_table s" "live_files (path_refs n s) = live_files s"
  by (simp_all add: path_refs_def)

lemma close_installed:
  assumes "fd_table s fd = None"
  shows "snd (sys_close fd ((path_refs 1 s)\<lparr> fd_table := (fd_table s)(fd \<mapsto> Installed), live_files := live_files s + 1 \<rparr>)) = s"
proof -
  have "(fd_table s)(fd := None) = fd_table s" using assms by auto
  then show ?thesis by (cases s) (simp add: sys_close_def path_refs_def)
qed

lemma create_fd_effect:
  assumes "whole_path f" and "0 \<le> unused \<Longrightarrow> fd_table s unused = None"
  shows "create_fd v unused err (Obj f) s =
    Some (if unused < 0 then (- 1, s)
          else let stray = path_refs (of_bool v) s
               in case err of
                    None \<Rightarrow> (unused, (path_refs 1 stray)\<lparr> fd_table := (fd_table s)(unused \<mapsto> Installed), live_files := live_files s + 1 \<rparr>)
                  | Some e \<Rightarrow> (e, stray))"
proof -
  have "(fd_table s)(unused := None) = fd_table s" if "0 \<le> unused" using assms(2) [OF that] by auto
  then show ?thesis using assms(1)
    by (cases s) (auto simp: create_fd_def whole_path_def fd_ops Let_def split: option.split)
qed

lemma create_fd_total:
  assumes "whole_path f" and "0 \<le> unused \<Longrightarrow> fd_table s unused = None"
  obtains r s' where "create_fd v unused err (Obj f) s = Some (r, s')"
  by (metis create_fd_effect [OF assms] prod.exhaust)

lemma create_fd_keeps:
  assumes "whole_path f" and "fd_table_ok s" and "0 \<le> unused \<Longrightarrow> fd_table s unused = None"
    and "create_fd v unused err (Obj f) s = Some (r, s')"
  shows "fd_table_ok s'" and "stray_refs (of_bool (v \<and> 0 \<le> unused)) s s'"
  using assms(2,4)
  by (auto simp: create_fd_effect [OF assms(1,3)] fd_table_ok_def stray_refs_def path_refs_def Let_def
      split: if_splits option.splits)

lemma sys_close_keeps:
  assumes "fd_table_ok s"
  shows "fd_table_ok (snd (sys_close fd s))" and "stray_refs 0 s (snd (sys_close fd s))"
  using assms by (auto simp: sys_close_def fd_table_ok_def stray_refs_def path_refs_def)

section \<open>Properties\<close>

text \<open>
  Creating a descriptor for a file with a complete path never faults. It returns a fresh
  descriptor, which is then the only change of the table, or a negative number with the table
  as it was: -1 if there is no free descriptor and the error of \<open>dentry_open\<close> otherwise. The
  reservation is never left behind.
\<close>

theorem create_fd_outcomes:
  assumes "whole_path f" and "fd_table_ok s" and "0 \<le> unused \<longrightarrow> fd_table s unused = None"
    and "err_or_obj (case err of None \<Rightarrow> Obj f | Some e \<Rightarrow> ERR_PTR e)"
  shows "\<exists>r s'. create_fd v unused err (Obj f) s = Some (r, s') \<and> fd_table_ok s' \<and>
    (0 \<le> r \<longleftrightarrow> 0 \<le> unused \<and> err = None) \<and>
    (0 \<le> r \<longrightarrow> r = unused \<and> fd_table s' = (fd_table s)(r \<mapsto> Installed) \<and> snd (sys_close r s') = path_refs (of_bool v) s) \<and>
    (r < 0 \<longrightarrow> fd_table s' = fd_table s \<and> live_files s' = live_files s \<and>
       r = (if unused < 0 then - 1 else the err))"
proof -
  have fresh: "0 \<le> unused \<Longrightarrow> fd_table s unused = None" using assms(3) by simp
  then obtain r s' where c: "create_fd v unused err (Obj f) s = Some (r, s')"
    using create_fd_total [OF assms(1)] by blast
  have "snd (sys_close r s') = path_refs (of_bool v) s" if "err = None" "0 \<le> unused"
    using close_installed [of "path_refs (of_bool v) s" unused] fresh that c
    by (auto simp: create_fd_effect [OF assms(1) fresh] Let_def)
  then show ?thesis using create_fd_keeps(1) [OF assms(1,2) fresh c] assms(4) c
    by (cases err; cases "unused < 0") (auto simp: create_fd_effect [OF assms(1) fresh] Let_def)
qed

definition quiet_fds :: fd_state where
  "quiet_fds = \<lparr> fd_table = [0 \<mapsto> Installed], live_files = 3, dentry_refs = 3, mnt_refs = 3 \<rparr>"

definition proc_stat :: filp where
  "proc_stat = \<lparr> f_dentry = True, f_mnt = True \<rparr>"

lemma quiet_fds_ok [simp]: "fd_table_ok quiet_fds" "whole_path proc_stat" "fd_table quiet_fds 1 = None"
  by (auto simp: quiet_fds_def fd_table_ok_def proc_stat_def whole_path_def split: if_splits)

theorem create_fd_outcomes_witness:
  "\<exists>r s'. create_fd True 1 None (Obj proc_stat) quiet_fds = Some (r, s') \<and> fd_table s' = [0 \<mapsto> Installed, 1 \<mapsto> Installed]"
  using create_fd_outcomes [of proc_stat quiet_fds 1 None True]
  by (auto simp: quiet_fds_def [THEN arg_cong, of fd_table])

text \<open>
  C31: Along every sequence of creations and closings no call faults and the descriptor table
  stays free of half-made entries. Before Linux 3.6 every reference to the directory entry and
  to the mount belongs to an open file at the end as at the start; from 3.6 on every creation
  that got a descriptor, whether or not opening succeeded, leaves one reference of each kind
  that nothing releases.
\<close>

theorem fd_calls_references:
  assumes "whole_path f" and "fd_table_ok s" and "answers_ok v f cs s"
  shows "\<exists>s'. fd_calls v f cs s = Some s' \<and> fd_table_ok s' \<and> stray_refs (strays v cs) s s'"
  using assms
proof (induction v f cs s rule: fd_calls.induct)
  case (2 v f unused err cs s)
  then have fresh: "0 \<le> unused \<Longrightarrow> fd_table s unused = None" by simp
  obtain r s1 where c: "create_fd v unused err (Obj f) s = Some (r, s1)"
    using create_fd_total [OF "2.prems"(1) fresh] by blast
  note keeps = create_fd_keeps [OF "2.prems"(1,2) fresh c]
  obtain s' where "fd_calls v f cs s1 = Some s'" "fd_table_ok s'" "stray_refs (strays v cs) s1 s'"
    using "2.IH" [of "(r, s1)" r s1] "2.prems" keeps c by auto
  then show ?case using keeps c by (auto simp: stray_refs_def)
next
  case (3 v f fd cs s)
  then show ?case using sys_close_keeps [of s fd] by (auto simp: stray_refs_def)
qed (simp add: stray_refs_def)

theorem fd_calls_references_witness:
  "\<exists>s'. fd_calls True proc_stat [Call_create 1 None, Call_close 1, Call_create 1 (Some (- 2))] quiet_fds = Some s' \<and>
     dentry_refs s' - live_files s' = 2"
  using fd_calls_references [of proc_stat quiet_fds True "[Call_create 1 None, Call_close 1, Call_create 1 (Some (- 2))]"]
  by (auto simp: quiet_fds_def [THEN arg_cong, of dentry_refs] quiet_fds_def [THEN arg_cong, of live_files]
      stray_refs_def create_fd_effect sys_close_def path_refs_def Let_def)

text \<open>
  Loading the test module returns 0 whenever it returns, and leaves the table as it was. If
  the file was opened, that file stays open for good, together with one stray reference of each
  kind from Linux 3.6 on. If \<open>filp_open\<close> failed, its error pointer is followed, unless there is
  no free descriptor either.
\<close>

theorem init_createfd_test_outcomes:
  assumes "err_or_obj filp" and "fd_table_ok s" and "0 \<le> unused \<longrightarrow> fd_table s unused = None"
    and "\<forall>e. err = Some e \<longrightarrow> e < 0" and "\<forall>f. filp = Obj f \<longrightarrow> whole_path f"
  shows "(IS_ERR filp \<and> 0 \<le> unused \<longrightarrow> init_createfd_test v unused err filp s = None) \<and>
    (IS_ERR filp \<and> unused < 0 \<longrightarrow> init_createfd_test v unused err filp s = Some (0, s)) \<and>
    (\<not> IS_ERR filp \<longrightarrow> (\<exists>s'. init_createfd_test v unused err filp s = Some (0, s') \<and>
        fd_table s' = fd_table s \<and> live_files s' = live_files s + 1 \<and>
        stray_refs (of_bool (v \<and> 0 \<le> unused)) s s'))"
  using assms(1)
proof (cases rule: err_or_obj_cases)
  case (err e)
  then show ?thesis
    by (auto simp: init_createfd_test_def create_fd_def filp_open_def get_unused_fd_def Let_def)
next
  case (obj f)
  then have f: "whole_path f" using assms(5) by simp
  have neg: "fd_table s e = None" if "e < 0" for e
    using assms(2) that unfolding fd_table_ok_def by (metis not_le option.exhaust)
  define s1 where "s1 = s\<lparr> live_files := live_files s + 1, dentry_refs := dentry_refs s + 1, mnt_refs := mnt_refs s + 1 \<rparr>"
  have open1: "filp_open (Obj f) s = s1" by (simp add: filp_open_def path_refs_def s1_def)
  have fresh: "0 \<le> unused \<Longrightarrow> fd_table s1 unused = None"
    and same: "0 \<le> unused \<Longrightarrow> (fd_table s)(unused := None) = fd_table s"
    using assms(3) by (auto simp: s1_def)
  have s1: "fd_table s1 = fd_table s" "live_files s1 = live_files s + 1" "dentry_refs s1 = dentry_refs s + 1" "mnt_refs s1 = mnt_refs s + 1"
    by (simp_all add: s1_def)
  show ?thesis using obj assms(4) neg same
    by (cases err; cases "unused < 0") (auto simp: init_createfd_test_def open1 create_fd_effect [OF f fresh]
        s1 path_refs_def sys_close_def stray_refs_def Let_def)
qed

theorem init_createfd_test_outcomes_witness:
  "init_createfd_test False 1 None (ERR_PTR (- 2)) quiet_fds = None"
  using init_createfd_test_outcomes [of "ERR_PTR (- 2)" quiet_fds 1 None False]
  by simp

end
