(* ===== verification/Kthread_Examples.thy ===== *)
theory Kthread_Examples
  imports Kernel_Api
begin

text \<open>
  Three modules around one kernel thread: \<^verbatim>\<open>Kernel_Thread/thread.c\<close>,
  \<^verbatim>\<open>Kernel_Thread_ReadingFileFromKernel/thread.c\<close>, whose thread reads a file in every round, and
  \<^verbatim>\<open>GetGroup_pid_From_ThreadId/get_tgid.c\<close>, which looks up thread group ids; and the module
  \<^verbatim>\<open>readingFilefromKernel.c\<close>, which reads the same way without a thread. They share one state:
  the thread, the blocks it allocated, the address limit of the task, open files, and the
  references taken on \<^verbatim>\<open>struct pid\<close> objects. The thread is a state machine over the positions
  in \<^verbatim>\<open>MyPrintk\<close> at which another processor can set the stop flag.
\<close>

section \<open>State\<close>

datatype segment = User_ds | Kernel_ds
datatype thread_pc = Not_started | At_test string | In_body string | Returned

record kt_state =
  MyThread :: "unit kptr"
  kt_pc :: thread_pc
  should_stop :: bool
  kt_blocks :: int
  addr_limit :: segment
  open_files :: int
  pid_refs :: "u32 \<Rightarrow> int"
  kt_log :: "string list"

definition log_line :: "string \<Rightarrow> kt_state \<Rightarrow> kt_state" where
  "log_line t s = s\<lparr> kt_log := kt_log s @ [t] \<rparr>"

section \<open>Sleeping\<close>

text \<open>
  \<^verbatim>\<open>schedule_timeout\<close> returns the rest of the timeout when it comes back early, and 0 when the
  time is over. The thread does not change its state before the call, so the call may return
  at once; \<open>elapsed k\<close> are the ticks that pass during the \<open>k\<close>-th call.
\<close>

definition schedule_timeout :: "(nat \<Rightarrow> nat) \<Rightarrow> nat \<Rightarrow> int \<Rightarrow> int" where
  "schedule_timeout elapsed k timeout = (if timeout \<le> int (elapsed k) then 0 else timeout - int (elapsed k))"

partial_function (option) sleep_loop :: "(nat \<Rightarrow> nat) \<Rightarrow> nat \<Rightarrow> int \<Rightarrow> nat option" where
  [code]: "sleep_loop elapsed k timeout =
     (if timeout > 0 then sleep_loop elapsed (Suc k) (schedule_timeout elapsed k timeout) else Some k)"

definition SLEEP_MILLI_SEC :: "int \<Rightarrow> (nat \<Rightarrow> nat) \<Rightarrow> int \<Rightarrow> nat option" where
  "SLEEP_MILLI_SEC HZ elapsed nMilliSec = sleep_loop elapsed 0 (nMilliSec * HZ div 1000)"

text \<open>Time passes: every number of ticks is reached after some number of calls.\<close>

definition time_passes :: "(nat \<Rightarrow> nat) \<Rightarrow> bool" where
  "time_passes elapsed \<longleftrightarrow> (\<forall>n. \<exists>k. n \<le> (\<Sum>i<k. elapsed i))"

section \<open>Reading a file\<close>

text \<open>What an open file delivers for a read of \<open>n\<close> bytes under the given address limit; with
  the limit of user space a kernel buffer is refused and nothing is written.\<close>

type_synonym kfile = "segment \<Rightarrow> nat \<Rightarrow> string"

definition read_contract :: "kfile \<Rightarrow> bool" where
  "read_contract rd \<longleftrightarrow> (\<forall>n. length (rd Kernel_ds n) \<le> n) \<and> (\<forall>n. rd User_ds n = [])"

function zero_loop :: "nat \<Rightarrow> string \<Rightarrow> string" where
  "zero_loop i buf = (if i < 128 then zero_loop (Suc i) (buf[i := NUL]) else buf)"
  by auto
termination zero_loop
  by (relation "measure (\<lambda>(i, buf). 128 - i)") auto

declare zero_loop.simps [simp del]

definition file_open :: "kfile kptr \<Rightarrow> kt_state \<Rightarrow> kt_state" where
  "file_open f s = (case f of Obj _ \<Rightarrow> s\<lparr> open_files := open_files s + 1 \<rparr> | _ \<Rightarrow> s)"

definition file_close :: "kfile kptr \<Rightarrow> kt_state \<Rightarrow> kt_state option" where
  "file_close f s = do { _ \<leftarrow> deref f; Some (s\<lparr> open_files := open_files s - 1 \<rparr>) }"

definition ReadFile :: "string \<Rightarrow> kfile kptr \<Rightarrow> kt_state \<Rightarrow> kt_state option" where
  "ReadFile stack f s = do {
     let buf = zero_loop 0 stack;
     let s = log_line ''My module is loaded'' s;
     let s = file_open f s;
     s \<leftarrow> (if f = Null_ptr then Some (log_line ''filp_open error!!.'' s)
          else do {
            let fs = addr_limit s;
            let s = s\<lparr> addr_limit := Kernel_ds \<rparr>;
            rd \<leftarrow> deref f;
            let bytes = rd (addr_limit s) 128;
            let buf = bytes @ drop (length bytes) buf;
            let s = s\<lparr> addr_limit := fs \<rparr>;
            t \<leftarrow> print_s buf;
            Some (log_line (''buf:'' @ t) s) });
     file_close f s }"

definition init_module :: "string \<Rightarrow> kfile kptr \<Rightarrow> kt_state \<Rightarrow> (int \<times> kt_state) option" where
  "init_module stack f s = do {
     let buf = zero_loop 0 stack;
     let s = log_line ''My module is loaded'' s;
     let s = file_open f s;
     s \<leftarrow> (if f = Null_ptr then Some (log_line ''filp_open error!!.'' s)
          else do {
            let fs = addr_limit s;
            let s = s\<lparr> addr_limit := Kernel_ds \<rparr>;
            rd \<leftarrow> deref f;
            let bytes = rd (addr_limit s) 128;
            let buf = bytes @ drop (length bytes) buf;
            let s = s\<lparr> addr_limit := fs \<rparr>;
            t \<leftarrow> print_s buf;
            Some (log_line (''buf:'' @ t) s) });
     s \<leftarrow> file_close f s;
     Some (0, s) }"

definition cleanup_module :: "kt_state \<Rightarrow> kt_state" where
  "cleanup_module s = log_line ''My module is unloaded'' s"

section \<open>Thread group ids\<close>

text \<open>The process table: a number may have a \<^verbatim>\<open>struct pid\<close>, which may have a task with a
  thread group id. \<^verbatim>\<open>find_get_pid\<close> takes a reference on the object it finds.\<close>

type_synonym pid_table = "u32 \<rightharpoonup> u32 option"

definition find_get_pid :: "pid_table \<Rightarrow> u32 \<Rightarrow> kt_state \<Rightarrow> u32 option \<times> kt_state" where
  "find_get_pid pids pid s =
     (case pids pid of None \<Rightarrow> (None, s)
      | Some _ \<Rightarrow> (Some pid, s\<lparr> pid_refs := (pid_refs s)(pid := pid_refs s pid + 1) \<rparr>))"

definition pid_task :: "pid_table \<Rightarrow> u32 option \<Rightarrow> u32 option" where
  "pid_task pids p = Option.bind p (\<lambda>pid. Option.bind (pids pid) (\<lambda>t. t))"

definition get_tgid :: "pid_table \<Rightarrow> u32 \<Rightarrow> kt_state \<Rightarrow> u32 \<times> kt_state" where
  "get_tgid pids pid s =
     (let (pidStruct, s) = find_get_pid pids pid s
      in case pid_task pids pidStruct of
           Some tgid \<Rightarrow> (tgid, s)
         | None \<Rightarrow> (0, log_line (''Error : Pid:'' @ dec_digits (unat pid) @ '' doesnt exist'') s))"

definition print_ids :: "pid_table \<Rightarrow> u32 \<Rightarrow> kt_state \<Rightarrow> kt_state" where
  "print_ids pids pid s =
     (let (tgid, s) = get_tgid pids pid s
      in log_line (''PID:'' @ dec_digits (unat pid) @ '' and TGID:'' @ dec_digits (unat tgid)) s)"

section \<open>The thread function\<close>

text \<open>What the calls of one part of the thread function come back with: the allocated block
  with its old contents, the ticks that pass, the opened file, the old contents of the stack.\<close>

record kt_env =
  e_block :: "string option"
  e_HZ :: int
  e_elapsed :: "nat \<Rightarrow> nat"
  e_file :: "kfile kptr"
  e_stack :: string
  e_pids :: pid_table
  e_current :: u32

text \<open>The private copy of the argument, through a pointer that is not checked.\<close>

definition copy_data :: "string \<Rightarrow> kt_env \<Rightarrow> kt_state \<Rightarrow> (string \<times> kt_state) option" where
  "copy_data data e s = do {
     mydata \<leftarrow> e_block e;
     mydata \<leftarrow> memset mydata NUL (length data + 1);
     mydata \<leftarrow> strncpy mydata data (length data);
     Some (mydata, s\<lparr> kt_blocks := kt_blocks s + 1 \<rparr>) }"

definition MyPrintk_enter :: "string \<Rightarrow> kt_env \<Rightarrow> kt_state \<Rightarrow> kt_state option" where
  "MyPrintk_enter data e s = do {
     (mydata, s) \<leftarrow> copy_data data e s;
     Some (s\<lparr> kt_pc := At_test mydata \<rparr>) }"

definition MyPrintk_enter_reading :: "string \<Rightarrow> kt_env \<Rightarrow> kt_state \<Rightarrow> kt_state option" where
  "MyPrintk_enter_reading data e s = do {
     (mydata, s) \<leftarrow> copy_data data e s;
     s \<leftarrow> ReadFile (e_stack e) (e_file e) s;
     Some (s\<lparr> kt_pc := At_test mydata \<rparr>) }"

definition MyPrintk_enter_tgid :: "string \<Rightarrow> kt_env \<Rightarrow> kt_state \<Rightarrow> kt_state option" where
  "MyPrintk_enter_tgid data e s = do {
     (mydata, s) \<leftarrow> copy_data data e s;
     Some ((print_ids (e_pids e) (e_current e) s)\<lparr> kt_pc := At_test mydata \<rparr>) }"

text \<open>One round of the loop behind the test of the stop flag.\<close>

definition MyPrintk_body :: "kt_env \<Rightarrow> kt_state \<Rightarrow> kt_state option" where
  "MyPrintk_body e s =
     (case kt_pc s of
        In_body mydata \<Rightarrow> do {
          _ \<leftarrow> SLEEP_MILLI_SEC (e_HZ e) (e_elapsed e) 1000;
          t \<leftarrow> print_s mydata;
          Some ((log_line t s)\<lparr> kt_pc := At_test mydata \<rparr>) }
      | _ \<Rightarrow> None)"

definition MyPrintk_body_reading :: "kt_env \<Rightarrow> kt_state \<Rightarrow> kt_state option" where
  "MyPrintk_body_reading e s =
     (case kt_pc s of
        In_body mydata \<Rightarrow> do {
          _ \<leftarrow> SLEEP_MILLI_SEC (e_HZ e) (e_elapsed e) 1000;
          s \<leftarrow> ReadFile (e_stack e) (e_file e) s;
          t \<leftarrow> print_s mydata;
          Some ((log_line t s)\<lparr> kt_pc := At_test mydata \<rparr>) }
      | _ \<Rightarrow> None)"

text \<open>The test \<^verbatim>\<open>kthread_should_stop()\<close>: on with the round, or out of the loop, \<^verbatim>\<open>kfree\<close> and return.\<close>

definition MyPrintk_test :: "kt_state \<Rightarrow> kt_state option" where
  "MyPrintk_test s =
     (case kt_pc s of
        At_test mydata \<Rightarrow>
          Some (if should_stop s then s\<lparr> kt_pc := Returned, kt_blocks := kt_blocks s - 1 \<rparr> else s\<lparr> kt_pc := In_body mydata \<rparr>)
      | _ \<Rightarrow> None)"

definition hello_world :: string where "hello_world = ''hello world''"

section \<open>Loading and unloading\<close>

definition init_kthread :: "unit kptr \<Rightarrow> kt_state \<Rightarrow> int \<times> kt_state" where
  "init_kthread run s = (0, s\<lparr> MyThread := run, kt_pc := Not_started, should_stop := False \<rparr>)"

definition init_kthread_tgid :: "pid_table \<Rightarrow> u32 \<Rightarrow> unit kptr \<Rightarrow> kt_state \<Rightarrow> int \<times> kt_state" where
  "init_kthread_tgid pids pid run s =
     (let s = print_ids pids pid s in (0, s\<lparr> MyThread := run, kt_pc := Not_started, should_stop := False \<rparr>))"

text \<open>\<^verbatim>\<open>kthread_stop\<close> sets the flag and waits until the thread has returned; the waiting is the
  rest of the run of the state machine.\<close>

definition exit_kthread :: "kt_state \<Rightarrow> kt_state option" where
  "exit_kthread s =
     (if MyThread s = Null_ptr then Some s
      else do {
        let s = log_line ''stop MyThread'' s;
        _ \<leftarrow> deref (MyThread s);
        Some (s\<lparr> should_stop := True \<rparr>) })"

text \<open>
  What the kernel's functions are documented to come back with, failures included: a block of the
  size asked for or none, time that passes, an open file or an error pointer.
\<close>

definition kernel_env :: "kt_env \<Rightarrow> bool" where
  "kernel_env e \<longleftrightarrow> (\<forall>blk. e_block e = Some blk \<longrightarrow> length blk = length hello_world + 1) \<and> time_passes (e_elapsed e) \<and>
     length (e_stack e) = 128 \<and> err_or_obj (e_file e) \<and> (\<forall>rd. e_file e = Obj rd \<longrightarrow> read_contract rd)"

text \<open>
  The runs of a module: the thread takes its steps, and at some moment the module is unloaded.
  A thread that is stopped before it ran for the first time returns without entering its
  function.
\<close>

inductive kt_step :: "(kt_env \<Rightarrow> kt_state \<Rightarrow> kt_state option) \<Rightarrow> (kt_env \<Rightarrow> kt_state \<Rightarrow> kt_state option) \<Rightarrow>
    kt_state \<Rightarrow> kt_state \<Rightarrow> bool"
  for enter body where
  enter: "kt_pc s = Not_started \<Longrightarrow> \<not> should_stop s \<Longrightarrow> kernel_env e \<Longrightarrow> enter e s = Some s' \<Longrightarrow> kt_step enter body s s'"
| unrun: "kt_pc s = Not_started \<Longrightarrow> should_stop s \<Longrightarrow> kt_step enter body s (s\<lparr> kt_pc := Returned \<rparr>)"
| test: "MyPrintk_test s = Some s' \<Longrightarrow> kt_step enter body s s'"
| body: "kt_pc s = In_body d \<Longrightarrow> kernel_env e \<Longrightarrow> body e s = Some s' \<Longrightarrow> kt_step enter body s s'"
| unload: "\<not> should_stop s \<Longrightarrow> exit_kthread s = Some s' \<Longrightarrow> kt_step enter body s s'"

inductive_cases kt_stepE: "kt_step enter body s s'"

section \<open>Lemmas on single calls\<close>

definition ticks :: "(nat \<Rightarrow> nat) \<Rightarrow> nat \<Rightarrow> nat \<Rightarrow> int" where
  "ticks elapsed k n = int (\<Sum>i=k..<k + n. elapsed i)"

lemma ticks_0 [simp]: "ticks elapsed k 0 = 0"
  by (simp add: ticks_def)

lemma ticks_nonneg [simp]: "0 \<le> ticks elapsed k n" "\<not> ticks elapsed k n < 0"
  unfolding ticks_def by (simp_all only: of_nat_0_le_iff not_less)

lemma ticks_Suc: "ticks elapsed k (Suc n) = int (elapsed k) + ticks elapsed (Suc k) n"
  by (simp add: ticks_def sum.atLeast_Suc_lessThan)

lemma sleep_loop_ends:
  assumes "timeout \<le> ticks elapsed k n"
  shows "\<exists>m. sleep_loop elapsed k timeout = Some (k + m) \<and> timeout \<le> ticks elapsed k m \<and>
    (0 < m \<longrightarrow> ticks elapsed k (m - 1) < timeout)"
  using assms
proof (induction n arbitrary: k timeout)
  case 0
  then show ?case by (intro exI [of _ 0]) (simp add: sleep_loop.simps)
next
  case (Suc n)
  show ?case
  proof (cases "timeout > 0")
    case False
    then show ?thesis by (intro exI [of _ 0]) (simp add: sleep_loop.simps)
  next
    case True
    let ?t = "schedule_timeout elapsed k timeout"
    have "?t \<le> ticks elapsed (Suc k) n"
      using Suc.prems by (simp add: schedule_timeout_def ticks_Suc)
    from Suc.IH [OF this] obtain m where m: "sleep_loop elapsed (Suc k) ?t = Some (Suc k + m)"
      "?t \<le> ticks elapsed (Suc k) m" "0 < m \<longrightarrow> ticks elapsed (Suc k) (m - 1) < ?t"
      by blast
    then have "sleep_loop elapsed k timeout = Some (k + Suc m)"
      using True by (simp add: sleep_loop.simps [of _ k])
    moreover have "timeout \<le> ticks elapsed k (Suc m)"
      using m(2) by (simp add: ticks_Suc schedule_timeout_def add_increasing2 split: if_splits)
    moreover have "ticks elapsed k m < timeout"
      using m(3) True by (cases m) (auto simp: ticks_Suc schedule_timeout_def split: if_splits)
    ultimately show ?thesis by (intro exI [of _ "Suc m"]) simp
  qed
qed

lemma sleep_ends:
  assumes "time_passes elapsed"
  obtains n where "SLEEP_MILLI_SEC HZ elapsed ms = Some n" "ms * HZ div 1000 \<le> ticks elapsed 0 n"
    "0 < n \<longrightarrow> ticks elapsed 0 (n - 1) < ms * HZ div 1000"
proof -
  obtain k where "nat (ms * HZ div 1000) \<le> (\<Sum>i<k. elapsed i)" using assms by (auto simp: time_passes_def)
  then have "ms * HZ div 1000 \<le> ticks elapsed 0 k" by (simp add: ticks_def atLeast0LessThan nat_le_iff)
  from sleep_loop_ends [OF this] that show ?thesis
    by (auto simp: SLEEP_MILLI_SEC_def)
qed

lemma zero_loop_zeroes:
  assumes "length buf = 128" and "i \<le> 128"
  shows "zero_loop i buf = take i buf @ replicate (128 - i) NUL"
  using assms
proof (induction i buf rule: zero_loop.induct)
  case (1 i buf)
  show ?case
  proof (cases "i < 128")
    case True
    then have "zero_loop i buf = take (Suc i) (buf[i := NUL]) @ replicate (128 - Suc i) NUL"
      using "1.IH" "1.prems" by (subst zero_loop.simps) simp
    also have "take (Suc i) (buf[i := NUL]) = take i buf @ [NUL]"
      using True "1.prems" by (simp add: take_Suc_conv_app_nth)
    finally show ?thesis using True by (simp flip: replicate_Suc add: Suc_diff_Suc)
  next
    case False
    then show ?thesis using "1.prems" by (subst zero_loop.simps) simp
  qed
qed

lemma copy_data_hello:
  assumes "e_block e = Some blk" and "length blk = length t + 1"
  shows "copy_data t e s = Some (t @ [NUL], s\<lparr> kt_blocks := kt_blocks s + 1 \<rparr>)"
  using assms by (simp add: copy_data_def memset_def strncpy_def flip: replicate_Suc) simp

text \<open>A read that can be printed: it ends before the buffer does, or it brings a terminator.\<close>

definition printable :: "kfile \<Rightarrow> bool" where
  "printable rd \<longleftrightarrow> length (rd Kernel_ds 128) < 128 \<or> NUL \<in> set (rd Kernel_ds 128)"

definition readable :: "kfile kptr \<Rightarrow> bool" where
  "readable f \<longleftrightarrow> (case f of Obj rd \<Rightarrow> printable rd | _ \<Rightarrow> False)"

lemma print_s_zero_filled:
  "print_s (b @ replicate n NUL) = (if 0 < n \<or> NUL \<in> set b then Some (c_str b) else None)"
  by (cases n) (auto simp: print_s_def c_str_def takeWhile_tail)

lemma ReadFile_effect:
  assumes "length stack = 128" and "read_contract rd"
  shows "ReadFile stack (Obj rd) s =
    (if printable rd then Some (s\<lparr> kt_log := kt_log s @ [''My module is loaded'', ''buf:'' @ c_str (rd Kernel_ds 128)] \<rparr>) else None)"
proof -
  have "length (rd Kernel_ds 128) \<le> 128" using assms(2) by (simp add: read_contract_def)
  then show ?thesis using zero_loop_zeroes [OF assms(1), of 0]
    by (auto simp: ReadFile_def file_open_def file_close_def log_line_def print_s_zero_filled printable_def Let_def)
qed

text \<open>On any answer of \<^verbatim>\<open>filp_open\<close> the read works just when the file is readable.\<close>

lemma ReadFile_result:
  assumes "kernel_env e"
  shows "ReadFile (e_stack e) (e_file e) s = None \<longleftrightarrow> \<not> readable (e_file e)"
    and "ReadFile (e_stack e) (e_file e) s = Some s' \<Longrightarrow> \<exists>l. s' = s\<lparr> kt_log := kt_log s @ l \<rparr>"
  using assms ReadFile_effect [of "e_stack e" _ s]
  by (cases "e_file e"; force simp: kernel_env_def readable_def ReadFile_def Let_def split: if_splits)+

lemma init_module_ReadFile: "init_module stack f s = map_option (Pair 0) (ReadFile stack f s)"
  by (cases f) (auto simp: init_module_def ReadFile_def file_close_def Let_def split: Option.bind_splits)

lemma get_tgid_effect:
  "get_tgid pids pid s =
     (case pids pid of
        None \<Rightarrow> (0, log_line (''Error : Pid:'' @ dec_digits (unat pid) @ '' doesnt exist'') s)
      | Some t \<Rightarrow>
          (let s = s\<lparr> pid_refs := (pid_refs s)(pid := pid_refs s pid + 1) \<rparr>
           in case t of Some tgid \<Rightarrow> (tgid, s)
              | None \<Rightarrow> (0, log_line (''Error : Pid:'' @ dec_digits (unat pid) @ '' doesnt exist'') s)))"
  by (simp add: get_tgid_def find_get_pid_def pid_task_def Let_def split: option.split)

section \<open>The contract of a thread module\<close>

text \<open>Answers of the kernel with which every part of the three threads works.\<close>

definition sample_env :: kt_env where
  "sample_env = \<lparr> e_block = Some (replicate 12 (CHR ''x'')), e_HZ = 250, e_elapsed = (\<lambda>_. 1),
     e_file = Obj (\<lambda>seg n. if seg = Kernel_ds then take n ''Fedora'' else []), e_stack = replicate 128 (CHR ''y''),
     e_pids = [7 \<mapsto> Some 5], e_current = 7 \<rparr>"

lemma sample_env_good: "kernel_env sample_env" "readable (e_file sample_env)" "e_block sample_env \<noteq> None"
  by (auto simp: kernel_env_def sample_env_def hello_world_def time_passes_def read_contract_def readable_def printable_def)

text \<open>What a module's thread function does not change.\<close>

definition kt_frame :: "kt_state \<Rightarrow> kt_state \<Rightarrow> bool" where
  "kt_frame s s' \<longleftrightarrow> MyThread s' = MyThread s \<and> should_stop s' = should_stop s \<and>
     addr_limit s' = addr_limit s \<and> open_files s' = open_files s"

definition kt_rank :: "kt_state \<Rightarrow> nat" where
  "kt_rank s = (case kt_pc s of Not_started \<Rightarrow> 1 | At_test _ \<Rightarrow> 1 | In_body _ \<Rightarrow> 2 | Returned \<Rightarrow> 0)"

text \<open>
  The invariant, relative to the state \<open>s0\<close> right after loading: the thread owns one block
  exactly while it is inside of its loop, its text is terminated, and it does not return
  before it is told to.
\<close>

definition kt_inv :: "kt_state \<Rightarrow> kt_state \<Rightarrow> bool" where
  "kt_inv s0 s \<longleftrightarrow> MyThread s = Obj () \<and> addr_limit s = addr_limit s0 \<and> open_files s = open_files s0 \<and>
     (case kt_pc s of
        Not_started \<Rightarrow> kt_blocks s = kt_blocks s0
      | At_test d \<Rightarrow> d = hello_world @ [NUL] \<and> kt_blocks s = kt_blocks s0 + 1
      | In_body d \<Rightarrow> d = hello_world @ [NUL] \<and> kt_blocks s = kt_blocks s0 + 1
      | Returned \<Rightarrow> kt_blocks s = kt_blocks s0 \<and> should_stop s)"

text \<open>
  A thread function in two parts. Under the documented answers of the kernel, failures included,
  they fault exactly when there was no memory for the copy of the argument or, in a module that
  reads, when the file was not readable; otherwise they do their work.
\<close>

locale thread_module =
  fixes enter body :: "kt_env \<Rightarrow> kt_state \<Rightarrow> kt_state option" and reads :: bool
  assumes enter_None: "kernel_env e \<Longrightarrow> enter e s = None \<longleftrightarrow> e_block e = None \<or> reads \<and> \<not> readable (e_file e)"
    and enter_Some: "kernel_env e \<Longrightarrow> enter e s = Some s' \<Longrightarrow>
      kt_frame s s' \<and> kt_pc s' = At_test (hello_world @ [NUL]) \<and> kt_blocks s' = kt_blocks s + 1"
    and body_None: "kernel_env e \<Longrightarrow> kt_pc s = In_body (hello_world @ [NUL]) \<Longrightarrow>
      body e s = None \<longleftrightarrow> reads \<and> \<not> readable (e_file e)"
    and body_Some: "kernel_env e \<Longrightarrow> kt_pc s = In_body (hello_world @ [NUL]) \<Longrightarrow> body e s = Some s' \<Longrightarrow>
      kt_frame s s' \<and> kt_pc s' = At_test (hello_world @ [NUL]) \<and> kt_blocks s' = kt_blocks s \<and> last (kt_log s') = hello_world"
begin

lemma step_keeps:
  assumes "kt_step enter body s s'" and "kt_inv s0 s"
  shows "kt_inv s0 s'"
  using assms(1)
proof cases
  case (enter e)
  then show ?thesis using enter_Some [of e s s'] assms(2) by (auto simp: kt_inv_def kt_frame_def)
next
  case (body d e)
  then show ?thesis using body_Some [of e s s'] assms(2) by (auto simp: kt_inv_def kt_frame_def)
qed (use assms(2) in \<open>auto simp: kt_inv_def MyPrintk_test_def exit_kthread_def log_line_def Let_def
       split: thread_pc.splits if_splits\<close>)

lemma reachable_inv:
  assumes "(kt_step enter body)\<^sup>*\<^sup>* s0 s" and "kt_inv s0 s0"
  shows "kt_inv s0 s"
  using assms by induction (auto intro: step_keeps)

lemma faults:
  assumes "kt_inv s0 s" and "kernel_env e"
  shows "(enter e s = None \<longleftrightarrow> e_block e = None \<or> reads \<and> \<not> readable (e_file e)) \<and>
    (kt_pc s = In_body d \<longrightarrow> (body e s = None \<longleftrightarrow> reads \<and> \<not> readable (e_file e))) \<and>
    (kt_pc s = At_test d \<longrightarrow> MyPrintk_test s \<noteq> None) \<and> exit_kthread s \<noteq> None"
  using assms enter_None [OF assms(2), of s] body_None [OF assms(2), of s]
  by (auto simp: kt_inv_def MyPrintk_test_def exit_kthread_def log_line_def Let_def)

text \<open>Once the flag is set every step brings the thread closer to its end, and there is one.\<close>

lemma stopping_step:
  assumes "kt_inv s0 s" and "should_stop s" and "kt_pc s \<noteq> Returned"
  obtains s' where "kt_step enter body s s'" "should_stop s'" "kt_rank s' < kt_rank s"
proof (cases "kt_pc s")
  case Not_started
  then show ?thesis using that kt_step.unrun [OF Not_started assms(2)] assms(2) by (fastforce simp: kt_rank_def)
next
  case (At_test d)
  then have "MyPrintk_test s = Some (s\<lparr> kt_pc := Returned, kt_blocks := kt_blocks s - 1 \<rparr>)"
    using assms(2) by (simp add: MyPrintk_test_def)
  then show ?thesis using that kt_step.test assms(2) At_test by (fastforce simp: kt_rank_def)
next
  case (In_body d)
  have d: "d = hello_world @ [NUL]" using assms(1) In_body by (simp add: kt_inv_def)
  then obtain s' where s': "body sample_env s = Some s'"
    using body_None [OF sample_env_good(1)] In_body sample_env_good(2) by blast
  then have "kt_frame s s'" "kt_pc s' = At_test (hello_world @ [NUL])"
    using body_Some [OF sample_env_good(1) _ s'] In_body d by blast+
  then show ?thesis using that [of s'] kt_step.body [OF In_body sample_env_good(1), of body, OF s'] In_body assms(2)
    by (simp add: kt_rank_def kt_frame_def)
next
  case Returned
  then show ?thesis using assms(3) by simp
qed

lemma stop_bounded:
  assumes "kt_inv s0 s" and "should_stop s" and "kt_step enter body s s'"
  shows "should_stop s' \<and> kt_rank s' < kt_rank s"
  using assms(3)
proof cases
  case (body d e)
  then show ?thesis using body_Some [of e s s'] assms by (auto simp: kt_inv_def kt_frame_def kt_rank_def)
qed (use assms in \<open>auto simp: kt_inv_def kt_rank_def MyPrintk_test_def split: thread_pc.splits if_splits\<close>)

lemma stop_returns:
  assumes "kt_inv s0 s" and "should_stop s"
  shows "\<exists>s'. (kt_step enter body)\<^sup>*\<^sup>* s s' \<and> kt_pc s' = Returned \<and> kt_inv s0 s'"
  using assms
proof (induction "kt_rank s" arbitrary: s rule: less_induct)
  case less
  show ?case
  proof (cases "kt_pc s = Returned")
    case False
    obtain s' where s': "kt_step enter body s s'" "should_stop s'" "kt_rank s' < kt_rank s"
      using stopping_step [OF less.prems False] .
    then obtain s'' where "(kt_step enter body)\<^sup>*\<^sup>* s' s''" "kt_pc s'' = Returned" "kt_inv s0 s''"
      using less.hyps step_keeps [OF s'(1) less.prems(1)] by blast
    then show ?thesis using s'(1) converse_rtranclp_into_rtranclp by metis
  qed (use less.prems in blast)
qed

end

text \<open>The three modules. Only the second one reads.\<close>

lemma hello_no_nul: "NUL \<notin> set hello_world"
  by (simp add: hello_world_def)

lemma hello_copied:
  assumes "kernel_env e"
  shows "copy_data hello_world e s =
    (if e_block e = None then None else Some (hello_world @ [NUL], s\<lparr> kt_blocks := kt_blocks s + 1 \<rparr>))"
proof (cases "e_block e")
  case None
  then show ?thesis by (simp add: copy_data_def)
next
  case (Some blk)
  then have "length blk = length hello_world + 1" using assms by (simp add: kernel_env_def)
  then show ?thesis using Some copy_data_hello by simp
qed

lemma sleeps_1000: "kernel_env e \<Longrightarrow> \<exists>n. SLEEP_MILLI_SEC (e_HZ e) (e_elapsed e) 1000 = Some n"
  by (metis kernel_env_def sleep_ends)

lemma hello_body:
  assumes "kernel_env e" and "kt_pc s = In_body (hello_world @ [NUL])"
  shows "MyPrintk_body e s = Some ((log_line hello_world s)\<lparr> kt_pc := At_test (hello_world @ [NUL]) \<rparr>)"
  using sleeps_1000 [OF assms(1)] assms(2) hello_no_nul by (auto simp: MyPrintk_body_def)

lemma hello_body_reading:
  assumes "kernel_env e" and "kt_pc s = In_body (hello_world @ [NUL])"
  shows "MyPrintk_body_reading e s = do {
    s \<leftarrow> ReadFile (e_stack e) (e_file e) s;
    Some ((log_line hello_world s)\<lparr> kt_pc := At_test (hello_world @ [NUL]) \<rparr>) }"
  using sleeps_1000 [OF assms(1)] assms(2) hello_no_nul by (auto simp: MyPrintk_body_reading_def)

interpretation plain: thread_module "MyPrintk_enter hello_world" MyPrintk_body False
  by unfold_locales (auto simp: MyPrintk_enter_def hello_copied hello_body kt_frame_def log_line_def split: if_splits)

interpretation reading: thread_module "MyPrintk_enter_reading hello_world" MyPrintk_body_reading True
proof
  fix e s s' assume e: "kernel_env e"
  show "MyPrintk_enter_reading hello_world e s = None \<longleftrightarrow> e_block e = None \<or> True \<and> \<not> readable (e_file e)"
    using ReadFile_result(1) [OF e] e
    by (auto simp: MyPrintk_enter_reading_def hello_copied bind_eq_None_conv)
  show "kt_frame s s' \<and> kt_pc s' = At_test (hello_world @ [NUL]) \<and> kt_blocks s' = kt_blocks s + 1"
    if "MyPrintk_enter_reading hello_world e s = Some s'"
    using that e by (auto simp: MyPrintk_enter_reading_def hello_copied bind_eq_Some_conv' kt_frame_def
        dest!: ReadFile_result(2) [OF e] split: if_splits)
  assume s: "kt_pc s = In_body (hello_world @ [NUL])"
  show "MyPrintk_body_reading e s = None \<longleftrightarrow> True \<and> \<not> readable (e_file e)"
    using ReadFile_result(1) [OF e] by (auto simp: hello_body_reading [OF e s] bind_eq_None_conv)
  show "kt_frame s s' \<and> kt_pc s' = At_test (hello_world @ [NUL]) \<and> kt_blocks s' = kt_blocks s \<and> last (kt_log s') = hello_world"
    if "MyPrintk_body_reading e s = Some s'"
    using that by (auto simp: hello_body_reading [OF e s] bind_eq_Some_conv' kt_frame_def log_line_def
        dest!: ReadFile_result(2) [OF e])
qed

lemma print_ids_frame:
  "kt_frame s (print_ids pids pid s) \<and> kt_blocks (print_ids pids pid s) = kt_blocks s"
  by (auto simp: print_ids_def get_tgid_effect log_line_def kt_frame_def Let_def split: option.split)

interpretation tgid: thread_module "MyPrintk_enter_tgid hello_world" MyPrintk_body False
proof
  fix e s s' assume e: "kernel_env e"
  show "MyPrintk_enter_tgid hello_world e s = None \<longleftrightarrow> e_block e = None \<or> False \<and> \<not> readable (e_file e)"
    by (simp add: MyPrintk_enter_tgid_def hello_copied [OF e])
  show "kt_frame s s' \<and> kt_pc s' = At_test (hello_world @ [NUL]) \<and> kt_blocks s' = kt_blocks s + 1"
    if "MyPrintk_enter_tgid hello_world e s = Some s'"
    using that print_ids_frame [of "s\<lparr> kt_blocks := kt_blocks s + 1 \<rparr>" "e_pids e" "e_current e"]
    by (auto simp: MyPrintk_enter_tgid_def hello_copied [OF e] kt_frame_def split: if_splits)
qed (use plain.body_None plain.body_Some in \<open>blast+\<close>)

definition thread_modules where
  "thread_modules = {(MyPrintk_enter hello_world, MyPrintk_body, False),
     (MyPrintk_enter_reading hello_world, MyPrintk_body_reading, True),
     (MyPrintk_enter_tgid hello_world, MyPrintk_body, False)}"

lemma thread_modules_contract: "(enter, body, reads) \<in> thread_modules \<Longrightarrow> thread_module enter body reads"
  using plain.thread_module_axioms reading.thread_module_axioms tgid.thread_module_axioms
  by (auto simp: thread_modules_def)

lemma init_kthread_tgid_plain: "init_kthread_tgid pids pid run s = init_kthread run (print_ids pids pid s)"
  by (simp add: init_kthread_tgid_def init_kthread_def Let_def)

lemma loaded_inv: "kt_inv (snd (init_kthread (Obj ()) s)) (snd (init_kthread (Obj ()) s))"
  by (simp add: init_kthread_def kt_inv_def)

section \<open>Properties\<close>

text \<open>
  C27: In every reachable state of each of the three thread modules whose start succeeded, whatever
  the moment at which it is unloaded and whatever the kernel answered: the thread owns one block
  exactly while it is in its loop and its text is terminated, no file stays open and the address
  limit is restored. The test of the loop and the unloading never fault there. The thread itself
  faults exactly where it does not check an answer: when it starts and kmalloc failed, and, in the
  module that reads, whenever filp_open failed or the file fills the buffer without a zero byte.
  If kthread_run failed, loading still reports success and unloading faults.
\<close>

theorem thread_modules_invariant:
  assumes "(enter, body, reads) \<in> thread_modules" and "s0 = snd (init_kthread (Obj ()) s)"
    and "(kt_step enter body)\<^sup>*\<^sup>* s0 s1" and "kernel_env e"
  shows "kt_inv s0 s1 \<and> (enter e s1 = None \<longleftrightarrow> e_block e = None \<or> reads \<and> \<not> readable (e_file e)) \<and>
    (kt_pc s1 = In_body d \<longrightarrow> (body e s1 = None \<longleftrightarrow> reads \<and> \<not> readable (e_file e))) \<and>
    (kt_pc s1 = At_test d \<longrightarrow> MyPrintk_test s1 \<noteq> None) \<and> exit_kthread s1 \<noteq> None \<and>
    (\<exists>s2. init_kthread (ERR_PTR err) s = (0, s2) \<and> exit_kthread s2 = None)"
proof -
  note contract = thread_modules_contract [OF assms(1)]
  have "kt_inv s0 s1"
    using thread_module.reachable_inv [OF contract assms(3)] loaded_inv assms(2) by blast
  moreover have "\<exists>s2. init_kthread (ERR_PTR err) s = (0, s2) \<and> exit_kthread s2 = None"
    by (simp add: init_kthread_def exit_kthread_def log_line_def)
  ultimately show ?thesis using thread_module.faults [OF contract _ assms(4)] by blast
qed

definition unloaded_kt :: kt_state where
  "unloaded_kt = \<lparr> MyThread = Null_ptr, kt_pc = Not_started, should_stop = False, kt_blocks = 0, addr_limit = User_ds,
     open_files = 0, pid_refs = (\<lambda>_. 1), kt_log = [] \<rparr>"

theorem thread_modules_invariant_witness:
  "exit_kthread (snd (init_kthread (Obj ()) unloaded_kt)) \<noteq> None \<and>
   MyPrintk_enter_reading hello_world sample_env (snd (init_kthread (Obj ()) unloaded_kt)) \<noteq> None \<and>
   MyPrintk_enter_reading hello_world (sample_env\<lparr> e_file := ERR_PTR (- 2) \<rparr>) (snd (init_kthread (Obj ()) unloaded_kt)) = None"
proof -
  have "kernel_env (sample_env\<lparr> e_file := ERR_PTR (- 2) \<rparr>)" using sample_env_good(1) by (simp add: kernel_env_def)
  then show ?thesis
    using thread_modules_invariant [of "MyPrintk_enter_reading hello_world" MyPrintk_body_reading True
        _ unloaded_kt "snd (init_kthread (Obj ()) unloaded_kt)"] sample_env_good
    by (auto simp: thread_modules_def readable_def)
qed

text \<open>
  C28: Unloading ends. Once the stop flag is set, from every reachable state the thread runs to
  its end, where every block is released, and no order of steps takes more than two steps of
  the thread, since every step brings it nearer to its end.
\<close>

theorem thread_modules_stop:
  assumes "(enter, body, reads) \<in> thread_modules" and "s0 = snd (init_kthread (Obj ()) s)"
    and "(kt_step enter body)\<^sup>*\<^sup>* s0 s1" and "should_stop s1"
  shows "(\<exists>s2. (kt_step enter body)\<^sup>*\<^sup>* s1 s2 \<and> kt_pc s2 = Returned \<and> kt_blocks s2 = kt_blocks s0) \<and>
    kt_rank s1 \<le> 2 \<and> (\<forall>s2. kt_step enter body s1 s2 \<longrightarrow> should_stop s2 \<and> kt_rank s2 < kt_rank s1)"
proof -
  note contract = thread_modules_contract [OF assms(1)]
  have inv: "kt_inv s0 s1"
    using thread_module.reachable_inv [OF contract assms(3)] loaded_inv assms(2) by blast
  moreover obtain s2 where "(kt_step enter body)\<^sup>*\<^sup>* s1 s2" "kt_pc s2 = Returned" "kt_inv s0 s2"
    using thread_module.stop_returns [OF contract inv assms(4)] by blast
  moreover have "kt_rank s1 \<le> 2" by (simp add: kt_rank_def split: thread_pc.split)
  ultimately show ?thesis using thread_module.stop_bounded [OF contract inv assms(4)]
    by (auto simp: kt_inv_def)
qed

theorem thread_modules_stop_witness:
  "\<exists>s2. (kt_step (MyPrintk_enter hello_world) MyPrintk_body)\<^sup>*\<^sup>*
       ((snd (init_kthread (Obj ()) unloaded_kt))\<lparr> should_stop := True, kt_log := [''stop MyThread''] \<rparr>) s2 \<and>
     kt_pc s2 = Returned \<and> kt_blocks s2 = 0"
proof -
  let ?s0 = "snd (init_kthread (Obj ()) unloaded_kt)"
  let ?s1 = "?s0\<lparr> should_stop := True, kt_log := [''stop MyThread''] \<rparr>"
  have "kt_step (MyPrintk_enter hello_world) MyPrintk_body ?s0 ?s1"
    by (rule kt_step.unload) (simp_all add: init_kthread_def unloaded_kt_def exit_kthread_def log_line_def Let_def)
  then have "(kt_step (MyPrintk_enter hello_world) MyPrintk_body)\<^sup>*\<^sup>* ?s0 ?s1" by blast
  then show ?thesis using thread_modules_stop [of "MyPrintk_enter hello_world" MyPrintk_body False ?s0 unloaded_kt ?s1]
    by (auto simp: thread_modules_def init_kthread_def unloaded_kt_def)
qed

text \<open>
  C29: The sleeping loop ends if time passes, although the thread stays runnable and a call may
  return without any tick: it returns after the first call with which the requested number of
  ticks has gone by, not earlier and not later.
\<close>

theorem sleep_milli_sec_ends:
  assumes "time_passes elapsed"
  shows "\<exists>n. SLEEP_MILLI_SEC HZ elapsed ms = Some n \<and> ms * HZ div 1000 \<le> ticks elapsed 0 n \<and>
    (0 < n \<longrightarrow> ticks elapsed 0 (n - 1) < ms * HZ div 1000)"
  using sleep_ends [OF assms, of HZ ms] by metis

theorem sleep_milli_sec_ends_witness: "SLEEP_MILLI_SEC 250 (\<lambda>_. 1) 1000 = Some 250"
proof -
  have "ticks (\<lambda>_. 1) 0 n = int n" for n by (simp add: ticks_def)
  moreover have "time_passes (\<lambda>_. 1)" by (auto simp: time_passes_def)
  ultimately obtain n where "SLEEP_MILLI_SEC 250 (\<lambda>_. 1) 1000 = Some n" "250 \<le> int n" "0 < n \<longrightarrow> int (n - 1) < 250"
    using sleep_milli_sec_ends [of "\<lambda>_. 1" 250 1000] by auto
  then show ?thesis by simp
qed

text \<open>
  C30: Reading the file, in the thread and in the module that only reads, is safe and prints the
  text in front of its first zero byte exactly when the file could be opened and its first 128
  bytes are not all there without a zero among them; it then closes the file and restores the
  address limit. A file of 128 bytes or more without a zero byte is printed past the end of the
  buffer, and a failed open is not noticed: the error pointer is followed.
\<close>

theorem read_file_outcomes:
  assumes "length stack = 128" and "err_or_obj f" and "\<forall>rd. f = Obj rd \<longrightarrow> read_contract rd"
  shows "(IS_ERR f \<longrightarrow> ReadFile stack f s = None \<and> init_module stack f s = None) \<and>
    (\<forall>rd. f = Obj rd \<longrightarrow>
       (if printable rd
        then (\<exists>s'. ReadFile stack f s = Some s' \<and> init_module stack f s = Some (0, s') \<and>
           s' = s\<lparr> kt_log := kt_log s @ [''My module is loaded'', ''buf:'' @ c_str (rd Kernel_ds 128)] \<rparr>)
        else ReadFile stack f s = None \<and> init_module stack f s = None))"
  using assms(2)
proof (cases rule: err_or_obj_cases)
  case (err e)
  then show ?thesis by (simp add: init_module_ReadFile ReadFile_def Let_def)
next
  case (obj rd)
  then show ?thesis using assms(1,3) by (simp add: init_module_ReadFile ReadFile_effect)
qed

theorem read_file_outcomes_witness:
  "ReadFile (replicate 128 (CHR ''x'')) (Obj (\<lambda>seg n. if seg = Kernel_ds then replicate n (CHR ''a'') else [])) unloaded_kt = None"
  using read_file_outcomes [of "replicate 128 (CHR ''x'')" "Obj (\<lambda>seg n. if seg = Kernel_ds then replicate n (CHR ''a'') else [])" unloaded_kt]
  by (auto simp: read_contract_def printable_def)

text \<open>
  The lookup returns the thread group id of an existing task and 0 otherwise, and it takes
  one reference on the process id object at every call that finds it, which nothing gives back:
  after \<open>n\<close> lookups the count of that object is higher by \<open>n\<close>, every other count is unchanged.
\<close>

theorem get_tgid_references:
  "fst (get_tgid pids pid s) = (case pids pid of Some (Some tgid) \<Rightarrow> tgid | _ \<Rightarrow> 0) \<and>
   pid_refs (((\<lambda>s. snd (get_tgid pids pid s)) ^^ n) s) q = pid_refs s q + of_bool (q = pid \<and> pids pid \<noteq> None) * int n"
proof -
  have "pid_refs (snd (get_tgid pids pid t)) q = pid_refs t q + of_bool (q = pid \<and> pids pid \<noteq> None)" for t
    by (auto simp: get_tgid_effect log_line_def Let_def split: option.split)
  then have "pid_refs (((\<lambda>s. snd (get_tgid pids pid s)) ^^ n) s) q = pid_refs s q + of_bool (q = pid \<and> pids pid \<noteq> None) * int n"
    by (induction n) (auto simp: algebra_simps)
  moreover have "fst (get_tgid pids pid s) = (case pids pid of Some (Some tgid) \<Rightarrow> tgid | _ \<Rightarrow> 0)"
    by (auto simp: get_tgid_effect Let_def split: option.split)
  ultimately show ?thesis by blast
qed

text \<open>A start that fails is reported as success, and unloading then hands the error pointer to
  \<^verbatim>\<open>kthread_stop\<close>; a failed allocation in the thread is a write through \<^verbatim>\<open>NULL\<close>.\<close>

lemma thread_start_failures:
  assumes "err_or_obj run" and "IS_ERR run"
  shows "fst (init_kthread run s) = 0 \<and> exit_kthread (snd (init_kthread run s)) = None \<and>
    (e_block e = None \<longrightarrow> MyPrintk_enter data e s = None \<and> MyPrintk_enter_reading data e s = None \<and>
       MyPrintk_enter_tgid data e s = None)"
  using assms
  by (cases run) (auto simp: init_kthread_def exit_kthread_def log_line_def MyPrintk_enter_def MyPrintk_enter_reading_def
      MyPrintk_enter_tgid_def copy_data_def Let_def)

end
