(* ===== verification/Kfifo_Example.thy ===== *)
theory Kfifo_Example
  imports Kernel_Api
begin

text \<open>
  The module \<^verbatim>\<open>Kernel_Queue_using_Kernel_API/queue.c\<close>: on loading it puts ten records into a
  kernel fifo, looks at the first and takes all of them out again. The fifo is a library of the
  kernel: its operations are the argument \<open>kfifo_ops\<close>, and what its documentation promises for
  fifos of records with a length byte is \<open>kfifo_contract\<close>.
\<close>

section \<open>The fifo of the kernel\<close>

record 'f kfifo_ops =
  kfifo_in :: "'f \<Rightarrow> string \<Rightarrow> 'f"
  kfifo_len :: "'f \<Rightarrow> nat"
  kfifo_is_empty :: "'f \<Rightarrow> bool"
  kfifo_out_peek :: "'f \<Rightarrow> nat \<Rightarrow> string"
  kfifo_out :: "'f \<Rightarrow> nat \<Rightarrow> string \<times> 'f"

text \<open>The room that records take, each with its length byte, and the room there is.\<close>

fun fifo_used :: "string list \<Rightarrow> nat" where
  "fifo_used [] = 0"
| "fifo_used (r # rs) = length r + 1 + fifo_used rs"

definition fifo_put :: "nat \<Rightarrow> string \<Rightarrow> string list \<Rightarrow> string list" where
  "fifo_put cap r rs = (if fifo_used rs + length r + 1 \<le> cap then rs @ [r] else rs)"

definition kfifo_contract :: "'f kfifo_ops \<Rightarrow> ('f \<Rightarrow> string list) \<Rightarrow> nat \<Rightarrow> bool" where
  "kfifo_contract ops recs cap \<longleftrightarrow>
     (\<forall>f r. 0 < length r \<and> length r < 256 \<longrightarrow> recs (kfifo_in ops f r) = fifo_put cap r (recs f)) \<and>
     (\<forall>f. kfifo_len ops f = fifo_used (recs f)) \<and>
     (\<forall>f. kfifo_is_empty ops f \<longleftrightarrow> recs f = []) \<and>
     (\<forall>f n. kfifo_out_peek ops f n = (case recs f of [] \<Rightarrow> [] | r # _ \<Rightarrow> take n r)) \<and>
     (\<forall>f n. fst (kfifo_out ops f n) = (case recs f of [] \<Rightarrow> [] | r # _ \<Rightarrow> take n r)) \<and>
     (\<forall>f n. recs (snd (kfifo_out ops f n)) = tl (recs f))"

section \<open>The module\<close>

datatype kfifo_msg = Fifo_len nat | First_record string | Item string | Error_alloc

text \<open>The array \<^verbatim>\<open>buf\<close> has 100 bytes; writing behind it is a fault.\<close>

definition store :: "string \<Rightarrow> nat \<Rightarrow> char \<Rightarrow> string option" where
  "store buf i c = (if i < length buf then Some (buf[i := c]) else None)"

definition letter :: "nat \<Rightarrow> char" where
  "letter i = char_of (97 + i)"

function put_loop :: "'f kfifo_ops \<Rightarrow> nat \<Rightarrow> string \<Rightarrow> 'f \<Rightarrow> (string \<times> 'f) option" where
  "put_loop ops i buf f =
     (if i < 10 then do {
        buf \<leftarrow> memset buf (letter i) (i + 1);
        put_loop ops (Suc i) buf (kfifo_in ops f (take (i + 1) buf)) }
      else Some (buf, f))"
  by pat_completeness auto
termination put_loop
  by (relation "measure (\<lambda>(ops, i, buf, f). 10 - i)") auto

declare put_loop.simps [simp del]

text \<open>A received record in the buffer, terminated, and what \<^verbatim>\<open>%.*s\<close> prints of it.\<close>

definition receive :: "string \<Rightarrow> string \<Rightarrow> (string \<times> string) option" where
  "receive bytes buf = do {
     let buf = bytes @ drop (length bytes) buf;
     buf \<leftarrow> store buf (length bytes) NUL;
     Some (c_str (take (length bytes) buf), buf) }"

partial_function (option) drain_loop ::
    "'f kfifo_ops \<Rightarrow> string \<Rightarrow> 'f \<Rightarrow> kfifo_msg list \<Rightarrow> ('f \<times> kfifo_msg list) option" where
  [code]: "drain_loop ops buf f log =
     (if kfifo_is_empty ops f then Some (f, log)
      else
        (let (bytes, f) = kfifo_out ops f (length buf)
         in Option.bind (receive bytes buf) (\<lambda>(t, buf). drain_loop ops buf f (log @ [Item t]))))"

definition testfunc :: "'f kfifo_ops \<Rightarrow> string \<Rightarrow> 'f \<Rightarrow> (int \<times> 'f \<times> kfifo_msg list) option" where
  "testfunc ops stack f = do {
     (buf, f) \<leftarrow> put_loop ops 0 stack f;
     let log = [Fifo_len (kfifo_len ops f)];
     let bytes = kfifo_out_peek ops f (length buf);
     (t, buf) \<leftarrow> receive bytes buf;
     let log = (if bytes \<noteq> [] then log @ [First_record t] else log);
     (f, log) \<leftarrow> drain_loop ops buf f log;
     Some (0, f, log) }"

text \<open>Loading and unloading; \<open>alloc\<close> is the answer of \<^verbatim>\<open>kfifo_alloc\<close>, an error or an empty fifo.\<close>

definition example_init ::
    "'f kfifo_ops \<Rightarrow> string \<Rightarrow> int + 'f \<Rightarrow> (int \<times> 'f option \<times> kfifo_msg list) option" where
  "example_init ops stack alloc =
     (case alloc of
        Inl ret \<Rightarrow> Some (ret, None, [Error_alloc])
      | Inr f \<Rightarrow> do {
          (r, f, log) \<leftarrow> testfunc ops stack f;
          Some (if r < 0 then (- EIO, None, log) else (0, Some f, log)) })"

definition example_exit :: "'f option \<Rightarrow> 'f option" where
  "example_exit test = None"

section \<open>Lemmas\<close>

text \<open>The ten records, and which of them a fifo with room for \<open>cap\<close> bytes keeps.\<close>

definition ten_records :: "string list" where
  "ten_records = map (\<lambda>i. replicate (i + 1) (letter i)) [0..<10]"

definition kept :: "nat \<Rightarrow> string list \<Rightarrow> string list" where
  "kept cap rs = fold (fifo_put cap) rs []"

lemma kfifo_contract_simps:
  assumes "kfifo_contract ops recs cap"
  shows "0 < length r \<Longrightarrow> length r < 256 \<Longrightarrow> recs (kfifo_in ops f r) = fifo_put cap r (recs f)"
    and "kfifo_len ops f = fifo_used (recs f)"
    and "kfifo_is_empty ops f \<longleftrightarrow> recs f = []"
    and "recs f = [] \<Longrightarrow> kfifo_out_peek ops f n = []"
    and "recs f = r # rs \<Longrightarrow> kfifo_out_peek ops f n = take n r"
    and "recs f = r # rs \<Longrightarrow> fst (kfifo_out ops f n) = take n r"
    and "recs (snd (kfifo_out ops f n)) = tl (recs f)"
  using assms by (simp_all add: kfifo_contract_def)

lemma letter_not_nul: "i < 10 \<Longrightarrow> letter i \<noteq> NUL"
proof
  assume "i < 10" "letter i = NUL"
  then have "(of_char (letter i) :: nat) = of_char NUL" by simp
  with \<open>i < 10\<close> show False by (simp add: letter_def)
qed

lemma put_loop_effect:
  assumes "kfifo_contract ops recs cap" and "length buf = 100"
  shows "\<exists>buf' f'. put_loop ops i buf f = Some (buf', f') \<and> length buf' = 100 \<and>
    recs f' = fold (fifo_put cap) (map (\<lambda>i. replicate (i + 1) (letter i)) [i..<10]) (recs f)"
  using assms(2)
proof (induction "10 - i" arbitrary: i buf f)
  case 0
  then show ?case by (subst put_loop.simps) auto
next
  case (Suc n)
  let ?buf = "replicate (i + 1) (letter i) @ drop (i + 1) buf"
  have i: "i < 10" using Suc.hyps(2) by simp
  then have "memset buf (letter i) (i + 1) = Some ?buf" using Suc.prems by (simp add: memset_def)
  moreover have "recs (kfifo_in ops f (replicate (i + 1) (letter i))) = fifo_put cap (replicate (i + 1) (letter i)) (recs f)"
    using i by (intro kfifo_contract_simps(1) [OF assms(1)]) simp_all
  moreover obtain buf' f' where "put_loop ops (Suc i) ?buf (kfifo_in ops f (replicate (i + 1) (letter i))) = Some (buf', f')"
    "length buf' = 100"
    "recs f' = fold (fifo_put cap) (map (\<lambda>i. replicate (i + 1) (letter i)) [Suc i..<10])
       (recs (kfifo_in ops f (replicate (i + 1) (letter i))))"
    using Suc.hyps(1) [of "Suc i" ?buf "kfifo_in ops f (replicate (i + 1) (letter i))"] Suc.hyps(2) Suc.prems i by fastforce
  ultimately show ?case using i by (subst put_loop.simps) (simp add: upt_conv_Cons)
qed

definition fits_buf :: "string \<Rightarrow> bool" where
  "fits_buf r \<longleftrightarrow> 0 < length r \<and> length r < 100 \<and> NUL \<notin> set r"

lemma receive_record:
  assumes "fits_buf r" and "length buf = 100"
  obtains buf' where "receive (take 100 r) buf = Some (r, buf')" "length buf' = 100"
  using assms
  by (auto simp: fits_buf_def receive_def store_def c_str_def takeWhile_eq_all_conv list_update_append Let_def)

lemma drain_loop_effect:
  assumes "kfifo_contract ops recs cap" and "length buf = 100" and "list_all fits_buf (recs f)"
  shows "\<exists>f'. drain_loop ops buf f log = Some (f', log @ map Item (recs f)) \<and> recs f' = []"
  using assms(2,3)
proof (induction "recs f" arbitrary: f buf log)
  case Nil
  then show ?case using kfifo_contract_simps(3) [OF assms(1), of f] by (subst drain_loop.simps) simp
next
  case (Cons r rs)
  note simps = kfifo_contract_simps [OF assms(1)]
  obtain bytes g where out: "kfifo_out ops f 100 = (bytes, g)" by fastforce
  have b: "bytes = take 100 r" and g: "recs g = rs"
    using simps(6) [of f r rs 100] simps(7) [of f 100] Cons.hyps(2) out by (metis fst_conv, metis snd_conv list.sel(3))
  have fits: "fits_buf r" "list_all fits_buf (recs g)" using Cons.prems(2) Cons.hyps(2) g by (metis list.pred_inject(2))+
  obtain buf' where r: "receive (take 100 r) buf = Some (r, buf')" "length buf' = 100"
    using receive_record [OF fits(1) Cons.prems(1)] .
  obtain f' where "drain_loop ops buf' g (log @ [Item r]) = Some (f', (log @ [Item r]) @ map Item (recs g))" "recs f' = []"
    using Cons.hyps(1) [OF g [symmetric] r(2) fits(2)] by blast
  moreover have "\<not> kfifo_is_empty ops f" using simps(3) [of f] Cons.hyps(2) by (metis list.distinct(1))
  ultimately show ?case using out b r Cons.prems(1) g Cons.hyps(2) [symmetric]
    by (subst drain_loop.simps) simp
qed

lemma fold_put_subset: "set (fold (fifo_put cap) rs acc) \<subseteq> set acc \<union> set rs"
proof (induction rs arbitrary: acc)
  case (Cons r rs)
  have "set (fifo_put cap r acc) \<subseteq> insert r (set acc)" by (auto simp: fifo_put_def)
  then show ?case using Cons.IH [of "fifo_put cap r acc"] by auto
qed simp

lemma kept_fit: "list_all fits_buf (kept cap ten_records)"
  using fold_put_subset [of cap ten_records "[]"] letter_not_nul
  by (force simp: kept_def list_all_iff ten_records_def fits_buf_def)

lemma fifo_used_append [simp]: "fifo_used (xs @ ys) = fifo_used xs + fifo_used ys"
  by (induction xs) simp_all

lemma fold_put_all: "fifo_used (acc @ rs) \<le> cap \<Longrightarrow> fold (fifo_put cap) rs acc = acc @ rs"
  by (induction rs arbitrary: acc) (simp_all add: fifo_put_def)

lemma ten_records_split:
  "ten_records = butlast ten_records @ [last ten_records]"
  "fifo_used (butlast ten_records) = 54" "length (last ten_records) = 10" "fifo_used ten_records = 65"
  by (simp_all add: ten_records_def upt_rec)

lemma kept_all: "65 \<le> cap \<Longrightarrow> kept cap ten_records = ten_records"
  unfolding kept_def by (subst fold_put_all) (simp_all add: ten_records_split(4))

lemma kept_nine:
  assumes "54 \<le> cap" and "cap < 65"
  shows "kept cap ten_records = butlast ten_records"
proof -
  have "fold (fifo_put cap) (butlast ten_records) [] = butlast ten_records"
    using fold_put_all [of "[]" "butlast ten_records" cap] assms(1) ten_records_split(2) by simp
  then have "fold (fifo_put cap) (butlast ten_records @ [last ten_records]) [] = butlast ten_records"
    using assms(2) ten_records_split(2,3) by (simp add: fifo_put_def)
  then show ?thesis using ten_records_split(1) by (simp add: kept_def)
qed

section \<open>Properties\<close>

text \<open>
  C32: On an empty fifo with room for \<open>cap\<close> bytes, loading ends, returns 0, never writes outside of
  its buffer and leaves the fifo empty again; it prints the length, the first record and then all
  records that the fifo kept, each once and in the order in which they were put in. All ten are
  kept if there is room for 65 bytes. With room for only 64, to which older kernels round the
  requested 80 down, the last one is lost and nothing reports it.
\<close>

theorem kfifo_example_prints:
  assumes "kfifo_contract ops recs cap" and "recs f = []" and "length stack = 100"
  shows "(\<exists>f'. example_init ops stack (Inr f) = Some (0, Some f', Fifo_len (fifo_used (kept cap ten_records)) #
       (case kept cap ten_records of [] \<Rightarrow> [] | r # _ \<Rightarrow> [First_record r]) @ map Item (kept cap ten_records)) \<and> recs f' = []) \<and>
    (65 \<le> cap \<longrightarrow> kept cap ten_records = ten_records) \<and>
    (54 \<le> cap \<and> cap < 65 \<longrightarrow> kept cap ten_records = butlast ten_records)"
proof -
  note simps = kfifo_contract_simps [OF assms(1)]
  obtain buf g where put: "put_loop ops 0 stack f = Some (buf, g)" "length buf = 100" "recs g = kept cap ten_records"
    using put_loop_effect [OF assms(1,3), of 0 f] assms(2) by (auto simp: kept_def ten_records_def)
  have peek: "\<exists>buf'. receive (kfifo_out_peek ops g 100) buf = Some (case recs g of [] \<Rightarrow> [] | r # _ \<Rightarrow> r, buf') \<and> length buf' = 100 \<and>
      (kfifo_out_peek ops g 100 = [] \<longleftrightarrow> recs g = [])"
  proof (cases "recs g")
    case Nil
    moreover have "buf \<noteq> []" using put(2) by auto
    ultimately show ?thesis using simps(4) [of g 100] put(2) by (simp add: receive_def store_def c_str_def)
  next
    case (Cons r rs)
    then have "fits_buf r" using kept_fit [of cap] put(3) by simp
    then show ?thesis using receive_record [OF _ put(2)] simps(5) [OF Cons, of 100] Cons by (auto simp: fits_buf_def)
  qed
  then obtain buf' where "receive (kfifo_out_peek ops g 100) buf = Some (case recs g of [] \<Rightarrow> [] | r # _ \<Rightarrow> r, buf')"
    "length buf' = 100" "kfifo_out_peek ops g 100 = [] \<longleftrightarrow> recs g = []" by blast
  moreover obtain f' where "drain_loop ops buf' g (Fifo_len (kfifo_len ops g) # (case recs g of [] \<Rightarrow> [] | r # _ \<Rightarrow> [First_record r])) =
      Some (f', (Fifo_len (kfifo_len ops g) # (case recs g of [] \<Rightarrow> [] | r # _ \<Rightarrow> [First_record r])) @ map Item (recs g))" "recs f' = []"
    using drain_loop_effect [OF assms(1) calculation(2)] kept_fit put(3) by metis
  ultimately have "testfunc ops stack f = Some (0, f', Fifo_len (kfifo_len ops g) #
      (case recs g of [] \<Rightarrow> [] | r # _ \<Rightarrow> [First_record r]) @ map Item (recs g))"
    using put(1,2) by (cases "recs g") (simp_all add: testfunc_def Let_def)
  then show ?thesis using \<open>recs f' = []\<close> put(3) simps(2) [of g] kept_all kept_nine by (simp add: example_init_def)
qed

text \<open>Fifos of the kernel as lists of records, for the witness.\<close>

definition list_fifo :: "nat \<Rightarrow> string list kfifo_ops" where
  "list_fifo cap = \<lparr> kfifo_in = (\<lambda>f r. fifo_put cap r f), kfifo_len = fifo_used, kfifo_is_empty = (\<lambda>f. f = []),
     kfifo_out_peek = (\<lambda>f n. case f of [] \<Rightarrow> [] | r # _ \<Rightarrow> take n r),
     kfifo_out = (\<lambda>f n. (case f of [] \<Rightarrow> [] | r # _ \<Rightarrow> take n r, tl f)) \<rparr>"

theorem kfifo_example_prints_witness:
  "\<exists>f' log. example_init (list_fifo 64) (replicate 100 NUL) (Inr []) = Some (0, Some f', log) \<and> length log = 11"
proof -
  have "kfifo_contract (list_fifo 64) (\<lambda>f. f) 64" by (simp add: kfifo_contract_def list_fifo_def)
  then have *: "(\<exists>f'. example_init (list_fifo 64) (replicate 100 NUL) (Inr []) = Some (0, Some f', Fifo_len (fifo_used (kept 64 ten_records)) #
       (case kept 64 ten_records of [] \<Rightarrow> [] | r # _ \<Rightarrow> [First_record r]) @ map Item (kept 64 ten_records)) \<and> f' = []) \<and>
    kept 64 ten_records = butlast ten_records"
    using kfifo_example_prints [of "list_fifo 64" "\<lambda>f. f" 64 "[]" "replicate 100 NUL"] by simp
  moreover have "butlast ten_records \<noteq> []" "length (butlast ten_records) = 9" by (simp_all add: ten_records_def upt_rec)
  ultimately show ?thesis by (auto split: list.splits)
qed

end
