(* ===== verification/Netlink.thy ===== *)
theory Netlink
  imports Kernel_Prelude
begin

unbundle bit_operations_syntax

text \<open>
  The pair \<^verbatim>\<open>NetLink_Structure_message_Send\<close>: a user program sends a structure to a kernel
  module over a netlink socket, the module multiplies its numbers by 100, sends it back and
  starts a thread that multicasts another structure until the module is unloaded. Structures
  travel as byte strings, integers in little-endian order; a field is read from the payload at
  its offset, and a payload that is too short is an access outside of the message (\<open>None\<close>).
\<close>

section \<open>Structures and their bytes\<close>

record response =
  r_index :: c_int
  r_dataSize :: c_int
  r_data :: "byte list"
  r_test2 :: c_int
  r_test3 :: c_int
  r_test4 :: c_int

definition le_bytes :: "c_int \<Rightarrow> byte list" where
  "le_bytes w = [ucast w, ucast (drop_bit 8 w), ucast (drop_bit 16 w), ucast (drop_bit 24 w)]"

fun le_int :: "byte list \<Rightarrow> c_int" where
  "le_int [a, b, c, d] = ((ucast a OR push_bit 8 (ucast b)) OR push_bit 16 (ucast c)) OR push_bit 24 (ucast d)"
| "le_int _ = 0"

definition response_bytes :: "response \<Rightarrow> byte list" where
  "response_bytes r = le_bytes (r_index r) @ le_bytes (r_dataSize r) @ r_data r @
     le_bytes (r_test2 r) @ le_bytes (r_test3 r) @ le_bytes (r_test4 r)"

abbreviation (input) sizeof_Response :: nat where "sizeof_Response \<equiv> 4116"

definition response_of :: "byte list \<Rightarrow> response option" where
  "response_of bs =
     (if length bs < sizeof_Response then None
      else Some \<lparr> r_index = le_int (take 4 bs), r_dataSize = le_int (take 4 (drop 4 bs)),
                  r_data = take 4096 (drop 8 bs), r_test2 = le_int (take 4 (drop 4104 bs)),
                  r_test3 = le_int (take 4 (drop 4108 bs)), r_test4 = le_int (take 4 (drop 4112 bs)) \<rparr>)"

definition bytes_of_string :: "string \<Rightarrow> byte list" where
  "bytes_of_string t = map (\<lambda>c. of_nat (of_char c)) t"

definition strcpy :: "byte list \<Rightarrow> string \<Rightarrow> byte list" where
  "strcpy buf t = (bytes_of_string t @ [0]) @ drop (length t + 1) buf"

section \<open>The kernel module\<close>

datatype nl_thread = NT_null | NT_running | NT_returned | NT_error

record nl_state =
  nl_sk :: bool
  netlinkThread :: nl_thread
  nl_unicast :: "(int \<times> byte list) list"
  nl_multicast :: "byte list list"
  nl_blocks :: int

text \<open>
  The callback for a message from user space: the answer, and then the thread unless there
  is one. \<^verbatim>\<open>kthread_run\<close> never returns \<^verbatim>\<open>NULL\<close>: a failure is an error pointer, which the code
  stores like a thread.
\<close>

definition times_100 :: "response \<Rightarrow> response" where
  "times_100 req = req\<lparr> r_index := r_index req * 100, r_dataSize := r_dataSize req * 100,
     r_data := strcpy (r_data req) ''Data from Kernel'', r_test2 := r_test2 req * 100,
     r_test3 := r_test3 req * 100, r_test4 := r_test4 req * 100 \<rparr>"

definition callback_invoked_connect_userspace ::
    "bool \<Rightarrow> bool \<Rightarrow> bool \<Rightarrow> int \<Rightarrow> byte list \<Rightarrow> nl_state \<Rightarrow> nl_state option" where
  "callback_invoked_connect_userspace skb_ok unicast_ok run_ok pid payload s = do {
     req \<leftarrow> response_of payload;
     if \<not> skb_ok then Some s
     else do {
       let req = times_100 req;
       let s = (if unicast_ok then s\<lparr> nl_unicast := nl_unicast s @ [(pid, response_bytes req)] \<rparr> else s);
       if \<not> unicast_ok then Some s
       else Some (if netlinkThread s = NT_null
                  then s\<lparr> netlinkThread := if run_ok then NT_running else NT_error \<rparr> else s) } }"

text \<open>One round of the multicast thread; \<open>stale\<close> is what the freshly allocated block holds.\<close>

definition multicast_bytes :: "byte list \<Rightarrow> byte list" where
  "multicast_bytes stale =
     strcpy (take 1024 stale) ''Hello From Kernel'' @ strcpy (take 1024 (drop 1024 stale)) ''World of NetLink''"

definition multicast_start :: "bool \<Rightarrow> bool \<Rightarrow> byte list \<Rightarrow> bool \<Rightarrow> nl_state \<Rightarrow> nl_state option" where
  "multicast_start kmalloc_ok skb_ok stale should_stop s =
     (if netlinkThread s \<noteq> NT_running then Some s
      else if \<not> kmalloc_ok then None
      else
        (let s = s\<lparr> nl_blocks := nl_blocks s + 1 \<rparr>
         in if \<not> skb_ok then Some (s\<lparr> netlinkThread := NT_returned \<rparr>)
            else
              (let s = s\<lparr> nl_multicast := nl_multicast s @ [multicast_bytes stale], nl_blocks := nl_blocks s - 1 \<rparr>
               in Some (if should_stop then s\<lparr> netlinkThread := NT_returned \<rparr> else s))))"

definition netlink_test_init :: "bool \<Rightarrow> nl_state \<Rightarrow> int \<times> nl_state" where
  "netlink_test_init create_ok s = (if create_ok then (0, s\<lparr> nl_sk := True \<rparr>) else (- 10, s\<lparr> nl_sk := False \<rparr>))"

text \<open>
  Unloading stops the thread if there is one, sleeps for a second and releases the socket.
  \<^verbatim>\<open>kthread_stop\<close> lets a running thread finish its round; on a thread that has returned, or on an
  error pointer, it is a fault. Stopping does not clear the variable \<^verbatim>\<open>netlinkThread\<close>.
\<close>

definition netlink_exit_stop :: "bool \<Rightarrow> bool \<Rightarrow> byte list \<Rightarrow> nl_state \<Rightarrow> nl_state option" where
  "netlink_exit_stop kmalloc_ok skb_ok stale s =
     (case netlinkThread s of
        NT_null \<Rightarrow> Some s
      | NT_running \<Rightarrow> multicast_start kmalloc_ok skb_ok stale True s
      | NT_returned \<Rightarrow> None
      | NT_error \<Rightarrow> None)"

definition netlink_exit_release :: "nl_state \<Rightarrow> nl_state" where
  "netlink_exit_release s = (if nl_sk s then s\<lparr> nl_sk := False \<rparr> else s)"

text \<open>While it sleeps the socket is open and any thread goes on: messages and rounds, in any order.\<close>

datatype window_event = Message bool bool bool int "byte list" | Round bool bool "byte list"

fun window_step :: "window_event \<Rightarrow> nl_state \<Rightarrow> nl_state option" where
  "window_step (Message skb_ok unicast_ok run_ok pid payload) s =
     callback_invoked_connect_userspace skb_ok unicast_ok run_ok pid payload s"
| "window_step (Round kmalloc_ok skb_ok stale) s = multicast_start kmalloc_ok skb_ok stale False s"

fun unload_window :: "window_event list \<Rightarrow> nl_state \<Rightarrow> nl_state option" where
  "unload_window [] s = Some s"
| "unload_window (e # es) s = do { s \<leftarrow> window_step e s; unload_window es s }"

definition netlink_test_exit ::
    "bool \<Rightarrow> bool \<Rightarrow> byte list \<Rightarrow> window_event list \<Rightarrow> nl_state \<Rightarrow> nl_state option" where
  "netlink_test_exit kmalloc_ok skb_ok stale window s = do {
     s \<leftarrow> netlink_exit_stop kmalloc_ok skb_ok stale s;
     s \<leftarrow> unload_window window s;
     Some (netlink_exit_release s) }"

section \<open>The user program\<close>

definition user_message :: "byte list \<Rightarrow> response" where
  "user_message stack = \<lparr> r_index = 1, r_dataSize = 2, r_data = strcpy stack ''Data from User'',
     r_test2 = 3, r_test3 = 4, r_test4 = 5 \<rparr>"

text \<open>The message has room for 8192 bytes, all of them zero behind the structure.\<close>

definition user_payload :: "byte list \<Rightarrow> byte list" where
  "user_payload stack = response_bytes (user_message stack) @ replicate (8192 - sizeof_Response) 0"

section \<open>Lemmas\<close>

lemma le_int_bytes [simp]: "le_int (le_bytes w) = w"
proof (rule bit_word_eqI)
  fix n assume "n < LENGTH(32)"
  then show "bit (le_int (le_bytes w)) n = bit w n"
    by (cases "24 \<le> n"; cases "16 \<le> n") (auto simp: le_bytes_def bit_simps not_less)
qed

lemma length_le_bytes [simp]: "length (le_bytes w) = 4"
  by (simp add: le_bytes_def)

lemma length_response_bytes: "length (r_data r) = 4096 \<Longrightarrow> length (response_bytes r) = sizeof_Response"
  by (simp add: response_bytes_def)

lemma response_round_trip:
  assumes "length (r_data r) = 4096"
  shows "response_of (response_bytes r @ rest) = Some r"
proof -
  let ?a = "le_bytes (r_index r)" let ?b = "le_bytes (r_dataSize r)" let ?d = "r_data r"
  let ?e = "le_bytes (r_test2 r)" let ?f = "le_bytes (r_test3 r)" let ?g = "le_bytes (r_test4 r)"
  let ?bs = "response_bytes r @ rest"
  have bs: "?bs = ?a @ ?b @ ?d @ ?e @ ?f @ ?g @ rest" by (simp add: response_bytes_def)
  have "take 4 ?bs = ?a" "take 4 (drop 4 ?bs) = ?b" "take 4096 (drop 8 ?bs) = ?d"
    "take 4 (drop 4104 ?bs) = ?e" "take 4 (drop 4108 ?bs) = ?f" "take 4 (drop 4112 ?bs) = ?g"
    unfolding bs using assms by simp_all
  moreover have "\<not> length ?bs < sizeof_Response" using length_response_bytes [OF assms] by simp
  ultimately show ?thesis by (simp add: response_of_def)
qed

lemma length_strcpy: "length t < length buf \<Longrightarrow> length (strcpy buf t) = length buf"
  by (simp add: strcpy_def bytes_of_string_def)

lemma times_100_data: "length (r_data r) = 4096 \<Longrightarrow> length (r_data (times_100 r)) = 4096"
  by (simp add: times_100_def length_strcpy)

section \<open>Properties\<close>

text \<open>
  End to end: the module understands the bytes that carry a structure, and the receiver
  of the answer reads back the same structure with all five numbers multiplied by 100 modulo
  2 ^ 32 and the kernel's text in the data field, in front of the old rest of that field. A
  payload that is shorter than the structure is read beyond its end: its length is not checked.
\<close>

theorem netlink_answer:
  assumes "length (r_data r) = 4096"
  shows "(\<exists>s' bs. callback_invoked_connect_userspace True True run_ok pid (response_bytes r @ rest) s = Some s' \<and>
       nl_unicast s' = nl_unicast s @ [(pid, bs)] \<and> response_of bs = Some (times_100 r)) \<and>
     (length payload < sizeof_Response \<longrightarrow>
       callback_invoked_connect_userspace skb_ok unicast_ok run_ok pid payload s = None)"
proof -
  have "response_of (response_bytes (times_100 r)) = Some (times_100 r)"
    using response_round_trip [OF times_100_data [OF assms], of "[]"] by simp
  then show ?thesis using response_round_trip [OF assms]
    by (auto simp: callback_invoked_connect_userspace_def response_of_def [of payload] Let_def)
qed

definition idle_netlink :: nl_state where
  "idle_netlink = \<lparr> nl_sk = True, netlinkThread = NT_null, nl_unicast = [], nl_multicast = [], nl_blocks = 0 \<rparr>"

theorem netlink_answer_witness:
  "\<exists>s' bs q. callback_invoked_connect_userspace True True True 77 (user_payload (replicate 4096 9)) idle_netlink = Some s' \<and>
     nl_unicast s' = [(77, bs)] \<and> response_of bs = Some q \<and> r_index q = 100 \<and> r_test4 q = 500"
proof -
  let ?r = "user_message (replicate 4096 9)"
  have "length (r_data ?r) = 4096" by (simp add: user_message_def length_strcpy)
  from netlink_answer [OF this, of True 77 "replicate (8192 - sizeof_Response) 0" idle_netlink "[]" True True]
  obtain s' bs where "callback_invoked_connect_userspace True True True 77 (user_payload (replicate 4096 9)) idle_netlink = Some s'"
    "nl_unicast s' = nl_unicast idle_netlink @ [(77, bs)]" "response_of bs = Some (times_100 ?r)"
    unfolding user_payload_def by blast
  moreover have "r_index (times_100 ?r) = 100" "r_test4 (times_100 ?r) = 500"
    by (simp_all add: times_100_def user_message_def)
  ultimately show ?thesis by (auto simp: idle_netlink_def)
qed

section \<open>Unloading\<close>

text \<open>
  The messages of the window are as long as the structure; a message gets as far as starting the
  thread when its answer could be made and sent.
\<close>

fun whole_message :: "window_event \<Rightarrow> bool" where
  "whole_message (Message _ _ _ _ payload) \<longleftrightarrow> sizeof_Response \<le> length payload"
| "whole_message (Round _ _ _) \<longleftrightarrow> True"

fun answered :: "window_event \<Rightarrow> bool" where
  "answered (Message skb_ok unicast_ok _ _ _) \<longleftrightarrow> skb_ok \<and> unicast_ok"
| "answered (Round _ _ _) \<longleftrightarrow> False"

lemma response_of_whole: "sizeof_Response \<le> length bs \<Longrightarrow> \<exists>r. response_of bs = Some r"
  by (simp add: response_of_def)

text \<open>An event that finds a thread that is not running, and that starts none, changes only what was sent.\<close>

lemma window_step_quiet:
  assumes "whole_message e" and "netlinkThread s \<noteq> NT_running"
    and "netlinkThread s \<noteq> NT_null \<or> \<not> answered e"
  shows "\<exists>s'. window_step e s = Some s' \<and> netlinkThread s' = netlinkThread s \<and> nl_blocks s' = nl_blocks s \<and>
    nl_sk s' = nl_sk s \<and> nl_multicast s' = nl_multicast s"
proof (cases e)
  case (Message skb_ok unicast_ok run_ok pid payload)
  then obtain r where "response_of payload = Some r" using assms(1) response_of_whole by auto
  with Message assms(3) show ?thesis by (auto simp: callback_invoked_connect_userspace_def Let_def)
next
  case (Round kmalloc_ok skb_ok stale)
  with assms(2) show ?thesis by (simp add: multicast_start_def)
qed

lemma unload_window_quiet:
  assumes "\<forall>e\<in>set es. whole_message e" and "netlinkThread s \<noteq> NT_running"
    and "netlinkThread s \<noteq> NT_null \<or> (\<forall>e\<in>set es. \<not> answered e)"
  shows "\<exists>s'. unload_window es s = Some s' \<and> netlinkThread s' = netlinkThread s \<and> nl_blocks s' = nl_blocks s \<and>
    nl_sk s' = nl_sk s \<and> nl_multicast s' = nl_multicast s"
  using assms
proof (induction es arbitrary: s)
  case (Cons e es)
  obtain s1 where s1: "window_step e s = Some s1" "netlinkThread s1 = netlinkThread s" "nl_blocks s1 = nl_blocks s"
    "nl_sk s1 = nl_sk s" "nl_multicast s1 = nl_multicast s"
    using window_step_quiet [of e s] Cons.prems by auto
  then show ?case using Cons.IH [of s1] Cons.prems by auto
qed simp

lemma unload_window_append: "unload_window (es @ es') s = do { s \<leftarrow> unload_window es s; unload_window es' s }"
proof (induction es arbitrary: s)
  case (Cons e es)
  then show ?case by (cases "window_step e s") simp_all
qed simp

lemma netlink_exit_stop_running:
  "netlinkThread s = NT_running \<Longrightarrow> \<exists>s'. netlink_exit_stop True skb_ok stale s = Some s' \<and> netlinkThread s' = NT_returned \<and>
     nl_blocks s' = nl_blocks s + (if skb_ok then 0 else 1)"
  by (simp add: netlink_exit_stop_def multicast_start_def Let_def)

text \<open>What the sleep lets happen when there was no thread to stop.\<close>

lemma unload_window_starts:
  assumes "netlinkThread s = NT_null" and "\<forall>e\<in>set es. whole_message e \<and> \<not> answered e"
    and "sizeof_Response \<le> length payload"
  shows "\<exists>s'. unload_window (es @ [Message True True True pid payload]) s = Some s' \<and> netlinkThread s' = NT_running"
proof -
  obtain s1 where "unload_window es s = Some s1" "netlinkThread s1 = NT_null"
    using unload_window_quiet [of es s] assms by auto
  then show ?thesis using response_of_whole [OF assms(3)]
    by (auto simp: unload_window_append callback_invoked_connect_userspace_def Let_def)
qed

section \<open>Property of unloading\<close>

text \<open>
  C26: When unloading the module is safe, where messages may arrive (whole ones, in any number)
  during the second that netlink_test_exit sleeps between kthread_stop and the release of the
  socket. (1) With the thread running and memory for its last message, unloading succeeds, the
  thread has ended and the socket is released; a block is lost just when the last socket buffer
  could not be made. (2) With no thread ever started and no message answered in the window, it
  succeeds and there is no thread. (3) But if then a message is answered in the window, the
  thread it starts is left running when the socket is gone. (4) Unloading faults when the running
  thread gets no memory in its last round, (5) when the thread has ended by itself because it got
  no socket buffer, in which case its message block is lost too, and (6) when starting the thread
  failed, whose error pointer is stored like a thread.
\<close>

theorem netlink_unload:
  assumes "\<forall>e\<in>set window. whole_message e"
  shows "(netlinkThread s = NT_running \<longrightarrow>
      (\<exists>s'. netlink_test_exit True skb_ok stale window s = Some s' \<and> \<not> nl_sk s' \<and> netlinkThread s' = NT_returned \<and>
        nl_blocks s' = nl_blocks s + (if skb_ok then 0 else 1))) \<and>
    (netlinkThread s = NT_null \<and> (\<forall>e\<in>set window. \<not> answered e) \<longrightarrow>
      (\<exists>s'. netlink_test_exit kmalloc_ok skb_ok stale window s = Some s' \<and> \<not> nl_sk s' \<and> netlinkThread s' = NT_null \<and>
        nl_blocks s' = nl_blocks s)) \<and>
    (netlinkThread s = NT_null \<and> (\<forall>e\<in>set window. \<not> answered e) \<and> sizeof_Response \<le> length payload \<longrightarrow>
      (\<exists>s'. netlink_test_exit kmalloc_ok skb_ok stale (window @ [Message True True True pid payload]) s = Some s' \<and>
        \<not> nl_sk s' \<and> netlinkThread s' = NT_running)) \<and>
    (netlinkThread s = NT_running \<longrightarrow> netlink_test_exit False skb_ok stale window s = None) \<and>
    (netlinkThread s = NT_running \<longrightarrow>
      (\<exists>s'. multicast_start True False stale stop s = Some s' \<and> nl_blocks s' = nl_blocks s + 1 \<and>
        netlink_test_exit kmalloc_ok skb_ok stale' window s' = None)) \<and>
    (netlinkThread s = NT_null \<and> sizeof_Response \<le> length payload \<longrightarrow>
      (\<exists>s'. callback_invoked_connect_userspace True True False pid payload s = Some s' \<and>
        netlink_test_exit kmalloc_ok skb_ok stale window s' = None))"
    (is "?safe_running \<and> ?safe_null \<and> ?left_running \<and> ?no_memory \<and> ?ended \<and> ?failed")
proof -
  have ?safe_running
  proof
    assume "netlinkThread s = NT_running"
    then obtain s1 where s1: "netlink_exit_stop True skb_ok stale s = Some s1" "netlinkThread s1 = NT_returned"
      "nl_blocks s1 = nl_blocks s + (if skb_ok then 0 else 1)"
      using netlink_exit_stop_running by blast
    obtain s2 where "unload_window window s1 = Some s2" "netlinkThread s2 = NT_returned" "nl_blocks s2 = nl_blocks s1"
      using unload_window_quiet [OF assms, of s1] s1(2) by auto
    then show "\<exists>s'. netlink_test_exit True skb_ok stale window s = Some s' \<and> \<not> nl_sk s' \<and> netlinkThread s' = NT_returned \<and>
        nl_blocks s' = nl_blocks s + (if skb_ok then 0 else 1)"
      using s1 by (simp add: netlink_test_exit_def netlink_exit_release_def)
  qed
  moreover have ?safe_null
    using unload_window_quiet [OF assms, of s]
    by (auto simp: netlink_test_exit_def netlink_exit_stop_def netlink_exit_release_def)
  moreover have ?left_running
    using unload_window_starts [of s window payload pid] assms
    by (auto simp: netlink_test_exit_def netlink_exit_stop_def netlink_exit_release_def)
  moreover have ?no_memory by (simp add: netlink_test_exit_def netlink_exit_stop_def multicast_start_def)
  moreover have ?ended by (auto simp: netlink_test_exit_def netlink_exit_stop_def multicast_start_def Let_def)
  moreover have ?failed using response_of_whole [of payload]
    by (auto simp: netlink_test_exit_def netlink_exit_stop_def callback_invoked_connect_userspace_def Let_def)
  ultimately show ?thesis by blast
qed

theorem netlink_unload_witness:
  "(\<exists>s'. netlink_test_exit True True [] [Message True True True 7 (replicate 4116 0)]
      (idle_netlink\<lparr> netlinkThread := NT_running \<rparr>) = Some s' \<and> netlinkThread s' = NT_returned \<and> nl_blocks s' = 0) \<and>
   (\<exists>s'. netlink_test_exit True True [] [Message False True True 7 (replicate 4116 0), Message True True True 8 (replicate 4116 0)]
      idle_netlink = Some s' \<and> \<not> nl_sk s' \<and> netlinkThread s' = NT_running)"
proof
  show "\<exists>s'. netlink_test_exit True True [] [Message True True True 7 (replicate 4116 0)]
      (idle_netlink\<lparr> netlinkThread := NT_running \<rparr>) = Some s' \<and> netlinkThread s' = NT_returned \<and> nl_blocks s' = 0"
    using netlink_unload [of "[Message True True True 7 (replicate 4116 0)]" "idle_netlink\<lparr> netlinkThread := NT_running \<rparr>"
        True "[]" True "[]" 0 True "[]"]
    by (auto simp: idle_netlink_def)
  show "\<exists>s'. netlink_test_exit True True [] [Message False True True 7 (replicate 4116 0), Message True True True 8 (replicate 4116 0)]
      idle_netlink = Some s' \<and> \<not> nl_sk s' \<and> netlinkThread s' = NT_running"
    using netlink_unload [of "[Message False True True 7 (replicate 4116 0)]" idle_netlink
        True "[]" True "replicate 4116 0" 8 True "[]"]
    by (auto simp: idle_netlink_def)
qed

end
