(* ===== verification/Netlink_Text.thy ===== *)
theory Netlink_Text
  imports Netlink Kernel_Api
begin

text \<open>
  The netlink examples that exchange text: the kernel modules of
  \<^verbatim>\<open>NetLink_Unicast_test\<close>, \<^verbatim>\<open>NetLink_Multicast_test\<close> and \<^verbatim>\<open>NetLink_Mix_unicast_Multicast\<close>. A
  message is a header and the bytes behind it: the payload, whose length the header gives, and
  the padding to a multiple of four. Memory that was not written holds arbitrary characters,
  which are an argument.
\<close>

section \<open>Messages\<close>

record 'c nlmsg =
  nlmsg_len :: nat
  nlmsg_type :: nat
  nlmsg_seq :: nat
  nlmsg_pid :: int
  nlmsg_data :: "'c list"

definition NLMSG_ALIGN :: "nat \<Rightarrow> nat" where
  "NLMSG_ALIGN n = (n + 3) div 4 * 4"

abbreviation (input) NLMSG_HDRLEN :: nat where "NLMSG_HDRLEN \<equiv> 16"
abbreviation (input) NLMSG_DONE :: nat where "NLMSG_DONE \<equiv> 3"

definition NLMSG_SPACE :: "nat \<Rightarrow> nat" where
  "NLMSG_SPACE n = NLMSG_ALIGN (n + NLMSG_HDRLEN)"

text \<open>\<^verbatim>\<open>nlmsg_new(n)\<close> makes a buffer with this much room, in which \<^verbatim>\<open>nlmsg_put\<close> returns \<^verbatim>\<open>NULL\<close> for
  a message that does not fit; it sets the header, clears the padding and leaves the payload
  as it finds it.\<close>

definition nlmsg_new :: "nat \<Rightarrow> nat" where
  "nlmsg_new n = NLMSG_ALIGN (NLMSG_HDRLEN + n)"

definition nlmsg_put :: "nat \<Rightarrow> int \<Rightarrow> nat \<Rightarrow> nat \<Rightarrow> nat \<Rightarrow> (nat \<Rightarrow> char) \<Rightarrow> char nlmsg option" where
  "nlmsg_put room pid seq ty len stale =
     (if room < NLMSG_ALIGN (NLMSG_HDRLEN + len) then None
      else Some \<lparr> nlmsg_len = NLMSG_HDRLEN + len, nlmsg_type = ty, nlmsg_seq = seq, nlmsg_pid = pid,
             nlmsg_data = map stale [0..<len] @ replicate (NLMSG_ALIGN len - len) NUL \<rparr>)"

definition strcpy_text :: "string \<Rightarrow> string \<Rightarrow> string option" where
  "strcpy_text dst src = (if length dst \<le> length src then None else Some (src @ [NUL] @ drop (length src + 1) dst))"

definition hello_kernel :: string where "hello_kernel = ''Hello from kernel''"

section \<open>State of a module\<close>

record text_state =
  tx_sk :: bool
  tx_thread :: nl_thread
  tx_unicast :: "(int \<times> char nlmsg) list"
  tx_multicast :: "char nlmsg list"
  tx_log :: "string list"

definition tx_print :: "string \<Rightarrow> text_state \<Rightarrow> text_state" where
  "tx_print t s = s\<lparr> tx_log := tx_log s @ [t] \<rparr>"

section \<open>The unicast module\<close>

definition hello_nl_recv_msg ::
    "bool \<Rightarrow> bool \<Rightarrow> (nat \<Rightarrow> char) \<Rightarrow> char nlmsg \<Rightarrow> text_state \<Rightarrow> text_state option" where
  "hello_nl_recv_msg skb_ok unicast_ok stale nlh s = do {
     let msg_size = length hello_kernel;
     t \<leftarrow> print_s (nlmsg_data nlh);
     let s = tx_print (''Netlink received msg payload:'' @ t) s;
     let pid = nlmsg_pid nlh;
     if \<not> skb_ok then Some (tx_print ''Failed to allocate new skb'' s)
     else do {
       out \<leftarrow> nlmsg_put (nlmsg_new msg_size) 0 0 NLMSG_DONE msg_size stale;
       data \<leftarrow> strncpy (nlmsg_data out) hello_kernel msg_size;
       let out = out\<lparr> nlmsg_data := data \<rparr>;
       Some (if unicast_ok then s\<lparr> tx_unicast := tx_unicast s @ [(pid, out)] \<rparr>
             else tx_print ''Error while sending bak to user'' s) } }"

definition hello_init_unicast :: "bool \<Rightarrow> text_state \<Rightarrow> int \<times> text_state" where
  "hello_init_unicast create_ok s =
     (let s = s\<lparr> tx_sk := create_ok \<rparr> in if \<not> create_ok then (- 10, tx_print ''Error creating socket.'' s) else (0, s))"

text \<open>Releasing a socket that is not there is an access through \<^verbatim>\<open>NULL\<close>.\<close>

definition netlink_kernel_release :: "text_state \<Rightarrow> text_state option" where
  "netlink_kernel_release s = (if tx_sk s then Some (s\<lparr> tx_sk := False \<rparr>) else None)"

definition hello_exit_unicast :: "text_state \<Rightarrow> text_state option" where
  "hello_exit_unicast s = netlink_kernel_release (tx_print ''exiting hello module'' s)"

section \<open>The multicast module\<close>

definition send_to_user :: "bool \<Rightarrow> bool \<Rightarrow> (nat \<Rightarrow> char) \<Rightarrow> text_state \<Rightarrow> text_state option" where
  "send_to_user skb_ok sent_ok stale s = do {
     let msg_size = length hello_kernel + 1;
     let s = tx_print ''Creating skb.'' s;
     if \<not> skb_ok then Some (tx_print ''Allocation failure.'' s)
     else do {
       nlh \<leftarrow> nlmsg_put (nlmsg_new (NLMSG_ALIGN (msg_size + 1))) 0 1 NLMSG_DONE (msg_size + 1) stale;
       data \<leftarrow> strcpy_text (nlmsg_data nlh) hello_kernel;
       let nlh = nlh\<lparr> nlmsg_data := data \<rparr>;
       let s = tx_print ''Sending skb.'' s;
       Some (if sent_ok then tx_print ''Success.'' (s\<lparr> tx_multicast := tx_multicast s @ [nlh] \<rparr>)
             else tx_print ''nlmsg_multicast() error'' s) } }"

definition hello_init_multicast :: "bool \<Rightarrow> bool \<Rightarrow> bool \<Rightarrow> (nat \<Rightarrow> char) \<Rightarrow> text_state \<Rightarrow> (int \<times> text_state) option" where
  "hello_init_multicast create_ok skb_ok sent_ok stale s = do {
     let s = s\<lparr> tx_sk := create_ok \<rparr>;
     if \<not> create_ok then Some (- 10, tx_print ''Error creating socket.'' s)
     else do {
       s \<leftarrow> send_to_user skb_ok sent_ok stale s;
       s \<leftarrow> netlink_kernel_release s;
       Some (0, s) } }"

definition hello_exit_multicast :: "text_state \<Rightarrow> text_state" where
  "hello_exit_multicast s = tx_print ''exiting hello module'' s"

section \<open>The module with both\<close>

text \<open>The callback: the answer, and then the thread unless there is one already.\<close>

definition callback_mix ::
    "bool \<Rightarrow> bool \<Rightarrow> bool \<Rightarrow> (nat \<Rightarrow> char) \<Rightarrow> char nlmsg \<Rightarrow> text_state \<Rightarrow> text_state option" where
  "callback_mix skb_ok unicast_ok run_ok stale nlh s = do {
     let msg_size = length hello_kernel;
     t \<leftarrow> print_s (nlmsg_data nlh);
     let s = tx_print (''Netlink received msg payload:'' @ t) s;
     let pid = nlmsg_pid nlh;
     if \<not> skb_ok then Some (tx_print ''Failed to allocate new skb'' s)
     else do {
       out \<leftarrow> nlmsg_put (nlmsg_new msg_size) 0 0 NLMSG_DONE msg_size stale;
       data \<leftarrow> strncpy (nlmsg_data out) hello_kernel msg_size;
       let out = out\<lparr> nlmsg_data := data \<rparr>;
       if \<not> unicast_ok then Some (tx_print ''Error while sending bak to user'' s)
       else do {
         let s = s\<lparr> tx_unicast := tx_unicast s @ [(pid, out)] \<rparr>;
         Some (if tx_thread s = NT_null
               then s\<lparr> tx_thread := if run_ok then NT_running else NT_error \<rparr> else s) } } }"

text \<open>One round of the loop of the thread.\<close>

definition multicast_round ::
    "bool \<Rightarrow> bool \<Rightarrow> (nat \<Rightarrow> char) \<Rightarrow> bool \<Rightarrow> text_state \<Rightarrow> text_state option" where
  "multicast_round skb_ok sent_ok stale stop s =
     (if tx_thread s \<noteq> NT_running then Some s
      else do {
        let msg_size = length hello_kernel + 1;
        if \<not> skb_ok then Some (tx_print ''Allocation failure.'' (s\<lparr> tx_thread := NT_returned \<rparr>))
        else do {
          nlh \<leftarrow> nlmsg_put (nlmsg_new (NLMSG_ALIGN (msg_size + 1))) 0 1 NLMSG_DONE (msg_size + 1) stale;
          data \<leftarrow> strcpy_text (nlmsg_data nlh) hello_kernel;
          let nlh = nlh\<lparr> nlmsg_data := data \<rparr>;
          let s = tx_print ''Sending skb.'' s;
          let s = (if sent_ok then tx_print ''Success the message.'' (s\<lparr> tx_multicast := tx_multicast s @ [nlh] \<rparr>)
                   else tx_print ''nlmsg_multicast() error'' s);
          Some (if stop then s\<lparr> tx_thread := NT_returned \<rparr> else s) } })"

definition netlink_test_init_mix :: "bool \<Rightarrow> text_state \<Rightarrow> int \<times> text_state" where
  "netlink_test_init_mix create_ok s =
     (let s = s\<lparr> tx_sk := create_ok \<rparr> in if \<not> create_ok then (- 10, tx_print ''Error creating socket.'' s) else (0, s))"

text \<open>\<^verbatim>\<open>kthread_stop\<close> lets a running thread finish its round; on a thread that has returned, or on
  an error pointer, it is a fault. While unloading sleeps, before it releases the socket, messages
  still arrive and a thread they start goes on.\<close>

datatype mix_event = Mix_message bool bool bool "nat \<Rightarrow> char" "char nlmsg" | Mix_round bool bool "nat \<Rightarrow> char"

fun mix_window :: "mix_event list \<Rightarrow> text_state \<Rightarrow> text_state option" where
  "mix_window [] s = Some s"
| "mix_window (Mix_message skb_ok unicast_ok run_ok stale nlh # es) s =
     do { s \<leftarrow> callback_mix skb_ok unicast_ok run_ok stale nlh s; mix_window es s }"
| "mix_window (Mix_round skb_ok sent_ok stale # es) s =
     do { s \<leftarrow> multicast_round skb_ok sent_ok stale False s; mix_window es s }"

definition netlink_test_exit_mix ::
    "bool \<Rightarrow> bool \<Rightarrow> (nat \<Rightarrow> char) \<Rightarrow> mix_event list \<Rightarrow> text_state \<Rightarrow> text_state option" where
  "netlink_test_exit_mix skb_ok sent_ok stale window s = do {
     s \<leftarrow> (case tx_thread s of
             NT_null \<Rightarrow> Some s
           | NT_running \<Rightarrow> multicast_round skb_ok sent_ok stale True s
           | _ \<Rightarrow> None);
     s \<leftarrow> mix_window window s;
     s \<leftarrow> (if tx_sk s then netlink_kernel_release s else Some s);
     Some (tx_print ''exiting hello module'' s) }"

section \<open>Lemmas\<close>

lemma hello_kernel_no_nul: "NUL \<notin> set hello_kernel" and length_hello_kernel: "length hello_kernel = 17"
  by (simp_all add: hello_kernel_def)

text \<open>The two messages: the answer has no terminator in its payload, the multicast message has
  one, and one byte behind it that is never written.\<close>

definition hello_answer :: "char nlmsg" where
  "hello_answer = \<lparr> nlmsg_len = 33, nlmsg_type = 3, nlmsg_seq = 0, nlmsg_pid = 0, nlmsg_data = hello_kernel @ [NUL, NUL, NUL] \<rparr>"

definition hello_multicast :: "(nat \<Rightarrow> char) \<Rightarrow> char nlmsg" where
  "hello_multicast stale = \<lparr> nlmsg_len = 35, nlmsg_type = 3, nlmsg_seq = 1, nlmsg_pid = 0,
     nlmsg_data = hello_kernel @ [NUL, stale 18, NUL] \<rparr>"

lemma answer_made:
  "nlmsg_put (nlmsg_new 17) 0 0 3 17 stale = Some (hello_answer\<lparr> nlmsg_data := map stale [0..<17] @ [NUL, NUL, NUL] \<rparr>)"
  "strncpy (map stale [0..<17] @ [NUL, NUL, NUL]) hello_kernel 17 = Some (nlmsg_data hello_answer)"
  "hello_answer\<lparr> nlmsg_data := nlmsg_data hello_answer \<rparr> = hello_answer"
  by (simp_all add: nlmsg_put_def nlmsg_new_def NLMSG_ALIGN_def strncpy_def hello_answer_def length_hello_kernel numeral_3_eq_3)

lemma multicast_made:
  "nlmsg_put (nlmsg_new (NLMSG_ALIGN 19)) 0 1 3 19 stale = Some ((hello_multicast stale)\<lparr> nlmsg_data := map stale [0..<19] @ [NUL] \<rparr>)"
  "strcpy_text (map stale [0..<19] @ [NUL]) hello_kernel = Some (nlmsg_data (hello_multicast stale))"
  "(hello_multicast stale)\<lparr> nlmsg_data := nlmsg_data (hello_multicast stale) \<rparr> = hello_multicast stale"
proof -
  have "[0..<19] = [0..<17] @ [17, 18]" by (simp add: upt_rec)
  then show "strcpy_text (map stale [0..<19] @ [NUL]) hello_kernel = Some (nlmsg_data (hello_multicast stale))"
    by (simp add: strcpy_text_def hello_multicast_def length_hello_kernel)
qed (simp_all add: nlmsg_put_def nlmsg_new_def NLMSG_ALIGN_def hello_multicast_def)

lemma hello_nl_recv_msg_effect:
  "hello_nl_recv_msg skb_ok unicast_ok stale nlh s = do {
     t \<leftarrow> print_s (nlmsg_data nlh);
     let s = tx_print (''Netlink received msg payload:'' @ t) s;
     Some (if \<not> skb_ok then tx_print ''Failed to allocate new skb'' s
           else if unicast_ok then s\<lparr> tx_unicast := tx_unicast s @ [(nlmsg_pid nlh, hello_answer)] \<rparr>
           else tx_print ''Error while sending bak to user'' s) }"
  by (cases skb_ok; cases unicast_ok) (simp_all add: hello_nl_recv_msg_def length_hello_kernel answer_made Let_def)

lemma send_to_user_effect:
  "send_to_user skb_ok sent_ok stale s =
     Some (let s = tx_print ''Creating skb.'' s
           in if \<not> skb_ok then tx_print ''Allocation failure.'' s
              else let s = tx_print ''Sending skb.'' s
                   in if sent_ok then tx_print ''Success.'' (s\<lparr> tx_multicast := tx_multicast s @ [hello_multicast stale] \<rparr>)
                      else tx_print ''nlmsg_multicast() error'' s)"
  by (cases skb_ok; cases sent_ok) (simp_all add: send_to_user_def length_hello_kernel multicast_made [unfolded One_nat_def] Let_def)

lemma multicast_round_effect:
  "multicast_round skb_ok sent_ok stale stop s =
     Some (if tx_thread s \<noteq> NT_running then s
           else if \<not> skb_ok then tx_print ''Allocation failure.'' (s\<lparr> tx_thread := NT_returned \<rparr>)
           else let s = tx_print ''Sending skb.'' s;
                    s = (if sent_ok then tx_print ''Success the message.'' (s\<lparr> tx_multicast := tx_multicast s @ [hello_multicast stale] \<rparr>)
                         else tx_print ''nlmsg_multicast() error'' s)
                in if stop then s\<lparr> tx_thread := NT_returned \<rparr> else s)"
  by (cases skb_ok; cases sent_ok) (simp_all add: multicast_round_def length_hello_kernel multicast_made [unfolded One_nat_def] Let_def)

text \<open>The callback of the module with both is the handler of the unicast module, and then the
  start of the thread if the answer went out.\<close>

definition start_multicast :: "bool \<Rightarrow> text_state \<Rightarrow> text_state" where
  "start_multicast run_ok s =
     (if tx_thread s = NT_null then s\<lparr> tx_thread := if run_ok then NT_running else NT_error \<rparr> else s)"

lemma callback_mix_unicast:
  "callback_mix skb_ok unicast_ok run_ok stale nlh s =
     map_option (if skb_ok \<and> unicast_ok then start_multicast run_ok else (\<lambda>s. s)) (hello_nl_recv_msg skb_ok unicast_ok stale nlh s)"
  by (cases "print_s (nlmsg_data nlh)")
    (auto simp: callback_mix_def hello_nl_recv_msg_effect start_multicast_def length_hello_kernel answer_made tx_print_def Let_def)

text \<open>A message as the protocol wants it: the length in the header is that of header and payload,
  and the payload is padded.\<close>

definition nlmsg_ok :: "'c nlmsg \<Rightarrow> bool" where
  "nlmsg_ok m \<longleftrightarrow> NLMSG_HDRLEN \<le> nlmsg_len m \<and> length (nlmsg_data m) = NLMSG_ALIGN (nlmsg_len m - NLMSG_HDRLEN)"

lemma hello_messages_ok: "nlmsg_ok hello_answer" "nlmsg_ok (hello_multicast stale)"
  by (simp_all add: nlmsg_ok_def hello_answer_def hello_multicast_def length_hello_kernel NLMSG_ALIGN_def)

end
