(* ===== verification/Netlink_User.thy ===== *)
theory Netlink_User
  imports Netlink_Text
begin

text \<open>
  The user programs of the four netlink examples and their exchange with the kernel modules.
  The answers of the socket calls are arguments: the descriptor that \<^verbatim>\<open>socket\<close> returns, whether
  \<^verbatim>\<open>bind\<close> and \<^verbatim>\<open>setsockopt\<close> succeed, and the message that \<^verbatim>\<open>recvmsg\<close> finds (\<open>None\<close> for an error).
  A program that listens for ever is run on the list of the messages that reach it.
\<close>

section \<open>State and system calls\<close>

datatype shown = Say string | Show_text string string | Show_num string int

record 'c user_state =
  u_socks :: "int list"
  u_groups :: "(int \<times> nat \<times> nat) list"
  u_blocks :: nat
  u_sent :: "'c nlmsg list"
  u_out :: "shown list"

definition show_out :: "shown \<Rightarrow> 'c user_state \<Rightarrow> 'c user_state" where
  "show_out x s = s\<lparr> u_out := u_out s @ [x] \<rparr>"

definition open_sock :: "int \<Rightarrow> 'c user_state \<Rightarrow> 'c user_state" where
  "open_sock fd s = (if fd < 0 then s else s\<lparr> u_socks := fd # u_socks s \<rparr>)"

definition close_sock :: "int \<Rightarrow> 'c user_state \<Rightarrow> 'c user_state" where
  "close_sock fd s = s\<lparr> u_socks := remove1 fd (u_socks s) \<rparr>"

text \<open>A zeroed message buffer from \<^verbatim>\<open>malloc\<close>, whose result is not checked.\<close>

definition message_buffer :: "bool \<Rightarrow> nat \<Rightarrow> 'c \<Rightarrow> int \<Rightarrow> 'c user_state \<Rightarrow> ('c nlmsg \<times> 'c user_state) option" where
  "message_buffer malloc_ok payload zero pid s =
     (if malloc_ok
      then Some (\<lparr> nlmsg_len = NLMSG_SPACE payload, nlmsg_type = 0, nlmsg_seq = 0, nlmsg_pid = pid,
               nlmsg_data = replicate (NLMSG_SPACE payload - NLMSG_HDRLEN) zero \<rparr>, s\<lparr> u_blocks := u_blocks s + 1 \<rparr>)
      else None)"

text \<open>\<^verbatim>\<open>recvmsg\<close> overwrites the front of the buffer and cuts a message that is too long.\<close>

definition recv_data :: "'c list \<Rightarrow> 'c nlmsg \<Rightarrow> 'c list" where
  "recv_data buf m = take (length buf) (nlmsg_data m) @ drop (length (nlmsg_data m)) buf"

definition recvmsg :: "'c nlmsg \<Rightarrow> 'c nlmsg option \<Rightarrow> 'c nlmsg" where
  "recvmsg nlh m = (case m of None \<Rightarrow> nlh | Some m \<Rightarrow> m\<lparr> nlmsg_data := recv_data (nlmsg_data nlh) m \<rparr>)"

text \<open>Subscribing to the multicast group; the three programs with this function differ in the
  protocol only.\<close>

abbreviation (input) NETLINK_USERSOCK :: nat where "NETLINK_USERSOCK \<equiv> 2"
abbreviation (input) NETLINK_USER :: nat where "NETLINK_USER \<equiv> 31"
abbreviation (input) MYMGRP :: nat where "MYMGRP \<equiv> 21"

definition open_group :: "nat \<Rightarrow> int \<Rightarrow> bool \<Rightarrow> bool \<Rightarrow> 'c user_state \<Rightarrow> int \<times> 'c user_state" where
  "open_group proto sock bind_ok opt_ok s =
     (let s = open_sock sock s
      in if sock < 0 then (sock, show_out (Say ''sock < 0.'') s)
         else if \<not> bind_ok then (- 1, show_out (Say ''bind < 0.'') s)
         else if \<not> opt_ok then (- 1, show_out (Say ''setsockopt < 0'') s)
         else (sock, s\<lparr> u_groups := (sock, proto, MYMGRP) # u_groups s \<rparr>))"

section \<open>The unicast program\<close>

definition unicast_main ::
    "int \<Rightarrow> bool \<Rightarrow> int \<Rightarrow> char nlmsg option \<Rightarrow> char user_state \<Rightarrow> (int \<times> char user_state) option" where
  "unicast_main sock malloc_ok pid reply s = do {
     let s = open_sock sock s;
     if sock < 0 then Some (- 1, s)
     else do {
       (nlh, s) \<leftarrow> message_buffer malloc_ok 1024 NUL pid s;
       data \<leftarrow> strcpy_text (nlmsg_data nlh) ''Hello'';
       let nlh = nlh\<lparr> nlmsg_data := data \<rparr>;
       let s = show_out (Say ''Sending message to kernel'') s;
       let s = s\<lparr> u_sent := u_sent s @ [nlh] \<rparr>;
       let s = show_out (Say ''Waiting for message from kernel'') s;
       let nlh = recvmsg nlh reply;
       t \<leftarrow> print_s (nlmsg_data nlh);
       let s = show_out (Show_text ''Received message payload: '' t) s;
       Some (0, close_sock sock s) } }"

section \<open>The multicast program\<close>

definition open_netlink :: "int \<Rightarrow> bool \<Rightarrow> bool \<Rightarrow> 'c user_state \<Rightarrow> int \<times> 'c user_state" where
  "open_netlink sock bind_ok opt_ok s = open_group NETLINK_USERSOCK sock bind_ok opt_ok s"

text \<open>\<open>stack\<close> is what the array \<^verbatim>\<open>buffer\<close> holds behind the place of the header.\<close>

definition read_event :: "string \<Rightarrow> char nlmsg option \<Rightarrow> char user_state \<Rightarrow> char user_state option" where
  "read_event stack m s = do {
     let s = show_out (Say ''Ok, listening.'') s;
     case m of
       None \<Rightarrow> Some (show_out (Say ''ret < 0.'') s)
     | Some m \<Rightarrow> do {
         t \<leftarrow> print_s (recv_data stack m);
         Some (show_out (Show_text ''Received message payload: '' t) s) } }"

fun read_events :: "(string \<times> char nlmsg option) list \<Rightarrow> char user_state \<Rightarrow> char user_state option" where
  "read_events [] s = Some s"
| "read_events ((stack, m) # ms) s = do { s \<leftarrow> read_event stack m s; read_events ms s }"

text \<open>The result is the status, or \<open>None\<close> while the program is still listening.\<close>

definition multicast_main ::
    "int \<Rightarrow> bool \<Rightarrow> bool \<Rightarrow> (string \<times> char nlmsg option) list \<Rightarrow> char user_state \<Rightarrow> (int option \<times> char user_state) option" where
  "multicast_main sock bind_ok opt_ok ms s =
     (let (nls, s) = open_netlink sock bind_ok opt_ok s
      in if nls < 0 then Some (Some nls, s) else map_option (Pair None) (read_events ms s))"

section \<open>The program with both\<close>

text \<open>The message header \<^verbatim>\<open>msg1\<close> for the answer is never set: by chance it describes no buffer, or
  it makes \<^verbatim>\<open>recvmsg\<close> write to an arbitrary place.\<close>

datatype unset_msghdr = No_buffer | Wild_buffer

definition registration_kernel_mix ::
    "int \<Rightarrow> bool \<Rightarrow> int \<Rightarrow> unset_msghdr \<Rightarrow> char nlmsg option \<Rightarrow> char user_state \<Rightarrow> (int \<times> char user_state) option" where
  "registration_kernel_mix sock malloc_ok pid msg1 reply s = do {
     let s = open_sock sock s;
     if sock < 0 then Some (- 1, s)
     else do {
       (nlh, s) \<leftarrow> message_buffer malloc_ok 1024 NUL pid s;
       data \<leftarrow> strcpy_text (nlmsg_data nlh) ''Hello'';
       let nlh = nlh\<lparr> nlmsg_data := data \<rparr>;
       let s = show_out (Say ''Sending message to kernel'') s;
       let s = s\<lparr> u_sent := u_sent s @ [nlh] \<rparr>;
       let s = show_out (Say ''Waiting for message from kernel'') s;
       _ \<leftarrow> (if msg1 = Wild_buffer \<and> reply \<noteq> None then None else Some ());
       t \<leftarrow> print_s (nlmsg_data nlh);
       let s = show_out (Show_text ''Received message payload: '' t) s;
       Some (0, close_sock sock s) } }"

definition open_netlink_mulicast :: "int \<Rightarrow> bool \<Rightarrow> bool \<Rightarrow> 'c user_state \<Rightarrow> int \<times> 'c user_state" where
  "open_netlink_mulicast sock bind_ok opt_ok s = open_group NETLINK_USER sock bind_ok opt_ok s"

definition read_event_from_kernel :: "string \<Rightarrow> char nlmsg option \<Rightarrow> char user_state \<Rightarrow> char user_state option" where
  "read_event_from_kernel buffer m s = do {
     let s = show_out (Say ''Ok, listening.'') s;
     case m of
       None \<Rightarrow> Some (show_out (Say ''ret < 0.'') s)
     | Some m \<Rightarrow> do {
         t \<leftarrow> print_s (recv_data buffer m);
         Some (show_out (Show_text ''Received message payload: '' t) s) } }"

fun read_events_mix :: "(string \<times> char nlmsg option) list \<Rightarrow> char user_state \<Rightarrow> char user_state option" where
  "read_events_mix [] s = Some s"
| "read_events_mix ((buffer, m) # ms) s = do { s \<leftarrow> read_event_from_kernel buffer m s; read_events_mix ms s }"

definition mix_main ::
    "int \<Rightarrow> bool \<Rightarrow> int \<Rightarrow> unset_msghdr \<Rightarrow> char nlmsg option \<Rightarrow> int \<Rightarrow> bool \<Rightarrow> bool \<Rightarrow>
     (string \<times> char nlmsg option) list \<Rightarrow> char user_state \<Rightarrow> (int option \<times> char user_state) option" where
  "mix_main sock1 malloc_ok pid msg1 reply sock2 bind_ok opt_ok ms s = do {
     (nls, s) \<leftarrow> registration_kernel_mix sock1 malloc_ok pid msg1 reply s;
     if nls < 0 then Some (Some nls, s)
     else do {
       let (nls, s) = open_netlink_mulicast sock2 bind_ok opt_ok s;
       if nls < 0 then Some (Some nls, s) else map_option (Pair None) (read_events_mix ms s) } }"

section \<open>The program that sends a structure\<close>

definition print_bytes :: "byte list \<Rightarrow> string option" where
  "print_bytes bs = print_s (map (\<lambda>b. char_of (unat b)) bs)"

definition show_response :: "response \<Rightarrow> byte user_state \<Rightarrow> byte user_state option" where
  "show_response r s = do {
     let s = show_out (Show_num ''index '' (sint (r_index r))) s;
     let s = show_out (Show_num ''dataSize '' (sint (r_dataSize r))) s;
     t \<leftarrow> print_bytes (r_data r);
     let s = show_out (Show_text ''data: '' t) s;
     let s = show_out (Show_num ''test2 '' (sint (r_test2 r))) s;
     let s = show_out (Show_num ''test3 '' (sint (r_test3 r))) s;
     Some (show_out (Show_num ''test4 '' (sint (r_test4 r))) s) }"

definition registration_kernel ::
    "int \<Rightarrow> bool \<Rightarrow> int \<Rightarrow> byte list \<Rightarrow> byte nlmsg option \<Rightarrow> byte user_state \<Rightarrow> (int \<times> byte user_state) option" where
  "registration_kernel sock malloc_ok pid stack reply s = do {
     let s = open_sock sock s;
     if sock < 0 then Some (- 1, s)
     else do {
       (nlh, s) \<leftarrow> message_buffer malloc_ok 8192 0 pid s;
       let p = user_message stack;
       let s = show_out (Say ''Sending to Kernel:'') s;
       s \<leftarrow> show_response p s;
       let nlh = nlh\<lparr> nlmsg_data := response_bytes p @ drop sizeof_Response (nlmsg_data nlh) \<rparr>;
       let s = show_out (Say ''Sending message to kernel'') s;
       let s = s\<lparr> u_sent := u_sent s @ [nlh] \<rparr>;
       let s = show_out (Say ''Waiting for message from kernel'') s;
       let nlh = recvmsg nlh reply;
       req \<leftarrow> response_of (nlmsg_data nlh);
       let s = show_out (Say ''Recieved from Kernel:'') s;
       s \<leftarrow> show_response req s;
       Some (0, close_sock sock s) } }"

definition open_netlink_mulicast_struct :: "int \<Rightarrow> bool \<Rightarrow> bool \<Rightarrow> 'c user_state \<Rightarrow> int \<times> 'c user_state" where
  "open_netlink_mulicast_struct sock bind_ok opt_ok s = open_group NETLINK_USER sock bind_ok opt_ok s"

definition read_event_struct ::
    "bool \<Rightarrow> int \<Rightarrow> byte nlmsg option \<Rightarrow> byte user_state \<Rightarrow> byte user_state option" where
  "read_event_struct malloc_ok pid m s = do {
     (nlh, s) \<leftarrow> message_buffer malloc_ok 8192 0 pid s;
     let s = show_out (Say ''Ok, listening.'') s;
     let nlh = recvmsg nlh m;
     let s = (if m = None then show_out (Say ''ret < 0.'') s else s);
     t \<leftarrow> print_bytes (take 1024 (nlmsg_data nlh));
     let s = show_out (Show_text ''DATA1: '' t) s;
     t \<leftarrow> print_bytes (take 1024 (drop 1024 (nlmsg_data nlh)));
     Some (show_out (Show_text ''DATA2: '' t) s) }"

fun read_events_struct :: "int \<Rightarrow> (bool \<times> byte nlmsg option) list \<Rightarrow> byte user_state \<Rightarrow> byte user_state option" where
  "read_events_struct pid [] s = Some s"
| "read_events_struct pid ((malloc_ok, m) # ms) s = do { s \<leftarrow> read_event_struct malloc_ok pid m s; read_events_struct pid ms s }"

definition struct_main ::
    "int \<Rightarrow> bool \<Rightarrow> int \<Rightarrow> byte list \<Rightarrow> byte nlmsg option \<Rightarrow> int \<Rightarrow> bool \<Rightarrow> bool \<Rightarrow>
     (bool \<times> byte nlmsg option) list \<Rightarrow> byte user_state \<Rightarrow> (int option \<times> byte user_state) option" where
  "struct_main sock1 malloc_ok pid stack reply sock2 bind_ok opt_ok ms s = do {
     (nls, s) \<leftarrow> registration_kernel sock1 malloc_ok pid stack reply s;
     if nls < 0 then Some (Some nls, s)
     else do {
       let (nls, s) = open_netlink_mulicast_struct sock2 bind_ok opt_ok s;
       if nls < 0 then Some (Some nls, s) else map_option (Pair None) (read_events_struct pid ms s) } }"

section \<open>Lemmas\<close>

definition hello_request :: "int \<Rightarrow> char nlmsg" where
  "hello_request pid = \<lparr> nlmsg_len = 1040, nlmsg_type = 0, nlmsg_seq = 0, nlmsg_pid = pid,
     nlmsg_data = ''Hello'' @ NUL # replicate 1018 NUL \<rparr>"

lemma hello_request_made:
  "message_buffer True 1024 NUL pid s = Some ((hello_request pid)\<lparr> nlmsg_data := replicate 1024 NUL \<rparr>, s\<lparr> u_blocks := u_blocks s + 1 \<rparr>)"
  "strcpy_text (replicate 1024 NUL) ''Hello'' = Some (nlmsg_data (hello_request pid))"
  "(hello_request pid)\<lparr> nlmsg_data := nlmsg_data (hello_request pid) \<rparr> = hello_request pid"
  by (simp_all add: message_buffer_def hello_request_def NLMSG_SPACE_def NLMSG_ALIGN_def strcpy_text_def)

lemma print_hello_request: "print_s (nlmsg_data (hello_request pid)) = Some ''Hello''"
  unfolding hello_request_def nlmsg.simps by (rule print_s_terminated) simp

lemma show_out_simps [simp]:
  "u_socks (show_out x s) = u_socks s" "u_groups (show_out x s) = u_groups s" "u_blocks (show_out x s) = u_blocks s"
  "u_sent (show_out x s) = u_sent s" "u_out (show_out x s) = u_out s @ [x]"
  by (simp_all add: show_out_def)

lemma print_received:
  assumes "nlmsg_data m = t @ NUL # r" and "NUL \<notin> set t" and "length t < length buf"
  shows "print_s (recv_data buf m) = Some t"
proof -
  have "recv_data buf m = t @ NUL # take (length buf - Suc (length t)) r @ drop (Suc (length t + length r)) buf"
    using assms(1,3) by (simp add: recv_data_def take_Cons')
  then show ?thesis using assms(2) by simp
qed

lemmas print_hello =
  print_received [of hello_answer hello_kernel "[NUL, NUL]"] print_received [of "hello_multicast stale" hello_kernel "[stale 18, NUL]" for stale]

lemma unicast_main_effect:
  assumes "0 \<le> sock"
  shows "unicast_main sock True pid reply s = do {
     t \<leftarrow> print_s (nlmsg_data (recvmsg (hello_request pid) reply));
     Some (0, s\<lparr> u_blocks := u_blocks s + 1, u_sent := u_sent s @ [hello_request pid],
       u_out := u_out s @ [Say ''Sending message to kernel'', Say ''Waiting for message from kernel'',
         Show_text ''Received message payload: '' t] \<rparr>) }"
  using assms
  by (simp add: unicast_main_def hello_request_made [of pid] open_sock_def close_sock_def show_out_def Let_def)

lemma registration_kernel_mix_effect:
  assumes "0 \<le> sock"
  shows "registration_kernel_mix sock True pid msg1 reply s =
     (if msg1 = Wild_buffer \<and> reply \<noteq> None then None
      else Some (0, s\<lparr> u_blocks := u_blocks s + 1, u_sent := u_sent s @ [hello_request pid],
       u_out := u_out s @ [Say ''Sending message to kernel'', Say ''Waiting for message from kernel'',
         Show_text ''Received message payload: '' ''Hello''] \<rparr>))"
  using assms
  by (simp add: registration_kernel_mix_def hello_request_made [of pid] print_hello_request open_sock_def close_sock_def show_out_def
      Let_def)

lemma byte_of_char: "char_of (unat (of_nat (of_char c) :: byte)) = c"
proof -
  have "(of_char c :: nat) < 256" by (rule nat_of_char_less_256)
  then show ?thesis by (simp add: unat_of_nat take_bit_nat_eq_self)
qed

lemma char_of_0: "char_of (0 :: nat) = NUL"
  by (simp add: char_of_def)

lemma print_strcpy: "NUL \<notin> set t \<Longrightarrow> print_bytes (strcpy buf t) = Some t"
  by (simp add: print_bytes_def strcpy_def bytes_of_string_def byte_of_char char_of_0 comp_def)

text \<open>What the structure program prints of a response whose text is terminated.\<close>

definition response_shown :: "response \<Rightarrow> string \<Rightarrow> shown list" where
  "response_shown r t = [Show_num ''index '' (sint (r_index r)), Show_num ''dataSize '' (sint (r_dataSize r)), Show_text ''data: '' t,
     Show_num ''test2 '' (sint (r_test2 r)), Show_num ''test3 '' (sint (r_test3 r)), Show_num ''test4 '' (sint (r_test4 r))]"

lemma show_response_effect:
  "print_bytes (r_data r) = Some t \<Longrightarrow> show_response r s = Some (s\<lparr> u_out := u_out s @ response_shown r t \<rparr>)"
  by (simp add: show_response_def show_out_def response_shown_def Let_def)

lemma user_buffer_8192: "message_buffer True 8192 0 pid s =
   Some (\<lparr> nlmsg_len = 8208, nlmsg_type = 0, nlmsg_seq = 0, nlmsg_pid = pid, nlmsg_data = replicate 8192 0 \<rparr>, s\<lparr> u_blocks := u_blocks s + 1 \<rparr>)"
  by (simp add: message_buffer_def NLMSG_SPACE_def NLMSG_ALIGN_def)

lemma registration_kernel_effect:
  assumes "0 \<le> sock" and "length stack = 4096" and "length (r_data r) = 4096" and "print_bytes (r_data r) = Some t"
    and "nlmsg_data m = response_bytes r"
  shows "\<exists>s' front nlh. registration_kernel sock True pid stack (Some m) s = Some (0, s') \<and> u_socks s' = u_socks s \<and>
    u_sent s' = u_sent s @ [nlh] \<and> nlmsg_data nlh = user_payload stack \<and>
    u_out s' = front @ Say ''Recieved from Kernel:'' # response_shown r t"
proof -
  have p: "print_bytes (r_data (user_message stack)) = Some ''Data from User''"
    by (simp add: user_message_def print_strcpy)
  have data: "length (r_data (user_message stack)) = 4096"
    using assms(2) by (simp add: user_message_def length_strcpy)
  have sent: "response_bytes (user_message stack) @ replicate 4076 0 = user_payload stack"
    by (simp add: user_payload_def)
  have "recv_data (user_payload stack) m = response_bytes r @ drop sizeof_Response (user_payload stack)"
    using assms(5) length_response_bytes [OF assms(3)] length_response_bytes [OF data] by (simp add: recv_data_def user_payload_def)
  then have "response_of (recv_data (user_payload stack) m) = Some r"
    using response_round_trip [OF assms(3)] by simp
  then have "\<exists>s' nlh. registration_kernel sock True pid stack (Some m) s = Some (0, s') \<and> u_socks s' = u_socks s \<and>
    u_sent s' = u_sent s @ [nlh] \<and> nlmsg_data nlh = user_payload stack \<and>
    u_out s' = (u_out s @ Say ''Sending to Kernel:'' # response_shown (user_message stack) ''Data from User'' @
      [Say ''Sending message to kernel'', Say ''Waiting for message from kernel'']) @ Say ''Recieved from Kernel:'' # response_shown r t"
    using assms(1)
    by (simp add: registration_kernel_def user_buffer_8192 show_response_effect [OF p] show_response_effect [OF assms(4)] sent
        recvmsg_def open_sock_def close_sock_def show_out_def Let_def)
  then show ?thesis by metis
qed

section \<open>Properties\<close>

text \<open>
  C36: The text examples deliver, whatever uninitialised memory holds. The module that multicasts
  puts a message on the wire of which every listener prints exactly the kernel's text. In the
  unicast example the request is logged by the kernel as the program wrote it, and the program
  prints exactly the kernel's text from the answer and closes its socket; but if receiving fails
  it prints its own request as the answer.
\<close>

theorem netlink_text_delivery:
  assumes "0 \<le> sock" and "length stack = 65520"
  shows "(\<exists>k' m s'. send_to_user True True stale k = Some k' \<and> tx_multicast k' = tx_multicast k @ [m] \<and>
      read_event stack (Some m) s = Some s' \<and> last (u_out s') = Show_text ''Received message payload: '' hello_kernel) \<and>
    (\<exists>k' m s'. hello_nl_recv_msg True True stale (hello_request pid) k = Some k' \<and>
      last (tx_log k') = ''Netlink received msg payload:Hello'' \<and> tx_unicast k' = tx_unicast k @ [(pid, m)] \<and>
      unicast_main sock True pid (Some m) s = Some (0, s') \<and> u_sent s' = u_sent s @ [hello_request pid] \<and>
      last (u_out s') = Show_text ''Received message payload: '' hello_kernel \<and> u_socks s' = u_socks s) \<and>
    (\<exists>s'. unicast_main sock True pid None s = Some (0, s') \<and> last (u_out s') = Show_text ''Received message payload: '' ''Hello'')"
proof (intro conjI)
  have "print_s (recv_data stack (hello_multicast stale)) = Some hello_kernel"
    using assms(2) hello_kernel_no_nul
    by (intro print_hello) (simp_all add: hello_multicast_def length_hello_kernel)
  then show "\<exists>k' m s'. send_to_user True True stale k = Some k' \<and> tx_multicast k' = tx_multicast k @ [m] \<and>
      read_event stack (Some m) s = Some s' \<and> last (u_out s') = Show_text ''Received message payload: '' hello_kernel"
    by (simp add: send_to_user_effect read_event_def tx_print_def Let_def)
next
  have "print_s (recv_data (nlmsg_data (hello_request pid)) hello_answer) = Some hello_kernel"
    using hello_kernel_no_nul
    by (intro print_hello) (simp_all add: hello_answer_def hello_request_def length_hello_kernel)
  then show "\<exists>k' m s'. hello_nl_recv_msg True True stale (hello_request pid) k = Some k' \<and>
      last (tx_log k') = ''Netlink received msg payload:Hello'' \<and> tx_unicast k' = tx_unicast k @ [(pid, m)] \<and>
      unicast_main sock True pid (Some m) s = Some (0, s') \<and> u_sent s' = u_sent s @ [hello_request pid] \<and>
      last (u_out s') = Show_text ''Received message payload: '' hello_kernel \<and> u_socks s' = u_socks s"
    by (simp add: hello_nl_recv_msg_effect print_hello_request unicast_main_effect [OF assms(1)] recvmsg_def tx_print_def Let_def)
      (simp add: hello_request_def)
next
  show "\<exists>s'. unicast_main sock True pid None s = Some (0, s') \<and> last (u_out s') = Show_text ''Received message payload: '' ''Hello''"
    by (simp add: unicast_main_effect [OF assms(1)] recvmsg_def print_hello_request)
qed

definition idle_text :: text_state where
  "idle_text = \<lparr> tx_sk = True, tx_thread = NT_null, tx_unicast = [], tx_multicast = [], tx_log = [] \<rparr>"

definition idle_user :: "'c user_state" where
  "idle_user = \<lparr> u_socks = [], u_groups = [], u_blocks = 0, u_sent = [], u_out = [] \<rparr>"

theorem netlink_text_delivery_witness:
  "\<exists>k' m s'. send_to_user True True (\<lambda>_. CHR ''z'') idle_text = Some k' \<and> tx_multicast k' = [m] \<and>
     read_event (replicate 65520 (CHR ''y'')) (Some m) idle_user = Some s' \<and>
     last (u_out s') = Show_text ''Received message payload: '' hello_kernel"
  using netlink_text_delivery [of 3 "replicate 65520 (CHR ''y'')" "\<lambda>_. CHR ''z''" idle_text idle_user 1]
  by (simp add: idle_text_def)

text \<open>
  In the program with both kinds of messages the kernel's answer is never shown: the header for
  receiving it is not set, so that, whatever the answer, the program either writes to an
  arbitrary place or prints its own request as the message received. And if subscribing to the
  group fails, the program ends with its socket still open.
\<close>

theorem mix_registration_never_shows_answer:
  assumes "0 \<le> sock" and "0 \<le> sock2"
  shows "(registration_kernel_mix sock True pid Wild_buffer (Some m) s = None) \<and>
    (\<exists>s'. registration_kernel_mix sock True pid No_buffer reply s = Some (0, s') \<and>
       last (u_out s') = Show_text ''Received message payload: '' ''Hello'' \<and> u_socks s' = u_socks s) \<and>
    (\<not> (bind_ok \<and> opt_ok) \<longrightarrow> (\<exists>s'. mix_main sock True pid No_buffer reply sock2 bind_ok opt_ok ms s = Some (Some (- 1), s') \<and>
       u_socks s' = sock2 # u_socks s))"
  using assms
  by (auto simp: registration_kernel_mix_effect mix_main_def open_netlink_mulicast_def open_group_def open_sock_def Let_def)

theorem mix_registration_never_shows_answer_witness:
  "\<exists>s'. mix_main 3 True 1 No_buffer (Some hello_answer) 4 True False [] idle_user = Some (Some (- 1), s') \<and> u_socks s' = [4]"
  using mix_registration_never_shows_answer [of 3 4 1 hello_answer idle_user "Some hello_answer" True False "[]"]
  by (simp add: idle_user_def)

text \<open>
  C35: The structure exchange from end to end: the kernel module understands the message that the
  program sends and answers it, and from this answer the program shows the numbers of its own
  message times 100 and the kernel's text, whatever the stack held before, and closes its socket.
\<close>

theorem netlink_struct_exchange:
  assumes "0 \<le> sock" and "length stack = 4096"
  shows "\<exists>k' bs. callback_invoked_connect_userspace True True run_ok pid (user_payload stack) k = Some k' \<and>
    nl_unicast k' = nl_unicast k @ [(pid, bs)] \<and>
    (\<forall>m. nlmsg_data m = bs \<longrightarrow>
      (\<exists>s' front nlh. registration_kernel sock True pid stack (Some m) s = Some (0, s') \<and> u_socks s' = u_socks s \<and>
        u_sent s' = u_sent s @ [nlh] \<and> nlmsg_data nlh = user_payload stack \<and>
        u_out s' = front @ [Say ''Recieved from Kernel:'', Show_num ''index '' 100, Show_num ''dataSize '' 200,
          Show_text ''data: '' ''Data from Kernel'', Show_num ''test2 '' 300, Show_num ''test3 '' 400, Show_num ''test4 '' 500]))"
proof -
  let ?r = "times_100 (user_message stack)"
  have data: "length (r_data (user_message stack)) = 4096"
    using assms(2) by (simp add: user_message_def length_strcpy)
  have call: "callback_invoked_connect_userspace True True run_ok pid (user_payload stack) k =
      Some ((if netlinkThread k = NT_null then k\<lparr> netlinkThread := if run_ok then NT_running else NT_error \<rparr> else k)
        \<lparr> nl_unicast := nl_unicast k @ [(pid, response_bytes ?r)] \<rparr>)"
    using response_round_trip [OF data]
    by (simp add: callback_invoked_connect_userspace_def user_payload_def Let_def)
  have r: "length (r_data ?r) = 4096" "print_bytes (r_data ?r) = Some ''Data from Kernel''"
    using times_100_data [OF data] by (simp_all add: times_100_def print_strcpy)
  have "response_shown ?r ''Data from Kernel'' = [Show_num ''index '' 100, Show_num ''dataSize '' 200,
      Show_text ''data: '' ''Data from Kernel'', Show_num ''test2 '' 300, Show_num ''test3 '' 400, Show_num ''test4 '' 500]"
    by (simp add: response_shown_def times_100_def user_message_def)
  with registration_kernel_effect [OF assms r] have
    "\<forall>m. nlmsg_data m = response_bytes ?r \<longrightarrow>
      (\<exists>s' front nlh. registration_kernel sock True pid stack (Some m) s = Some (0, s') \<and> u_socks s' = u_socks s \<and>
        u_sent s' = u_sent s @ [nlh] \<and> nlmsg_data nlh = user_payload stack \<and>
        u_out s' = front @ [Say ''Recieved from Kernel:'', Show_num ''index '' 100, Show_num ''dataSize '' 200,
          Show_text ''data: '' ''Data from Kernel'', Show_num ''test2 '' 300, Show_num ''test3 '' 400, Show_num ''test4 '' 500])"
    by (metis (no_types, lifting))
  then show ?thesis using call by simp
qed

theorem netlink_struct_exchange_witness:
  "\<exists>k' bs. callback_invoked_connect_userspace True True True 7 (user_payload (replicate 4096 255)) idle_netlink = Some k' \<and>
     nl_unicast k' = [(7, bs)] \<and>
     (\<exists>s'. registration_kernel 3 True 7 (replicate 4096 255)
        (Some \<lparr> nlmsg_len = 4132, nlmsg_type = 3, nlmsg_seq = 0, nlmsg_pid = 0, nlmsg_data = bs \<rparr>) idle_user = Some (0, s') \<and>
        last (u_out s') = Show_num ''test4 '' 500)"
proof -
  obtain k' bs where k': "callback_invoked_connect_userspace True True True 7 (user_payload (replicate 4096 255)) idle_netlink = Some k'"
      "nl_unicast k' = nl_unicast idle_netlink @ [(7, bs)]"
    and m: "\<forall>m. nlmsg_data m = bs \<longrightarrow>
      (\<exists>s' front nlh. registration_kernel 3 True 7 (replicate 4096 255) (Some m) idle_user = Some (0, s') \<and> u_socks s' = u_socks (idle_user :: byte user_state) \<and>
        u_sent s' = u_sent idle_user @ [nlh] \<and> nlmsg_data nlh = user_payload (replicate 4096 255) \<and>
        u_out s' = front @ [Say ''Recieved from Kernel:'', Show_num ''index '' 100, Show_num ''dataSize '' 200,
          Show_text ''data: '' ''Data from Kernel'', Show_num ''test2 '' 300, Show_num ''test3 '' 400, Show_num ''test4 '' 500])"
    using netlink_struct_exchange [of 3 "replicate 4096 255" True 7 idle_netlink idle_user, OF zero_le_numeral length_replicate]
    by blast
  let ?m = "\<lparr> nlmsg_len = 4132, nlmsg_type = 3, nlmsg_seq = 0, nlmsg_pid = 0, nlmsg_data = bs \<rparr>"
  obtain s' front where "registration_kernel 3 True 7 (replicate 4096 255) (Some ?m) idle_user = Some (0, s')"
      "u_out s' = front @ [Say ''Recieved from Kernel:'', Show_num ''index '' 100, Show_num ''dataSize '' 200,
          Show_text ''data: '' ''Data from Kernel'', Show_num ''test2 '' 300, Show_num ''test3 '' 400, Show_num ''test4 '' 500]"
    using m [rule_format, of ?m] by auto
  then show ?thesis using k' by (auto simp: idle_netlink_def)
qed

text \<open>
  The multicast part of the structure example: the listener prints both texts of the kernel, but
  it allocates a message for every event and frees none.
\<close>

lemma read_event_struct_effect:
  assumes "length stale = 2048" and "nlmsg_data m = multicast_bytes stale"
  shows "read_event_struct True pid (Some m) s =
    Some (s\<lparr> u_blocks := u_blocks s + 1, u_out := u_out s @ [Say ''Ok, listening.'',
      Show_text ''DATA1: '' ''Hello From Kernel'', Show_text ''DATA2: '' ''World of NetLink''] \<rparr>)"
proof -
  let ?a = "strcpy (take 1024 stale) ''Hello From Kernel''" let ?b = "strcpy (take 1024 (drop 1024 stale)) ''World of NetLink''"
  have len: "length ?a = 1024" "length ?b = 1024" using assms(1) by (simp_all add: length_strcpy)
  then have "recv_data (replicate 8192 0) m = ?a @ ?b @ replicate 6144 0"
    using assms(2) by (simp add: recv_data_def multicast_bytes_def)
  then show ?thesis using len
    by (simp add: read_event_struct_def user_buffer_8192 recvmsg_def print_strcpy show_out_def Let_def)
qed

lemma read_events_struct_leak:
  assumes "\<forall>(malloc_ok, m)\<in>set ms. malloc_ok \<and> (\<exists>stale msg. length stale = 2048 \<and> m = Some msg \<and> nlmsg_data msg = multicast_bytes stale)"
  shows "\<exists>s'. read_events_struct pid ms s = Some s' \<and> u_blocks s' = u_blocks s + length ms"
  using assms
proof (induction ms arbitrary: s)
  case (Cons x ms)
  then obtain stale msg where x: "x = (True, Some msg)" "length stale = 2048" "nlmsg_data msg = multicast_bytes stale"
    by (cases x) auto
  let ?s1 = "s\<lparr> u_blocks := u_blocks s + 1, u_out := u_out s @ [Say ''Ok, listening.'',
      Show_text ''DATA1: '' ''Hello From Kernel'', Show_text ''DATA2: '' ''World of NetLink''] \<rparr>"
  obtain s' where "read_events_struct pid ms ?s1 = Some s'" "u_blocks s' = u_blocks ?s1 + length ms"
    using Cons.IH [of ?s1] Cons.prems by auto
  then show ?case using x by (simp add: read_event_struct_effect [OF x(2,3)])
qed simp

section \<open>Well-formed messages\<close>

text \<open>What the three text modules can do, in any order.\<close>

inductive text_step :: "text_state \<Rightarrow> text_state \<Rightarrow> bool" where
  unicast_recv: "hello_nl_recv_msg skb_ok unicast_ok stale nlh s = Some s' \<Longrightarrow> text_step s s'"
| unicast_init: "hello_init_unicast create_ok s = (r, s') \<Longrightarrow> text_step s s'"
| unicast_exit: "hello_exit_unicast s = Some s' \<Longrightarrow> text_step s s'"
| multicast_init: "hello_init_multicast create_ok skb_ok sent_ok stale s = Some (r, s') \<Longrightarrow> text_step s s'"
| multicast_exit: "text_step s (hello_exit_multicast s)"
| mix_recv: "callback_mix skb_ok unicast_ok run_ok stale nlh s = Some s' \<Longrightarrow> text_step s s'"
| mix_round: "multicast_round skb_ok sent_ok stale stop s = Some s' \<Longrightarrow> text_step s s'"
| mix_init: "netlink_test_init_mix create_ok s = (r, s') \<Longrightarrow> text_step s s'"
| mix_exit: "netlink_test_exit_mix skb_ok sent_ok stale window s = Some s' \<Longrightarrow> text_step s s'"

definition terminated :: "char nlmsg \<Rightarrow> bool" where
  "terminated m \<longleftrightarrow> print_s (nlmsg_data m) = Some hello_kernel"

definition wire_typed :: "text_state \<Rightarrow> bool" where
  "wire_typed s \<longleftrightarrow> (\<forall>(pid, m)\<in>set (tx_unicast s). nlmsg_ok m \<and> terminated m) \<and> (\<forall>m\<in>set (tx_multicast s). nlmsg_ok m \<and> terminated m)"

lemma hello_terminated: "terminated hello_answer" "terminated (hello_multicast stale)"
  using hello_kernel_no_nul by (simp_all add: terminated_def hello_answer_def hello_multicast_def)

lemma wire_typed_simps [simp]:
  "wire_typed (tx_print t s) \<longleftrightarrow> wire_typed s"
  "wire_typed (s\<lparr> tx_thread := x \<rparr>) \<longleftrightarrow> wire_typed s"
  "wire_typed (s\<lparr> tx_sk := y \<rparr>) \<longleftrightarrow> wire_typed s"
  "tx_unicast k = tx_unicast s \<Longrightarrow> wire_typed (s\<lparr> tx_unicast := tx_unicast k @ [(p, hello_answer)] \<rparr>) \<longleftrightarrow> wire_typed s"
  "tx_multicast k = tx_multicast s \<Longrightarrow>
   wire_typed (s\<lparr> tx_multicast := tx_multicast k @ [hello_multicast stale] \<rparr>) \<longleftrightarrow> wire_typed s"
  "tx_unicast (tx_print t s) = tx_unicast s" "tx_multicast (tx_print t s) = tx_multicast s"
  by (auto simp: wire_typed_def tx_print_def hello_terminated hello_messages_ok)

lemma recv_typed: "hello_nl_recv_msg skb_ok unicast_ok stale nlh s = Some s' \<Longrightarrow> wire_typed s \<Longrightarrow> wire_typed s'"
  by (cases "print_s (nlmsg_data nlh)") (auto simp: hello_nl_recv_msg_effect Let_def split: if_splits)

lemma send_typed: "send_to_user skb_ok sent_ok stale s = Some s' \<Longrightarrow> wire_typed s \<Longrightarrow> wire_typed s'"
  by (auto simp: send_to_user_effect Let_def split: if_splits)

lemma round_typed: "multicast_round skb_ok sent_ok stale stop s = Some s' \<Longrightarrow> wire_typed s \<Longrightarrow> wire_typed s'"
  by (auto simp: multicast_round_effect Let_def split: if_splits)

lemma release_typed: "netlink_kernel_release s = Some s' \<Longrightarrow> wire_typed s \<Longrightarrow> wire_typed s'"
  by (auto simp: netlink_kernel_release_def split: if_splits)

lemma callback_mix_typed: "callback_mix skb_ok unicast_ok run_ok stale nlh s = Some s' \<Longrightarrow> wire_typed s \<Longrightarrow> wire_typed s'"
  by (auto simp: callback_mix_unicast start_multicast_def dest!: recv_typed split: if_splits)

lemma mix_window_typed: "mix_window es s = Some s' \<Longrightarrow> wire_typed s \<Longrightarrow> wire_typed s'"
proof (induction es s rule: mix_window.induct)
  case (2 skb_ok unicast_ok run_ok stale nlh es s)
  then show ?case by (auto simp: bind_eq_Some_conv' dest: callback_mix_typed)
next
  case (3 skb_ok sent_ok stale es s)
  then show ?case by (auto simp: bind_eq_Some_conv' dest: round_typed)
qed simp

lemma text_step_typed: "text_step s s' \<Longrightarrow> wire_typed s \<Longrightarrow> wire_typed s'"
proof (induction rule: text_step.induct)
  case (multicast_init create_ok skb_ok sent_ok stale s r s')
  then show ?case
    by (auto simp: hello_init_multicast_def bind_eq_Some_conv' Let_def dest!: send_typed release_typed split: if_splits)
next
  case (mix_recv skb_ok unicast_ok run_ok stale nlh s s')
  then show ?case by (rule callback_mix_typed)
next
  case (mix_exit skb_ok sent_ok stale window s s')
  then show ?case
    by (auto simp: netlink_test_exit_mix_def bind_eq_Some_conv' dest!: round_typed mix_window_typed release_typed
        split: if_splits nl_thread.splits)
qed (auto simp: hello_init_unicast_def hello_exit_unicast_def hello_exit_multicast_def netlink_test_init_mix_def Let_def
    dest!: recv_typed round_typed release_typed split: if_splits)

text \<open>
  C34: Message types are preserved: in every state that the text modules can reach, in whatever order
  their handlers, threads, loading and unloading run and whatever fails, every message that was
  ever handed to a socket has a header length that matches its payload, correct padding, and can
  be printed as the kernel's text without reading beyond it.
\<close>

theorem netlink_wire_typed:
  assumes "text_step\<^sup>*\<^sup>* s0 s" and "tx_unicast s0 = []" and "tx_multicast s0 = []"
  shows "(\<forall>(pid, m)\<in>set (tx_unicast s). nlmsg_ok m \<and> print_s (nlmsg_data m) = Some hello_kernel) \<and>
    (\<forall>m\<in>set (tx_multicast s). nlmsg_ok m \<and> print_s (nlmsg_data m) = Some hello_kernel)"
proof -
  have "wire_typed s0" using assms(2,3) by (simp add: wire_typed_def)
  with assms(1) have "wire_typed s" by induction (auto intro: text_step_typed)
  then show ?thesis by (auto simp: wire_typed_def terminated_def)
qed

theorem netlink_wire_typed_witness:
  "\<exists>s m. send_to_user True True (\<lambda>_. CHR ''q'') idle_text = Some s \<and> hello_init_multicast True True True (\<lambda>_. CHR ''q'') idle_text \<noteq> None \<and>
     text_step\<^sup>*\<^sup>* idle_text (s\<lparr> tx_sk := False \<rparr>) \<and> tx_multicast (s\<lparr> tx_sk := False \<rparr>) = [m] \<and> nlmsg_ok m"
proof -
  let ?s = "idle_text\<lparr> tx_multicast := [hello_multicast (\<lambda>_. CHR ''q'')],
    tx_log := [''Creating skb.'', ''Sending skb.'', ''Success.''] \<rparr>"
  have s: "send_to_user True True (\<lambda>_. CHR ''q'') idle_text = Some ?s"
    by (simp add: send_to_user_effect tx_print_def idle_text_def Let_def)
  then have i: "hello_init_multicast True True True (\<lambda>_. CHR ''q'') idle_text = Some (0, ?s\<lparr> tx_sk := False \<rparr>)"
    by (simp add: hello_init_multicast_def netlink_kernel_release_def idle_text_def Let_def)
  have step: "text_step\<^sup>*\<^sup>* idle_text (?s\<lparr> tx_sk := False \<rparr>)" using text_step.multicast_init [OF i] by blast
  have "nlmsg_ok (hello_multicast (\<lambda>_. CHR ''q''))"
    using netlink_wire_typed [OF step] by (simp add: idle_text_def)
  then show ?thesis using s i step by simp
qed

end
