(* ===== verification/Insmod.thy ===== *)
theory Insmod
  imports C_Strings
begin

text \<open>
  The user-space loader \<^verbatim>\<open>Userspace_InsmodCode/insmod_code.c\<close>: it reads a module image into
  a buffer that doubles when it is full, joins the remaining arguments to an option string
  and calls \<^verbatim>\<open>init_module\<close>. The operating system is a record of functions: what \<^verbatim>\<open>open\<close>,
  \<^verbatim>\<open>read\<close>, the allocator and \<^verbatim>\<open>init_module\<close> answer. The memory of the image is explicit, block
  by block, and a fault is a value of its own with the memory it happened in:
  \<open>Some (Inl (f, m))\<close> is the fault \<open>f\<close>, \<open>Some (Inr (x, m))\<close> a result, and \<open>None\<close> is left for a
  loop that does not end.
\<close>

section \<open>The operating system\<close>

record insmod_os =
  os_open :: "string option \<Rightarrow> byte list option"
  os_read :: "byte list \<Rightarrow> nat \<Rightarrow> nat \<Rightarrow> int"
  os_alloc :: "nat \<Rightarrow> bool"
  os_moves :: "nat \<Rightarrow> bool"
  os_stale :: "nat \<Rightarrow> byte"
  os_init_module :: "byte list \<Rightarrow> nat \<Rightarrow> string \<Rightarrow> int"
  os_errno :: int
  os_strerror :: "int \<Rightarrow> string"

text \<open>
  \<open>os_open name\<close> is the contents of the file, \<open>os_read file pos n\<close> the result of reading \<open>n\<close>
  bytes at \<open>pos\<close>. What \<^verbatim>\<open>read\<close> promises on a regular file: between one and \<open>n\<close> bytes, as long
  as there are any, and 0 at the end; a negative result is an error. \<open>os_alloc n\<close> tells whether
  a request of \<open>n\<close> bytes is granted, \<open>os_moves n\<close> whether \<^verbatim>\<open>realloc\<close> moves the block, and
  \<open>os_stale\<close> is what fresh memory holds.
\<close>

definition read_ok :: "insmod_os \<Rightarrow> byte list \<Rightarrow> bool" where
  "read_ok OS file \<longleftrightarrow> (\<forall>pos n. pos \<le> length file \<longrightarrow> 0 < n \<longrightarrow>
     os_read OS file pos n < 0 \<or>
     (if pos = length file then os_read OS file pos n = 0
      else 0 < os_read OS file pos n \<and> os_read OS file pos n \<le> int n \<and>
           os_read OS file pos n \<le> int (length file - pos)))"

definition read_never_fails :: "insmod_os \<Rightarrow> byte list \<Rightarrow> bool" where
  "read_never_fails OS file \<longleftrightarrow> (\<forall>pos n. 0 \<le> os_read OS file pos n)"

section \<open>Memory\<close>

text \<open>
  The blocks allocated for the image with their contents, the next fresh address, the sizes that
  were asked for, oldest first, and the number of open descriptors. The option string has a block
  of its own that main never shares, so it is kept beside this memory.
\<close>

record c_mem =
  mem_blocks :: "byte list heap"
  mem_next :: addr
  mem_requests :: "nat list"
  mem_fds :: nat

datatype c_fault = Double_free addr | Dead_block addr | Overflow

type_synonym 'a c_run = "c_fault \<times> c_mem + 'a \<times> c_mem"

definition start_mem :: c_mem where
  "start_mem = \<lparr> mem_blocks = Map.empty, mem_next = 1, mem_requests = [], mem_fds = 0 \<rparr>"

definition fresh_bytes :: "insmod_os \<Rightarrow> nat \<Rightarrow> nat \<Rightarrow> byte list" where
  "fresh_bytes OS a b = map (os_stale OS) [a..<b]"

definition c_malloc :: "insmod_os \<Rightarrow> nat \<Rightarrow> c_mem \<Rightarrow> addr option \<times> c_mem" where
  "c_malloc OS n m =
     (let m = m\<lparr>mem_requests := mem_requests m @ [n]\<rparr>
      in if os_alloc OS n
         then (Some (mem_next m), m\<lparr>mem_blocks := (mem_blocks m)(mem_next m \<mapsto> fresh_bytes OS 0 n),
                                    mem_next := mem_next m + 1\<rparr>)
         else (None, m))"

text \<open>\<^verbatim>\<open>free\<close>: releasing \<^verbatim>\<open>NULL\<close> does nothing, releasing a block that is not allocated is a fault.\<close>

fun c_free :: "addr option \<Rightarrow> c_mem \<Rightarrow> unit c_run" where
  "c_free None m = Inr ((), m)"
| "c_free (Some p) m =
     (case heap_free (mem_blocks m) p of
        None \<Rightarrow> Inl (Double_free p, m)
      | Some bs \<Rightarrow> Inr ((), m\<lparr>mem_blocks := bs\<rparr>))"

text \<open>
  \<^verbatim>\<open>realloc\<close> as the C library documents it: a size of 0 releases the block and the result is
  \<^verbatim>\<open>NULL\<close>; a request that is not granted leaves the block alone; otherwise the block keeps its
  contents, in place or at a new address.
\<close>

definition c_realloc :: "insmod_os \<Rightarrow> addr \<Rightarrow> nat \<Rightarrow> c_mem \<Rightarrow> addr option c_run" where
  "c_realloc OS p n m =
     (let m = m\<lparr>mem_requests := mem_requests m @ [n]\<rparr>
      in case mem_blocks m p of
           None \<Rightarrow> Inl (Dead_block p, m)
         | Some old \<Rightarrow>
             if n = 0 then Inr (None, m\<lparr>mem_blocks := (mem_blocks m)(p := None)\<rparr>)
             else if \<not> os_alloc OS n then Inr (None, m)
             else let new = take n old @ fresh_bytes OS (length old) n
                  in if os_moves OS n
                     then Inr (Some (mem_next m),
                            m\<lparr>mem_blocks := ((mem_blocks m)(p := None))(mem_next m \<mapsto> new),
                              mem_next := mem_next m + 1\<rparr>)
                     else Inr (Some p, m\<lparr>mem_blocks := (mem_blocks m)(p \<mapsto> new)\<rparr>))"

text \<open>Writing \<open>bs\<close> at offset \<open>off\<close> of a block, and reading its first \<open>n\<close> bytes.\<close>

definition c_store :: "addr \<Rightarrow> nat \<Rightarrow> byte list \<Rightarrow> c_mem \<Rightarrow> unit c_run" where
  "c_store p off bs m =
     (case mem_blocks m p of
        None \<Rightarrow> Inl (Dead_block p, m)
      | Some b \<Rightarrow>
          if length b < off + length bs then Inl (Overflow, m)
          else Inr ((), m\<lparr>mem_blocks := (mem_blocks m)(p \<mapsto> take off b @ bs @ drop (off + length bs) b)\<rparr>))"

definition c_load :: "addr \<Rightarrow> nat \<Rightarrow> c_mem \<Rightarrow> byte list c_run" where
  "c_load p n m =
     (case mem_blocks m p of
        None \<Rightarrow> Inl (Dead_block p, m)
      | Some b \<Rightarrow> if length b < n then Inl (Overflow, m) else Inr (take n b, m))"

section \<open>The program\<close>

definition moderror :: "insmod_os \<Rightarrow> int \<Rightarrow> string" where
  "moderror OS err =
     (if err = ENOEXEC then ''Invalid module format''
      else if err = ENOENT then ''Unknown symbol in module''
      else if err = ESRCH then ''Module has wrong symbol version''
      else if err = EINVAL then ''Invalid parameters''
      else os_strerror OS err)"

text \<open>The exits of \<^verbatim>\<open>module_image_size\<close>: the error exit releases the buffer; both close the file.\<close>

definition close_fd :: "c_mem \<Rightarrow> c_mem" where
  "close_fd m = m\<lparr>mem_fds := mem_fds m - 1\<rparr>"

definition out_error :: "addr option \<Rightarrow> c_mem \<Rightarrow> (addr \<times> u64) option c_run" where
  "out_error buffer m =
     (case c_free buffer m of
        Inl f \<Rightarrow> Inl f
      | Inr (_, m) \<Rightarrow> Inr (None, close_fd m))"

text \<open>
  The read loop: \<open>pos\<close> is the position of the descriptor, \<^verbatim>\<open>*size\<close> an \<^verbatim>\<open>unsigned long\<close>, \<^verbatim>\<open>max\<close>
  an \<^verbatim>\<open>unsigned int\<close>, and \<^verbatim>\<open>ret\<close> an \<^verbatim>\<open>int\<close> that takes the \<^verbatim>\<open>ssize_t\<close> of \<^verbatim>\<open>read\<close>. The bytes that
  \<^verbatim>\<open>read\<close> delivers are stored at \<^verbatim>\<open>buffer + *size\<close>.
\<close>

partial_function (option) image_loop ::
    "insmod_os \<Rightarrow> byte list \<Rightarrow> nat \<Rightarrow> addr \<Rightarrow> u64 \<Rightarrow> u32 \<Rightarrow> c_mem \<Rightarrow> (addr \<times> u64) option c_run option" where
  "image_loop OS file pos buffer sz maxlen m =
     (let got = os_read OS file pos (unat (ucast maxlen - sz));
          ret = sint (word_of_int got :: c_int)
      in case c_store buffer (unat sz) (take (nat got) (drop pos file)) m of
           Inl f \<Rightarrow> Some (Inl f)
         | Inr (_, m) \<Rightarrow>
             if ret > 0 then
               (let sz = sz + word_of_int ret; pos = pos + nat got
                in if sz = ucast maxlen then
                     (let maxlen = maxlen * 2
                      in case c_realloc OS buffer (unat maxlen) m of
                           Inl f \<Rightarrow> Some (Inl f)
                         | Inr (None, m) \<Rightarrow> Some (out_error (Some buffer) m)
                         | Inr (Some p, m) \<Rightarrow> image_loop OS file pos p sz maxlen m)
                   else image_loop OS file pos buffer sz maxlen m)
             else if ret < 0 then Some (out_error (Some buffer) m)
             else Some (Inr (Some (buffer, sz), close_fd m)))"

declare image_loop.simps [code]

definition module_image_size :: "insmod_os \<Rightarrow> string option \<Rightarrow> c_mem \<Rightarrow> (addr \<times> u64) option c_run option" where
  "module_image_size OS filename m =
     (case os_open OS filename of
        None \<Rightarrow> Some (Inr (None, m))
      | Some file \<Rightarrow>
          (case c_malloc OS 16384 (m\<lparr>mem_fds := mem_fds m + 1\<rparr>) of
             (None, m) \<Rightarrow> Some (out_error None m)
           | (Some buffer, m) \<Rightarrow> image_loop OS file 0 buffer 0 16384 m))"

text \<open>
  The option string is its text and the size of its block. \<^verbatim>\<open>strcat\<close> needs room for the two
  texts and the terminator. The loop ends early, with \<open>Inr None\<close>, when \<^verbatim>\<open>realloc\<close> fails.
\<close>

definition c_strcat :: "string \<times> nat \<Rightarrow> string \<Rightarrow> c_fault + string \<times> nat" where
  "c_strcat dst s = (case dst of (t, room) \<Rightarrow>
     if room < length t + length s + 1 then Inl Overflow else Inr (t @ s, room))"

fun join_options :: "insmod_os \<Rightarrow> string \<times> nat \<Rightarrow> string list \<Rightarrow> c_fault + (string \<times> nat) option" where
  "join_options OS options [] = Inr (Some options)"
| "join_options OS options (arg # args) =
     (let n = length (fst options) + 1 + length arg + 1
      in if \<not> os_alloc OS n then Inr None
         else case c_strcat (fst options, n) arg of
                Inl f \<Rightarrow> Inl f
              | Inr options \<Rightarrow>
                  (case c_strcat options '' '' of
                     Inl f \<Rightarrow> Inl f
                   | Inr options \<Rightarrow> join_options OS options args))"

datatype insmod_result = Insmod_exit int "string list" "(byte list \<times> nat \<times> string) option"

text \<open>The exit code, the messages and the call of \<^verbatim>\<open>init_module\<close>, if there was one; \<open>argv\<close>
  without the program name. A missing file name is printed as the C library prints \<^verbatim>\<open>NULL\<close>.\<close>

definition quoted :: "string option \<Rightarrow> string" where
  "quoted f = [CHR 0x27] @ (case f of None \<Rightarrow> ''(null)'' | Some t \<Rightarrow> t) @ [CHR 0x27]"

definition cannot :: "insmod_os \<Rightarrow> string \<Rightarrow> string" where
  "cannot OS what = ''insmod: can'' @ [CHR 0x27] @ ''t '' @ what @ '': '' @ os_strerror OS (os_errno OS) @ ''\<newline>''"

definition load_image :: "insmod_os \<Rightarrow> string option \<Rightarrow> string \<Rightarrow> addr \<Rightarrow> u64 \<Rightarrow> c_mem \<Rightarrow> insmod_result c_run" where
  "load_image OS filename options file len m =
     (case c_load file (unat len) m of
        Inl f \<Rightarrow> Inl f
      | Inr (img, m) \<Rightarrow>
          (let ret = os_init_module OS img (unat len) options;
               msgs = (if ret \<noteq> 0
                       then [''insmod: error inserting '' @ quoted filename @ '': '' @
                             format_ld (word_of_int ret) @ '' '' @ moderror OS (os_errno OS) @ ''\<newline>'']
                       else [])
           in case c_free (Some file) m of
                Inl f \<Rightarrow> Inl f
              | Inr (_, m) \<Rightarrow>
                  Inr (Insmod_exit (if ret \<noteq> 0 then 1 else 0) msgs (Some (img, unat len, options)), m)))"

definition insmod_main :: "insmod_os \<Rightarrow> string list \<Rightarrow> insmod_result c_run option" where
  "insmod_main OS argv =
     (let m = start_mem; no_memory = Some (Inr (Insmod_exit 1 [cannot OS ''allocate memory''] None, m))
      in if \<not> os_alloc OS 1 then no_memory
         else let filename = (case argv of [] \<Rightarrow> None | f # _ \<Rightarrow> Some f)
              in case join_options OS ([], 1) (tl argv) of
                   Inl f \<Rightarrow> Some (Inl (f, m))
                 | Inr None \<Rightarrow> no_memory
                 | Inr (Some options) \<Rightarrow> do {
                     r \<leftarrow> module_image_size OS filename m;
                     case r of
                       Inl f \<Rightarrow> Some (Inl f)
                     | Inr (None, m) \<Rightarrow> Some (Inr (Insmod_exit 1 [cannot OS (''read '' @ quoted filename)] None, m))
                     | Inr (Some (file, len), m) \<Rightarrow> Some (load_image OS filename (fst options) file len m) })"

section \<open>The buffer\<close>

text \<open>
  The state of the loop: \<open>p\<close> is the only block, it has \<open>2 ^ k\<close> bytes, the first \<open>n\<close> of them
  are the beginning of the file, and the requests so far are the powers of two up to \<open>2 ^ k\<close>.
\<close>

definition image_at :: "byte list \<Rightarrow> nat \<Rightarrow> nat \<Rightarrow> addr \<Rightarrow> c_mem \<Rightarrow> bool" where
  "image_at file k n p m \<longleftrightarrow> 14 \<le> k \<and> mem_fds m = 1 \<and> mem_requests m = map ((^) 2) [14..<Suc k] \<and>
     (\<exists>b. mem_blocks m = [p \<mapsto> b] \<and> length b = 2 ^ k \<and> take n b = take n file)"

lemma image_atI:
  assumes "14 \<le> k" and "mem_fds m = 1" and "mem_requests m = map ((^) 2) [14..<Suc k]"
    and "mem_blocks m = [p \<mapsto> b]" and "length b = 2 ^ k" and "take n b = take n file"
  shows "image_at file k n p m"
  using assms unfolding image_at_def by blast

lemma image_atE:
  assumes "image_at file k n p m"
  obtains b where "14 \<le> k" and "mem_fds m = 1" and "mem_requests m = map ((^) 2) [14..<Suc k]"
    and "mem_blocks m = [p \<mapsto> b]" and "length b = 2 ^ k" and "take n b = take n file"
  using assms unfolding image_at_def by blast

lemma c_store_image:
  assumes "image_at file k n p m" and "n + r \<le> 2 ^ k" and "n + r \<le> length file"
  obtains m' where "c_store p n (take r (drop n file)) m = Inr ((), m')" and "image_at file k (n + r) p m'"
proof -
  let ?c = "take r (drop n file)"
  obtain b where m: "14 \<le> k" "mem_fds m = 1" "mem_requests m = map ((^) 2) [14..<Suc k]"
    and b: "mem_blocks m = [p \<mapsto> b]" "length b = 2 ^ k" "take n b = take n file"
    using assms(1) by (rule image_atE)
  define b' where "b' = take n b @ ?c @ drop (n + r) b"
  have c: "length ?c = r" using assms(3) by simp
  have "take (n + r) b' = take n b @ ?c" using assms b(2) c by (simp add: b'_def)
  then have "take (n + r) b' = take (n + r) file" by (simp add: b(3) take_add)
  moreover have "length b' = 2 ^ k" using assms b(2) c by (simp add: b'_def)
  ultimately have "image_at file k (n + r) p (m\<lparr>mem_blocks := [p \<mapsto> b']\<rparr>)"
    using m by (intro image_atI [of _ _ _ b']) simp_all
  moreover have "c_store p n ?c m = Inr ((), m\<lparr>mem_blocks := [p \<mapsto> b']\<rparr>)"
    using assms(2) b c by (simp add: c_store_def b'_def)
  ultimately show thesis using that by blast
qed

lemma c_realloc_image:
  assumes "image_at file k (2 ^ k) p m" and "os_alloc OS (2 ^ Suc k)"
  obtains q m' where "c_realloc OS p (2 ^ Suc k) m = Inr (Some q, m')" and "image_at file (Suc k) (2 ^ k) q m'"
proof -
  obtain b where m: "14 \<le> k" "mem_fds m = 1" "mem_requests m = map ((^) 2) [14..<Suc k]"
    and b: "mem_blocks m = [p \<mapsto> b]" "length b = 2 ^ k" "take (2 ^ k) b = take (2 ^ k) file"
    using assms(1) by (rule image_atE)
  define b' where "b' = b @ fresh_bytes OS (2 ^ k) (2 ^ Suc k)"
  have b': "take (2 ^ Suc k) b @ fresh_bytes OS (length b) (2 ^ Suc k) = b'" using b(2) by (simp add: b'_def)
  have l: "length b' = 2 ^ Suc k" "take (2 ^ k) b' = take (2 ^ k) file"
    using b by (simp_all add: b'_def fresh_bytes_def flip: b(3))
  let ?m = "m\<lparr>mem_requests := mem_requests m @ [2 ^ Suc k]\<rparr>"
  show thesis
  proof (cases "os_moves OS (2 ^ Suc k)")
    case True
    let ?m' = "?m\<lparr>mem_blocks := [mem_next m \<mapsto> b'], mem_next := mem_next m + 1\<rparr>"
    have "c_realloc OS p (2 ^ Suc k) m = Inr (Some (mem_next m), ?m')"
      using True assms(2) b(1) by (simp add: c_realloc_def Let_def b' [simplified])
    moreover have "image_at file (Suc k) (2 ^ k) (mem_next m) ?m'"
      using m l by (intro image_atI [of _ _ _ b']) simp_all
    ultimately show thesis by (rule that)
  next
    case False
    let ?m' = "?m\<lparr>mem_blocks := [p \<mapsto> b']\<rparr>"
    have "c_realloc OS p (2 ^ Suc k) m = Inr (Some p, ?m')"
      using False assms(2) b(1) by (simp add: c_realloc_def Let_def b' [simplified])
    moreover have "image_at file (Suc k) (2 ^ k) p ?m'"
      using m l by (intro image_atI [of _ _ _ b']) simp_all
    ultimately show thesis by (rule that)
  qed
qed

text \<open>Resizing to 0 releases the block, so that the error exit releases it once more.\<close>

lemma c_realloc_zero:
  assumes "image_at file k n p m"
  shows "\<exists>m'. c_realloc OS p 0 m = Inr (None, m') \<and> out_error (Some p) m' = Inl (Double_free p, m') \<and>
    mem_requests m' = map ((^) 2) [14..<Suc k] @ [0] \<and> mem_blocks m' = Map.empty"
  using assms by (auto simp: image_at_def c_realloc_def Let_def out_error_def heap_free_def)

section \<open>The read loop\<close>

abbreviation image_from :: "insmod_os \<Rightarrow> byte list \<Rightarrow> nat \<Rightarrow> nat \<Rightarrow> addr \<Rightarrow> c_mem \<Rightarrow> (addr \<times> u64) option c_run option" where
  "image_from OS file k n p m \<equiv> image_loop OS file n p (of_nat n) (of_nat (2 ^ k)) m"

lemma ucast_of_nat_u32: "M < 2 ^ 32 \<Longrightarrow> ucast (of_nat M :: u32) = (of_nat M :: u64)"
  by (simp add: unsigned_of_nat take_bit_nat_eq_self)

lemma sint_int_small: "0 \<le> i \<Longrightarrow> i < 2 ^ 31 \<Longrightarrow> sint (word_of_int i :: c_int) = i"
  by (simp add: sint_uint signed_take_bit_int_eq_self uint_word_of_int_eq take_bit_int_eq_self)

text \<open>One round of the loop, with \<open>n\<close> bytes read into a buffer of \<open>2 ^ k\<close> bytes.\<close>

lemma image_loop_round:
  assumes r: "read_ok OS file" "read_never_fails OS file" and n: "n \<le> length file"
    and M: "n < 2 ^ k" "2 ^ k - n < (2::nat) ^ 31" "k \<le> 31" and at: "image_at file k n p m"
  obtains (eof) m' where "n = length file" and "image_at file k n p m'"
      and "image_from OS file k n p m = Some (Inr (Some (p, of_nat n), close_fd m'))"
  | (full) m' where "2 ^ k \<le> length file" and "image_at file k (2 ^ k) p m'" and "image_from OS file k n p m =
        (case c_realloc OS p (unat (of_nat (2 ^ Suc k) :: u32)) m' of
           Inl f \<Rightarrow> Some (Inl f)
         | Inr (None, m) \<Rightarrow> Some (out_error (Some p) m)
         | Inr (Some q, m) \<Rightarrow> image_from OS file (Suc k) (2 ^ k) q m)"
  | (more) n' m' where "n < n'" and "n' \<le> length file" and "n' < 2 ^ k" and "image_at file k n' p m'"
      and "image_from OS file k n p m = image_from OS file k n' p m'"
proof -
  let ?got = "os_read OS file n (2 ^ k - n)"
  have small: "n < 2 ^ 64" "2 ^ k < (2::nat) ^ 64" "2 ^ k < (2::nat) ^ 32"
    using M power_increasing [of k 31 "2::nat"] by simp_all
  have un: "unat (of_nat n :: u64) = n" using small by (intro unat_of_nat_u64)
  have "(of_nat (2 ^ k) - of_nat n :: u64) = of_nat (2 ^ k - n)" using M by (simp add: of_nat_diff)
  then have ureq: "unat (of_nat (2 ^ k) - of_nat n :: u64) = 2 ^ k - n"
    using M unat_of_nat_u64 [of "2 ^ k - n"] by simp
  note uc = ucast_of_nat_u32 [OF small(3)]
  have got0: "0 \<le> ?got" using r by (simp add: read_never_fails_def)
  have ok: "?got < 0 \<or> (if n = length file then ?got = 0
      else 0 < ?got \<and> ?got \<le> int (2 ^ k - n) \<and> ?got \<le> int (length file - n))"
    using r(1) n M unfolding read_ok_def by (metis zero_less_diff)
  define n' where "n' = n + nat ?got"
  have "?got \<le> int (2 ^ k - n)" "?got \<le> int (length file - n)" using ok got0 by (simp_all only: split: if_splits) auto
  then have "nat ?got \<le> 2 ^ k - n" "nat ?got \<le> length file - n" by (simp_all only: nat_le_iff)
  then have b: "n' \<le> length file" "n' \<le> 2 ^ k" "nat ?got < 2 ^ 31" using n M by (simp_all only: n'_def)
  then have lt: "?got < 2 ^ 31" by simp
  have ret: "sint (word_of_int ?got :: c_int) = ?got" using got0 lt by (rule sint_int_small)
  obtain m' where st: "c_store p n (take (nat ?got) (drop n file)) m = Inr ((), m')"
    and at': "image_at file k n' p m'"
    using c_store_image [OF at, of "nat ?got"] b unfolding n'_def by metis
  have sum: "of_nat n + word_of_int ?got = (of_nat n' :: u64)" using got0 by (simp add: n'_def)
  have eq: "(of_nat n' :: u64) = of_nat (2 ^ k) \<longleftrightarrow> n' = 2 ^ k"
    using unat_of_nat_u64 [of n'] unat_of_nat_u64 [of "2 ^ k"] small b(2) by (metis order_le_less_trans)
  have dbl: "(of_nat (2 ^ k) :: u32) * 2 = of_nat (2 ^ Suc k)" by simp
  have loop: "image_from OS file k n p m =
      (if 0 < ?got
       then if n' = 2 ^ k
            then case c_realloc OS p (unat (of_nat (2 ^ Suc k) :: u32)) m' of
                   Inl f \<Rightarrow> Some (Inl f)
                 | Inr (None, m) \<Rightarrow> Some (out_error (Some p) m)
                 | Inr (Some q, m) \<Rightarrow> image_from OS file (Suc k) n' q m
            else image_from OS file k n' p m'
       else Some (Inr (Some (p, of_nat n), close_fd m')))"
    using got0
    by (subst image_loop.simps) (unfold uc ureq un st ret Let_def sum eq dbl n'_def [symmetric], simp)
  consider (none) "?got = 0" | (fill) "0 < ?got" "n' = 2 ^ k" | (part) "0 < ?got" "n' < 2 ^ k"
    using got0 b(2) by linarith
  then show thesis
  proof cases
    case none
    then have "n' = n" "n = length file" using ok by (auto simp: n'_def split: if_splits)
    then show thesis using eof [of m'] at' none loop by simp
  next
    case fill
    show thesis using full [of m'] at' loop b(1) fill(1) unfolding fill(2) by simp
  next
    case part
    then have "n < n'" by (simp add: n'_def)
    then show thesis using more [of n' m'] at' loop b(1) part by simp
  qed
qed

lemma unat_pow_u32: "k < 32 \<Longrightarrow> unat (of_nat (2 ^ k) :: u32) = 2 ^ k"
  using power_strict_increasing [of k 32 "2::nat"] by (simp add: unat_of_nat take_bit_nat_eq_self del: of_nat_power)

lemma image_loop_grow:
  assumes "image_at file k (2 ^ k) p m'" and "image_from OS file k n p m =
        (case c_realloc OS p (unat (of_nat (2 ^ Suc k) :: u32)) m' of
           Inl f \<Rightarrow> Some (Inl f)
         | Inr (None, m) \<Rightarrow> Some (out_error (Some p) m)
         | Inr (Some q, m) \<Rightarrow> image_from OS file (Suc k) (2 ^ k) q m)"
    and "\<forall>n. os_alloc OS n" and "k < 31"
  obtains q m'' where "image_at file (Suc k) (2 ^ k) q m''"
    and "image_from OS file k n p m = image_from OS file (Suc k) (2 ^ k) q m''"
proof -
  obtain q m'' where "c_realloc OS p (2 ^ Suc k) m' = Inr (Some q, m'')"
    and "image_at file (Suc k) (2 ^ k) q m''"
    using c_realloc_image [OF assms(1)] assms(3) by metis
  then show thesis using that [of q m''] assms(2,4) unat_pow_u32 [of "Suc k"] by simp
qed

text \<open>Below two gigabytes the loop reads the whole file.\<close>

lemma image_loop_reads_all:
  assumes r: "read_ok OS file" "read_never_fails OS file" and a: "\<forall>n. os_alloc OS n"
    and l: "length file < 2 ^ 31"
    and "n \<le> length file" and "n < 2 ^ k" and "2 ^ k - n < (2::nat) ^ 31" and "k \<le> 31" and "image_at file k n p m"
  shows "\<exists>k' q m'. image_from OS file k n p m = Some (Inr (Some (q, of_nat (length file)), close_fd m')) \<and>
    image_at file k' (length file) q m' \<and> length file < 2 ^ k'"
  using assms(5-9)
proof (induction "length file - n" arbitrary: n k p m rule: less_induct)
  case less
  show ?case
  proof (cases rule: image_loop_round [OF r less.prems, case_names eof full more])
    case (eof m')
    then show ?thesis using less.prems(2) by auto
  next
    case (full m')
    have k: "k < 31"
    proof (rule ccontr)
      assume "\<not> k < 31"
      then have "k = 31" using less.prems by simp
      with full(1) l show False by simp
    qed
    obtain q m'' where at: "image_at file (Suc k) (2 ^ k) q m''"
      and "image_from OS file k n p m = image_from OS file (Suc k) (2 ^ k) q m''"
      using image_loop_grow [OF full(2,3) a k] by metis
    moreover have "(2::nat) ^ k < 2 ^ 31" using k by (intro power_strict_increasing) auto
    ultimately show ?thesis using less.hyps [of "2 ^ k" "Suc k" q m''] at full(1) k less.prems(2) by simp
  next
    case (more n' m')
    then show ?thesis using less.hyps [of n' k p m'] less.prems by simp
  qed
qed

text \<open>From two gigabytes on it asks for every power of two up to \<open>2 ^ 31\<close>, then for 0 bytes.\<close>

lemma image_loop_two_gigabytes:
  assumes r: "read_ok OS file" "read_never_fails OS file" and a: "\<forall>n. os_alloc OS n"
    and l: "2 ^ 31 \<le> length file"
    and "n \<le> length file" and "n < 2 ^ k" and "2 ^ k - n < (2::nat) ^ 31" and "k \<le> 31" and "image_at file k n p m"
  shows "\<exists>q m'. image_from OS file k n p m = Some (Inl (Double_free q, m')) \<and>
    mem_requests m' = map ((^) 2) [14..<32] @ [0] \<and> mem_blocks m' = Map.empty"
  using assms(5-9)
proof (induction "length file - n" arbitrary: n k p m rule: less_induct)
  case less
  have M: "(2::nat) ^ k \<le> 2 ^ 31" using less.prems by (intro power_increasing) auto
  show ?case
  proof (cases rule: image_loop_round [OF r less.prems, case_names eof full more])
    case (eof m')
    then show ?thesis using M l less.prems by simp
  next
    case (full m')
    show ?thesis
    proof (cases "k = 31")
      case True
      then show ?thesis using full(3) c_realloc_zero [OF full(2), of OS] by auto
    next
      case False
      then have k: "k < 31" using less.prems by simp
      obtain q m'' where at: "image_at file (Suc k) (2 ^ k) q m''"
        and "image_from OS file k n p m = image_from OS file (Suc k) (2 ^ k) q m''"
        using image_loop_grow [OF full(2,3) a k] by metis
      moreover have "(2::nat) ^ k < 2 ^ 31" using k by (intro power_strict_increasing) auto
      ultimately show ?thesis using less.hyps [of "2 ^ k" "Suc k" q m''] at full(1) k less.prems(2) by simp
    qed
  next
    case (more n' m')
    then show ?thesis using less.hyps [of n' k p m'] less.prems by simp
  qed
qed

lemma first_image:
  assumes "os_alloc OS 16384"
  shows "\<exists>p m. c_malloc OS 16384 (start_mem\<lparr>mem_fds := mem_fds start_mem + 1\<rparr>) = (Some p, m) \<and> image_at file 14 0 p m"
  using assms by (auto simp: c_malloc_def Let_def start_mem_def fresh_bytes_def intro!: image_atI)

lemma module_image_size_loop:
  assumes "os_open OS filename = Some file" and "os_alloc OS 16384"
  obtains p m where "module_image_size OS filename start_mem = image_from OS file 14 0 p m" and "image_at file 14 0 p m"
  using first_image [OF assms(2), of "file"] that assms(1) by (auto simp: module_image_size_def)

lemma module_image_size_reads_all:
  assumes "os_open OS filename = Some file" and "read_ok OS file" and "read_never_fails OS file"
    and "\<forall>n. os_alloc OS n" and "length file < 2 ^ 31"
  obtains k p m where "module_image_size OS filename start_mem = Some (Inr (Some (p, of_nat (length file)), close_fd m))"
    and "image_at file k (length file) p m" and "length file < 2 ^ k"
proof -
  obtain p m where "module_image_size OS filename start_mem = image_from OS file 14 0 p m" and "image_at file 14 0 p m"
    using assms by (blast intro: module_image_size_loop)
  then show thesis using image_loop_reads_all [OF assms(2-5), of 0 14 p m] that by auto
qed

text \<open>Handing over a complete image: \<open>init_module\<close> gets the file, and the buffer is released.\<close>

lemma load_image_complete:
  assumes "image_at file k (length file) p m" and "length file < 2 ^ k" and "length file < 2 ^ 31"
  shows "\<exists>msgs m'. load_image OS filename options p (of_nat (length file)) (close_fd m) =
      Inr (Insmod_exit (if os_init_module OS file (length file) options = 0 then 0 else 1) msgs
             (Some (file, length file, options)), m') \<and>
    (msgs = [] \<longleftrightarrow> os_init_module OS file (length file) options = 0) \<and>
    mem_blocks m' = Map.empty \<and> mem_fds m' = 0"
proof -
  obtain b where "mem_fds m = 1" and b: "mem_blocks m = [p \<mapsto> b]" "length b = 2 ^ k" "take (length file) b = file"
    using assms(1) by (elim image_atE) simp
  moreover have "unat (of_nat (length file) :: u64) = length file" using assms(3) by (intro unat_of_nat_u64) simp
  ultimately show ?thesis using assms(2)
    by (simp add: load_image_def c_load_def close_fd_def heap_free_def Let_def)
qed

text \<open>The option string always fits its block.\<close>

lemma join_options_result:
  "(\<forall>n. os_alloc OS n) \<Longrightarrow> \<exists>room. join_options OS (t, r) args = Inr (Some (t @ concat (map (\<lambda>a. a @ '' '') args), room))"
proof (induction args arbitrary: t r)
  case (Cons a args)
  then show ?case using Cons.IH [of "t @ a @ '' ''"] by (simp add: c_strcat_def)
qed simp

lemma join_options_no_fault: "join_options OS options args \<noteq> Inl f"
  by (induction OS options args rule: join_options.induct) (auto simp: c_strcat_def Let_def)

lemma module_image_size_none:
  assumes "os_open OS filename = None \<or> \<not> os_alloc OS 16384"
  shows "\<exists>m. module_image_size OS filename start_mem = Some (Inr (None, m)) \<and> mem_blocks m = Map.empty \<and> mem_fds m = 0"
  using assms by (auto simp: module_image_size_def start_mem_def c_malloc_def Let_def out_error_def close_fd_def split: option.split)

section \<open>Properties\<close>

text \<open>
  C21: For a readable file of less than two gigabytes, and whatever sizes the single reads
  return and wherever realloc puts the growing buffer, the loader reads the complete image
  without a fault, hands init_module exactly the contents, their length and the arguments
  joined with blanks, exits with 0 just when init_module returned 0 and prints a message just
  when it did not, and has released the buffer and closed the file. If the file cannot be
  opened or the first buffer cannot be allocated it exits with 1, init_module is not called,
  and no buffer is left allocated and no file open either.
\<close>

theorem insmod_main_correct:
  assumes "read_ok OS file" and "read_never_fails OS file" and "length file < 2 ^ 31"
  shows "(os_open OS (Some f) = Some file \<longrightarrow> (\<forall>n. os_alloc OS n) \<longrightarrow>
      (let options = concat (map (\<lambda>a. a @ '' '') args); ret = os_init_module OS file (length file) options
       in \<exists>msgs m. insmod_main OS (f # args) =
            Some (Inr (Insmod_exit (if ret = 0 then 0 else 1) msgs (Some (file, length file, options)), m)) \<and>
            (msgs = [] \<longleftrightarrow> ret = 0) \<and> mem_blocks m = Map.empty \<and> mem_fds m = 0)) \<and>
     (os_open OS (Some f) = None \<or> \<not> os_alloc OS 16384 \<longrightarrow>
       (\<exists>msgs m. insmod_main OS (f # args) = Some (Inr (Insmod_exit 1 msgs None, m)) \<and>
          mem_blocks m = Map.empty \<and> mem_fds m = 0))"
proof (intro conjI impI)
  let ?options = "concat (map (\<lambda>a. a @ '' '') args)"
  assume o: "os_open OS (Some f) = Some file" and a: "\<forall>n. os_alloc OS n"
  obtain k p m where "module_image_size OS (Some f) start_mem = Some (Inr (Some (p, of_nat (length file)), close_fd m))"
    and at: "image_at file k (length file) p m" "length file < 2 ^ k"
    using module_image_size_reads_all [OF o assms(1,2) a assms(3)] by blast
  moreover obtain room where "join_options OS ([], 1) args = Inr (Some (?options, room))"
    using join_options_result [OF a, of "[]" 1 args] by auto
  ultimately have "insmod_main OS (f # args) = Some (load_image OS (Some f) ?options p (of_nat (length file)) (close_fd m))"
    using a by (simp add: insmod_main_def Let_def)
  then show "let options = ?options; ret = os_init_module OS file (length file) options
       in \<exists>msgs m. insmod_main OS (f # args) =
            Some (Inr (Insmod_exit (if ret = 0 then 0 else 1) msgs (Some (file, length file, options)), m)) \<and>
            (msgs = [] \<longleftrightarrow> ret = 0) \<and> mem_blocks m = Map.empty \<and> mem_fds m = 0"
    using load_image_complete [OF at assms(3), of OS "Some f" ?options] by (simp add: Let_def)
next
  assume "os_open OS (Some f) = None \<or> \<not> os_alloc OS 16384"
  then obtain m where "module_image_size OS (Some f) start_mem = Some (Inr (None, m))"
    and "mem_blocks m = Map.empty" "mem_fds m = 0"
    using module_image_size_none by blast
  then show "\<exists>msgs m. insmod_main OS (f # args) = Some (Inr (Insmod_exit 1 msgs None, m)) \<and>
      mem_blocks m = Map.empty \<and> mem_fds m = 0"
    using join_options_no_fault [of OS "([], 1)" args]
    by (auto simp: insmod_main_def Let_def start_mem_def split: sum.split option.split)
qed

text \<open>An operating system that reads in full, over which the hypotheses can be evaluated.\<close>

definition plain_os :: "byte list \<Rightarrow> insmod_os" where
  "plain_os file = \<lparr> os_open = (\<lambda>f. if f = Some ''m.ko'' then Some file else None),
     os_read = (\<lambda>file pos n. int (min n (length file - pos))), os_alloc = (\<lambda>_. True),
     os_moves = (\<lambda>_. True), os_stale = (\<lambda>_. 0),
     os_init_module = (\<lambda>img len opts. 0), os_errno = 2, os_strerror = (\<lambda>_. ''error'') \<rparr>"

lemma plain_os_reads: "read_ok (plain_os file) file'" "read_never_fails (plain_os file) file'"
  by (auto simp: read_ok_def read_never_fails_def plain_os_def)

theorem insmod_main_correct_witness:
  "\<exists>m. insmod_main (plain_os [1, 2, 3]) [''m.ko'', ''a=1'', ''b''] =
     Some (Inr (Insmod_exit 0 [] (Some ([1, 2, 3], 3, ''a=1 b '')), m)) \<and> mem_blocks m = Map.empty \<and> mem_fds m = 0"
  using insmod_main_correct [of "plain_os [1, 2, 3]" "[1, 2, 3]" "''m.ko''" "[''a=1'', ''b'']"] plain_os_reads
  by (simp add: plain_os_def numeral_3_eq_3)

text \<open>
  C22: The buffer size is an unsigned int that is doubled whenever the buffer is full. On a
  file of two gigabytes or more the loader asks for 2^14, 2^15, ..., 2^31 bytes and then, the
  size having wrapped, for 0 bytes; realloc thereby releases the buffer and returns NULL, and
  the error exit frees the same buffer a second time. This is the only outcome, whatever sizes
  the reads return; no block of the image is allocated at that moment, and init_module is never
  reached.
\<close>

theorem insmod_two_gigabytes_faults:
  assumes "os_open OS (Some f) = Some file" and "read_ok OS file" and "read_never_fails OS file"
    and "\<forall>n. os_alloc OS n" and "2 ^ 31 \<le> length file"
  shows "\<exists>p m. insmod_main OS (f # args) = Some (Inl (Double_free p, m)) \<and>
    mem_requests m = map ((^) 2) [14..<32] @ [0] \<and> mem_blocks m = Map.empty"
proof -
  obtain p m where im: "module_image_size OS (Some f) start_mem = image_from OS file 14 0 p m" and "image_at file 14 0 p m"
    using assms(1,4) by (blast intro: module_image_size_loop)
  then obtain q m' where "image_from OS file 14 0 p m = Some (Inl (Double_free q, m'))"
    and "mem_requests m' = map ((^) 2) [14..<32] @ [0]" "mem_blocks m' = Map.empty"
    using image_loop_two_gigabytes [OF assms(2-5), of 0 14 p m] by auto
  moreover obtain o' where "join_options OS ([], 1) args = Inr (Some o')"
    using join_options_result [OF assms(4)] by blast
  ultimately show ?thesis using im assms(4) by (simp add: insmod_main_def Let_def)
qed

theorem insmod_two_gigabytes_faults_witness:
  "\<exists>p m. insmod_main (plain_os (replicate (2 ^ 31) 0)) [''m.ko''] = Some (Inl (Double_free p, m)) \<and>
    mem_requests m = map ((^) 2) [14..<32] @ [0] \<and> mem_blocks m = Map.empty"
proof (rule insmod_two_gigabytes_faults [OF _ plain_os_reads])
  show "(2::nat) ^ 31 \<le> length (replicate (2 ^ 31) (0 :: byte))" by (simp only: length_replicate)
qed (simp_all add: plain_os_def)

end
