(* ===== verification/Rmmod.thy ===== *)
theory Rmmod
  imports C_Strings
begin

unbundle bit_operations_syntax

text \<open>
  The user-space tool \<^verbatim>\<open>Userspace_RmmodCode/rmmod_code.c\<close>: it turns a path into a module
  name, looks the module up in \<^verbatim>\<open>/proc/modules\<close> and calls \<^verbatim>\<open>delete_module\<close> when it is not in
  use. \<open>None\<close> is a fault: a \<^verbatim>\<open>NULL\<close> pointer passed to the C library or a write past the end
  of the 64 byte name buffer. The variables \<^verbatim>\<open>name\<close> and \<^verbatim>\<open>refs\<close> of \<^verbatim>\<open>check_usage\<close> are not
  initialised, so their first contents are arguments.
\<close>

section \<open>Module names\<close>

fun strrchr :: "char \<Rightarrow> string \<Rightarrow> string option" where
  "strrchr ch [] = None"
| "strrchr ch (c # cs) =
     (case strrchr ch cs of Some s \<Rightarrow> Some s | None \<Rightarrow> if c = ch then Some (c # cs) else None)"

definition basename :: "string \<Rightarrow> string" where
  "basename path = (case strrchr (CHR ''/'') path of Some base \<Rightarrow> tl base | None \<Rightarrow> path)"

fun modname_loop :: "string \<Rightarrow> string" where
  "modname_loop [] = []"
| "modname_loop (c # cs) =
     (if c = CHR ''.'' then [] else (if c = CHR ''-'' then CHR ''_'' else c) # modname_loop cs)"

definition filename2modname :: "string \<Rightarrow> string" where
  "filename2modname filename = modname_loop (basename filename)"

section \<open>Looking a module up\<close>

abbreviation NL :: char where "NL \<equiv> CHR 0x0A"

definition is_space :: "char \<Rightarrow> bool" where
  "is_space c \<longleftrightarrow> c = CHR '' '' \<or> (9 \<le> (of_char c :: nat) \<and> (of_char c :: nat) \<le> 13)"

text \<open>The conversions \<^verbatim>\<open>%s\<close> and \<^verbatim>\<open>%lu\<close> of \<^verbatim>\<open>sscanf\<close>, with the rest of the input.\<close>

definition scan_s :: "string \<Rightarrow> (string \<times> string) option" where
  "scan_s s =
     (let s = dropWhile is_space s; w = takeWhile (\<lambda>c. \<not> is_space c) s
      in if w = [] then None else Some (w, drop (length w) s))"

fun dec_value :: "nat \<Rightarrow> string \<Rightarrow> nat" where
  "dec_value acc [] = acc"
| "dec_value acc (c # cs) = dec_value (acc * 10 + (of_char c - 48)) cs"

definition scan_lu :: "string \<Rightarrow> (u64 \<times> string) option" where
  "scan_lu s =
     (let s = dropWhile is_space s;
          neg = (case s of c # _ \<Rightarrow> c = CHR ''-'' | [] \<Rightarrow> False);
          s = (case s of c # r \<Rightarrow> if c = CHR ''-'' \<or> c = CHR ''+'' then r else s | [] \<Rightarrow> s);
          ds = takeWhile is_digit s; v = dec_value 0 ds
      in if ds = [] then None
         else Some (if v \<ge> 2 ^ 64 then - 1 else if neg then - of_nat v else of_nat v, drop (length ds) s))"

text \<open>\<^verbatim>\<open>sscanf(line, "%s %lu %lu", name, &size, &refs)\<close>: the values of \<open>name\<close> and \<open>refs\<close> if
  they were assigned.\<close>

definition sscanf_line :: "string \<Rightarrow> string option \<times> u64 option" where
  "sscanf_line line =
     (case scan_s line of None \<Rightarrow> (None, None)
      | Some (name, r) \<Rightarrow>
          (Some name, do { (sz, r) \<leftarrow> scan_lu r; (refs, r) \<leftarrow> scan_lu r; Some refs }))"

text \<open>One call of \<^verbatim>\<open>fgets(line, sizeof(line) - 1, f)\<close>: at most 10238 characters.\<close>

definition fgets_line :: "string \<Rightarrow> string" where
  "fgets_line s =
     (let l = takeWhile (\<lambda>c. c \<noteq> NL) s
      in if length l < length s \<and> length l < 10238 then l @ [NL] else take 10238 s)"

lemma fgets_line_not_Nil: "s \<noteq> [] \<Longrightarrow> fgets_line s \<noteq> []"
  by (simp add: fgets_line_def Let_def)

text \<open>
  How \<^verbatim>\<open>check_usage\<close> ends: it returns, or the process exits. When the module is not listed the
  code calls \<^verbatim>\<open>error\<close>, a function outside of the program; \<open>error_returns\<close> says whether it comes
  back.
\<close>

datatype usage = Usage int | Exited int | Ended_in_error

function check_loop :: "bool \<Rightarrow> string \<Rightarrow> string \<Rightarrow> string \<Rightarrow> u64 \<Rightarrow> usage option" where
  "check_loop error_returns modname module_list name refs =
     (if module_list = [] then Some (if error_returns then Usage (- EINVAL) else Ended_in_error)
      else
        (let line = fgets_line module_list; rest = drop (length line) module_list
         in if NL \<notin> set line then Some (Exited 1)
            else
              (case sscanf_line line of (name', refs') \<Rightarrow>
                 (let name = (case name' of None \<Rightarrow> name | Some n \<Rightarrow> n);
                      refs = (case refs' of None \<Rightarrow> refs | Some r \<Rightarrow> r)
                  in if length name \<ge> 64 then None
                     else if name \<noteq> modname then check_loop error_returns modname rest name refs
                     else Some (Usage (if refs = 0 then 0 else - EINVAL))))))"
  by pat_completeness auto

termination check_loop
  by (relation "measure (\<lambda>(_, _, module_list, _, _). length module_list)") (auto simp: fgets_line_not_Nil)

declare check_loop.simps [simp del]

datatype fopen_result = Opened string | Fopen_enoent | Fopen_error

definition check_usage :: "bool \<Rightarrow> fopen_result \<Rightarrow> string \<Rightarrow> u64 \<Rightarrow> string \<Rightarrow> usage option" where
  "check_usage error_returns proc_modules name0 refs0 modname =
     (case proc_modules of
        Fopen_enoent \<Rightarrow> Some (Usage 0)
      | Fopen_error \<Rightarrow> None
      | Opened module_list \<Rightarrow> check_loop error_returns modname module_list name0 refs0)"

section \<open>Removing a module\<close>

abbreviation (input) O_NONBLOCK :: u32 where "O_NONBLOCK \<equiv> 0x800"
abbreviation (input) O_TRUNC :: u32 where "O_TRUNC \<equiv> 0x200"
abbreviation (input) O_EXCL :: u32 where "O_EXCL \<equiv> 0x80"

text \<open>The world of one run, and its end: the exit code and the call of \<^verbatim>\<open>delete_module\<close>.\<close>

record rmmod_os =
  proc_modules :: fopen_result
  garbage_name :: string
  garbage_refs :: u64
  error_returns :: bool
  delete_module :: "string \<Rightarrow> u32 \<Rightarrow> int"

datatype rmmod_end = Rmmod_returns int "(string \<times> u32) option" | Rmmod_exits int | Rmmod_in_error

definition rmmod :: "rmmod_os \<Rightarrow> string \<Rightarrow> u32 \<Rightarrow> rmmod_end option" where
  "rmmod OS path flags =
     (let name = filename2modname path;
          remove = (let ret = delete_module OS name flags in Some (Rmmod_returns ret (Some (name, flags))))
      in if flags AND O_NONBLOCK \<noteq> 0 \<and> flags AND O_TRUNC = 0 then
           (case check_usage (error_returns OS) (proc_modules OS) (garbage_name OS) (garbage_refs OS) name of
              None \<Rightarrow> None
            | Some (Exited c) \<Rightarrow> Some (Rmmod_exits c)
            | Some Ended_in_error \<Rightarrow> Some Rmmod_in_error
            | Some (Usage u) \<Rightarrow> if u \<noteq> 0 then Some (Rmmod_returns 1 None) else remove)
         else remove)"

definition rmmod_main :: "rmmod_os \<Rightarrow> string list \<Rightarrow> rmmod_end option" where
  "rmmod_main OS argv =
     (case argv of
        [] \<Rightarrow> None
      | path # _ \<Rightarrow>
          (case rmmod OS path (O_NONBLOCK OR O_EXCL) of
             Some (Rmmod_returns ret call) \<Rightarrow> Some (Rmmod_returns (if ret \<noteq> 0 then 1 else 0) call)
           | r \<Rightarrow> r))"

section \<open>Lemmas\<close>

lemma strrchr_None: "strrchr ch s = None \<longleftrightarrow> ch \<notin> set s"
  by (induction s) (auto split: option.splits)

lemma strrchr_Some: "strrchr ch s = Some b \<Longrightarrow> \<exists>p r. s = p @ b \<and> b = ch # r \<and> ch \<notin> set r"
proof (induction s)
  case (Cons c cs)
  show ?case
  proof (cases "strrchr ch cs")
    case None
    then have "ch \<notin> set cs" using strrchr_None by blast
    with Cons.prems None show ?thesis by (auto split: if_splits)
  next
    case (Some b')
    then obtain p r where "cs = p @ b" "b = ch # r" "ch \<notin> set r" using Cons by auto
    then show ?thesis by (metis append_Cons)
  qed
qed simp

lemma basename_split:
  "\<exists>dir. path = dir @ basename path \<and> (dir = [] \<or> last dir = CHR ''/'') \<and> CHR ''/'' \<notin> set (basename path)"
proof (cases "strrchr (CHR ''/'') path")
  case None
  then have "CHR ''/'' \<notin> set path" using strrchr_None by blast
  with None show ?thesis by (simp add: basename_def)
next
  case (Some b)
  then obtain p r where "path = p @ b" "b = CHR ''/'' # r" "CHR ''/'' \<notin> set r"
    using strrchr_Some by blast
  with Some show ?thesis by (intro exI [of _ "p @ ''/''"]) (simp add: basename_def)
qed

lemma modname_loop_stem:
  "modname_loop s = map (\<lambda>c. if c = CHR ''-'' then CHR ''_'' else c) (takeWhile (\<lambda>c. c \<noteq> CHR ''.'') s)"
  by (induction s) simp_all

lemma modname_loop_chars:
  "c \<in> set (modname_loop s) \<Longrightarrow> c \<noteq> CHR ''.'' \<and> c \<noteq> CHR ''-'' \<and> (c \<in> set s \<or> c = CHR ''_'')"
  by (induction s) (auto split: if_splits)

lemma modname_loop_length: "length (modname_loop s) \<le> length s"
  by (induction s) auto

lemma modname_loop_id: "CHR ''.'' \<notin> set s \<Longrightarrow> CHR ''-'' \<notin> set s \<Longrightarrow> modname_loop s = s"
  by (induction s) auto

text \<open>A line of \<^verbatim>\<open>/proc/modules\<close> as the kernel prints it, and how it is read.\<close>

definition proc_line :: "string \<times> nat \<times> nat \<times> string \<Rightarrow> string" where
  "proc_line m = (case m of (name, sz, refs, info) \<Rightarrow>
     name @ '' '' @ dec_digits sz @ '' '' @ dec_digits refs @ '' '' @ info @ [NL])"

definition proc_entry_ok :: "string \<times> nat \<times> nat \<times> string \<Rightarrow> bool" where
  "proc_entry_ok m = (case m of (name, sz, refs, info) \<Rightarrow>
     name \<noteq> [] \<and> (\<forall>c\<in>set name. \<not> is_space c) \<and> length name < 64 \<and> sz < 2 ^ 64 \<and> refs < 2 ^ 64 \<and>
     NL \<notin> set info \<and> length info < 10000)"

lemma takeWhile_prefix: "(\<forall>c\<in>set w. P c) \<Longrightarrow> \<not> P d \<Longrightarrow> takeWhile P (w @ d # r) = w"
  by (induction w) auto

lemma is_space_blank [simp]: "is_space (CHR '' '')" "is_space NL"
  by (simp_all add: is_space_def)

lemma digit_no_space: "is_digit c \<Longrightarrow> \<not> is_space c"
  by (auto simp: is_digit_def is_space_def)

lemma dec_value_append: "dec_value a (s @ t) = dec_value (dec_value a s) t"
  by (induction s arbitrary: a) auto

lemma dec_value_digits: "dec_value 0 (dec_digits n) = n"
proof (induction n rule: dec_digits.induct)
  case (1 n)
  then show ?case by (subst dec_digits.simps) (simp add: dec_value_append)
qed

lemma scan_s_word:
  assumes "w \<noteq> []" and "\<forall>c\<in>set w. \<not> is_space c" and "is_space d"
  shows "scan_s (w @ d # r) = Some (w, d # r)"
proof -
  obtain c cs where "w = c # cs" "\<not> is_space c" using assms(1,2) by (cases w) auto
  then have "dropWhile is_space (w @ d # r) = w @ d # r" by simp
  then show ?thesis using takeWhile_prefix [OF assms(2)] assms by (simp add: scan_s_def Let_def)
qed

lemma scan_lu_digits:
  assumes "n < 2 ^ 64"
  shows "scan_lu (CHR '' '' # dec_digits n @ CHR '' '' # r) = Some (of_nat n, CHR '' '' # r)"
proof -
  obtain c cs where c: "dec_digits n = c # cs" by (cases "dec_digits n") auto
  have digit: "is_digit c" using dec_digits_are_digits [of c n] c by simp
  then have "\<not> is_space c" "c \<noteq> CHR ''-''" "c \<noteq> CHR ''+''" by (auto simp: digit_no_space is_digit_def)
  moreover have "\<not> is_digit (CHR '' '')" by (simp add: is_digit_def)
  then have "takeWhile is_digit (dec_digits n @ CHR '' '' # r) = dec_digits n"
    using dec_digits_are_digits by (intro takeWhile_prefix) auto
  ultimately show ?thesis using assms dec_value_digits [of n] by (simp add: scan_lu_def c)
qed

lemma sscanf_proc_line:
  assumes "proc_entry_ok (name, sz, refs, info)"
  shows "sscanf_line (proc_line (name, sz, refs, info)) = (Some name, Some (of_nat refs))"
proof -
  have "scan_s (proc_line (name, sz, refs, info)) =
      Some (name, CHR '' '' # dec_digits sz @ CHR '' '' # dec_digits refs @ CHR '' '' # info @ [NL])"
    using assms by (simp add: proc_line_def proc_entry_ok_def scan_s_word)
  then show ?thesis using assms
    by (simp add: sscanf_line_def proc_entry_ok_def scan_lu_digits)
qed

lemma fgets_proc_line:
  assumes "proc_entry_ok m"
  shows "fgets_line (proc_line m @ r) = proc_line m" and "NL \<in> set (proc_line m)"
proof -
  obtain name sz refs info where m: "m = (name, sz, refs, info)" by (cases m)
  define w where "w = name @ '' '' @ dec_digits sz @ '' '' @ dec_digits refs @ '' '' @ info"
  have w: "proc_line m = w @ [NL]" by (simp add: m w_def proc_line_def)
  have "length (dec_digits sz) \<le> 20" "length (dec_digits refs) \<le> 20"
    using assms dec_digits_length [of sz 20] dec_digits_length [of refs 20]
    by (simp_all add: m proc_entry_ok_def)
  then have "length w < 10238" using assms by (simp add: m w_def proc_entry_ok_def)
  moreover have "NL \<notin> set w"
    using assms dec_digits_are_digits digit_not_special by (auto simp: m w_def proc_entry_ok_def)
  then have "takeWhile (\<lambda>c. c \<noteq> NL) (w @ NL # r) = w" by (intro takeWhile_prefix) auto
  ultimately show "fgets_line (proc_line m @ r) = proc_line m" by (simp add: fgets_line_def w)
  show "NL \<in> set (proc_line m)" by (simp add: w)
qed

lemma check_loop_modules:
  assumes "\<forall>m\<in>set ms. proc_entry_ok m"
  shows "check_loop er modname (concat (map proc_line ms)) name0 refs0 =
     Some (case map_of ms modname of
         None \<Rightarrow> if er then Usage (- EINVAL) else Ended_in_error
       | Some (sz, refs, info) \<Rightarrow> Usage (if refs = 0 then 0 else - EINVAL))"
  using assms
proof (induction ms arbitrary: name0 refs0)
  case Nil then show ?case by (subst check_loop.simps) simp
next
  case (Cons m ms)
  obtain name sz refs info where m: "m = (name, sz, refs, info)" by (cases m)
  have ok: "proc_entry_ok m" using Cons.prems by simp
  have z: "(of_nat refs :: u64) = 0 \<longleftrightarrow> refs = 0"
    using ok unat_of_nat_u64 [of refs] by (auto simp: m proc_entry_ok_def)
  have ne: "proc_line m \<noteq> []" by (simp add: m proc_line_def)
  have len: "length name < 64" using ok by (simp add: m proc_entry_ok_def)
  have IH: "check_loop er modname (concat (map proc_line ms)) name (of_nat refs) =
     Some (case map_of ms modname of
         None \<Rightarrow> if er then Usage (- EINVAL) else Ended_in_error
       | Some (sz, refs, info) \<Rightarrow> Usage (if refs = 0 then 0 else - EINVAL))"
    using Cons by simp
  show ?case using ne len z IH fgets_proc_line [OF ok] sscanf_proc_line [of name sz refs info] ok
    by (subst check_loop.simps) (simp add: m)
qed

section \<open>Properties\<close>

text \<open>
  C24: Every path consists of a directory part that is empty or ends in a slash, a stem
  without dots, and a rest that is empty or begins with a dot, where stem and rest contain no
  slash; the module name is exactly this stem with every hyphen turned into an underscore and
  every other character kept. So the name fits into the buffer of strlen(path) + 1 bytes, it
  has no slash, dot or hyphen, and making a module name of a module name changes nothing, as
  the comment says.
\<close>

theorem filename2modname_correct:
  "(\<exists>dir stem rest. path = dir @ stem @ rest \<and> (dir = [] \<or> last dir = CHR ''/'') \<and>
      CHR ''/'' \<notin> set (stem @ rest) \<and> CHR ''.'' \<notin> set stem \<and> (rest = [] \<or> hd rest = CHR ''.'') \<and>
      filename2modname path = map (\<lambda>c. if c = CHR ''-'' then CHR ''_'' else c) stem) \<and>
   length (filename2modname path) \<le> length path \<and>
   set (filename2modname path) \<inter> {CHR ''/'', CHR ''.'', CHR ''-''} = {} \<and>
   filename2modname (filename2modname path) = filename2modname path"
proof -
  let ?P = "\<lambda>c. c \<noteq> CHR ''.''" and ?b = "basename path"
  obtain dir where dir: "path = dir @ ?b" "dir = [] \<or> last dir = CHR ''/''" "CHR ''/'' \<notin> set ?b"
    using basename_split by blast
  have "path = dir @ takeWhile ?P ?b @ dropWhile ?P ?b" using dir(1) by simp
  moreover have "CHR ''.'' \<notin> set (takeWhile ?P ?b)" by (auto dest: set_takeWhileD)
  moreover have "dropWhile ?P ?b = [] \<or> hd (dropWhile ?P ?b) = CHR ''.''" using hd_dropWhile [of ?P ?b] by auto
  moreover have "filename2modname path = map (\<lambda>c. if c = CHR ''-'' then CHR ''_'' else c) (takeWhile ?P ?b)"
    by (simp add: filename2modname_def modname_loop_stem)
  moreover have "CHR ''/'' \<notin> set (takeWhile ?P ?b @ dropWhile ?P ?b)" using dir(3) by simp
  ultimately have spec: "\<exists>dir stem rest. path = dir @ stem @ rest \<and> (dir = [] \<or> last dir = CHR ''/'') \<and>
      CHR ''/'' \<notin> set (stem @ rest) \<and> CHR ''.'' \<notin> set stem \<and> (rest = [] \<or> hd rest = CHR ''.'') \<and>
      filename2modname path = map (\<lambda>c. if c = CHR ''-'' then CHR ''_'' else c) stem"
    using dir(2) by blast
  have "length ?b \<le> length path" by (subst (2) dir(1)) simp
  then have len: "length (filename2modname path) \<le> length path"
    using modname_loop_length [of ?b] by (simp add: filename2modname_def)
  have chars: "set (filename2modname path) \<inter> {CHR ''/'', CHR ''.'', CHR ''-''} = {}"
    using modname_loop_chars [of _ ?b] dir(3) by (fastforce simp: filename2modname_def)
  then have "basename (filename2modname path) = filename2modname path"
    by (simp add: basename_def option.case_eq_if strrchr_None)
  then have "filename2modname (filename2modname path) = filename2modname path"
    using chars modname_loop_id [of "filename2modname path"] by (simp add: filename2modname_def)
  with len chars spec show ?thesis by blast
qed

text \<open>
  C23: When /proc/modules lists the loaded modules in the format of the kernel, rmmod calls
  delete_module exactly when the module named by its argument is listed with a reference
  count of 0: then with that name and the flags O_NONBLOCK and O_EXCL, and the exit code
  tells whether delete_module succeeded. For a module in use it exits with 1 and does not
  enter the kernel, and a module that is not listed ends in the call of error.
\<close>

theorem rmmod_main_correct:
  assumes "\<forall>m\<in>set ms. proc_entry_ok m" and "proc_modules OS = Opened (concat (map proc_line ms))"
  shows "rmmod_main OS (path # args) = Some
     (case map_of ms (filename2modname path) of
        None \<Rightarrow> if error_returns OS then Rmmod_returns 1 None else Rmmod_in_error
      | Some (sz, refs, info) \<Rightarrow>
          if refs = 0
          then Rmmod_returns (if delete_module OS (filename2modname path) 0x880 \<noteq> 0 then 1 else 0)
                 (Some (filename2modname path, 0x880))
          else Rmmod_returns 1 None)"
  using check_loop_modules [OF assms(1)] assms(2)
  by (simp add: rmmod_main_def rmmod_def check_usage_def Let_def split: option.split)

definition demo_os :: rmmod_os where
  "demo_os = \<lparr> proc_modules = Opened (concat (map proc_line [(''snd'', 16384, 2, ''- Live''), (''my_mod'', 4096, 0, ''- Live'')])),
     garbage_name = [], garbage_refs = 7, error_returns = False, delete_module = (\<lambda>_ _. 0) \<rparr>"

theorem rmmod_main_correct_witness:
  "rmmod_main demo_os [''/lib/my-mod.ko''] = Some (Rmmod_returns 0 (Some (''my_mod'', 0x880)))"
  using rmmod_main_correct [of "[(''snd'', 16384, 2, ''- Live''), (''my_mod'', 4096, 0, ''- Live'')]" demo_os "''/lib/my-mod.ko''" "[]"]
  by (simp add: demo_os_def proc_entry_ok_def is_space_def filename2modname_def basename_def)

text \<open>
  check_usage is not robust: if /proc/modules exists but cannot be opened the NULL stream
  is read; a line that lacks its reference count is judged by the count left over from the
  line before, or by stack garbage; and a name of 64 characters or more overruns the buffer.
\<close>

theorem check_usage_unsafe:
  "check_usage er Fopen_error name0 refs0 modname = None \<and>
   check_usage er (Opened (''ab 1'' @ [NL])) name0 refs0 ''ab'' = Some (Usage (if refs0 = 0 then 0 else - EINVAL)) \<and>
   check_usage er (Opened (replicate 64 (CHR ''a'') @ [NL])) name0 refs0 modname = None"
proof (intro conjI)
  show "check_usage er Fopen_error name0 refs0 modname = None" by (simp add: check_usage_def)
  have "fgets_line (''ab 1'' @ [NL]) = ''ab 1'' @ [NL]" by (simp add: fgets_line_def)
  moreover have "sscanf_line (''ab 1'' @ [NL]) = (Some ''ab'', None)"
    by (simp add: sscanf_line_def scan_s_def scan_lu_def is_space_def is_digit_def)
  ultimately show "check_usage er (Opened (''ab 1'' @ [NL])) name0 refs0 ''ab'' = Some (Usage (if refs0 = 0 then 0 else - EINVAL))"
    by (simp add: check_usage_def check_loop.simps [of er "''ab''" "''ab 1'' @ [NL]"] del: append_Cons append_Nil) 
  let ?l = "replicate 64 (CHR ''a'') @ [NL]"
  have "takeWhile (\<lambda>c. c \<noteq> NL) ?l = replicate 64 (CHR ''a'')" by (intro takeWhile_prefix) auto
  then have "fgets_line ?l = ?l" by (simp add: fgets_line_def)
  moreover have "scan_s ?l = Some (replicate 64 (CHR ''a''), [NL])"
    by (intro scan_s_word) (auto simp: is_space_def)
  then obtain r where "sscanf_line ?l = (Some (replicate 64 (CHR ''a'')), r)" by (simp add: sscanf_line_def)
  ultimately show "check_usage er (Opened ?l) name0 refs0 modname = None"
    by (simp add: check_usage_def check_loop.simps [of er modname ?l] Let_def split: prod.split)
qed

end
