(* ===== verification/System_Map.thy ===== *)
theory System_Map
  imports C_Strings "HOL-Library.Sublist"
begin

text \<open>
  Two user-space programs around \<^verbatim>\<open>uname\<close>: \<^verbatim>\<open>Userspace_UnameSyscall/uname_code.c\<close> prints the
  fields of the structure, \<^verbatim>\<open>Userspace_Read_System_map_file/read_system_map.c\<close> builds the name of
  the symbol file of the running kernel from the release and shows the first line in it that
  mentions the system call table, split into its fields. The answers of \<^verbatim>\<open>uname\<close> and \<^verbatim>\<open>fopen\<close> are
  arguments; \<open>None\<close> is a write past the end of the path buffer.
\<close>

section \<open>The programs\<close>

record utsname =
  sysname :: string
  nodename :: string
  release :: string
  version :: string
  machine :: string

definition uname_main :: "string \<Rightarrow> utsname option \<Rightarrow> int \<times> string list" where
  "uname_main strerror uname =
     (case uname of
        None \<Rightarrow> (1, [strerror @ '':uname(2)''])
      | Some u_name \<Rightarrow>
          (0, [''System infomation: '', '' sysname[] = '' @ c_str (sysname u_name), '' nodename[] = '' @ c_str (nodename u_name),
               '' release[] = '' @ c_str (release u_name), '' version[] = '' @ c_str (version u_name),
               '' machine[] = '' @ c_str (machine u_name)]))"

text \<open>\<^verbatim>\<open>fgets(line, size, file)\<close> on the unread rest of the file: up to a newline, and at most
  \<open>size - 1\<close> characters.\<close>

definition newline :: char where "newline = CHR 0x0A"

definition fgets :: "nat \<Rightarrow> string \<Rightarrow> string" where
  "fgets sz rest =
     (let l = takeWhile (\<lambda>c. c \<noteq> newline) rest
      in take (sz - 1) (if length l < length rest then l @ [newline] else l))"

fun strstr :: "string \<Rightarrow> string \<Rightarrow> string option" where
  "strstr pat [] = (if pat = [] then Some [] else None)"
| "strstr pat (c # cs) = (if take (length pat) (c # cs) = pat then Some (c # cs) else strstr pat cs)"

text \<open>One call of \<^verbatim>\<open>strtok_r\<close> on the string that is left: the next token and what is left then.\<close>

definition strtok_r :: "char \<Rightarrow> string \<Rightarrow> (string \<times> string) option" where
  "strtok_r d s =
     (let s = dropWhile (\<lambda>c. c = d) s; tok = takeWhile (\<lambda>c. c \<noteq> d) s
      in if s = [] then None else Some (tok, drop (length tok + 1) s))"

lemma strtok_r_shorter: "strtok_r d s = Some (tok, r) \<Longrightarrow> length r < length s"
  using length_dropWhile_le [of "\<lambda>c. c = d" s]
  by (cases "dropWhile (\<lambda>c. c = d) s") (auto simp: strtok_r_def Let_def split: if_splits)

datatype map_msg = Uname_error | Map_path string | Open_failed | Map_line string | Map_field string

function split_loop :: "string \<Rightarrow> map_msg list" where
  "split_loop s = (case strtok_r (CHR '' '') s of None \<Rightarrow> [] | Some (tok, saveptr) \<Rightarrow> Map_field tok # split_loop saveptr)"
  by pat_completeness auto
termination split_loop
  by (relation "measure length") (auto dest: strtok_r_shorter)

declare split_loop.simps [simp del]

lemma fgets_progress: "rest \<noteq> [] \<Longrightarrow> 0 < length (fgets 1023 rest)"
  by (cases rest) (auto simp: fgets_def Let_def)

function scan_loop :: "string \<Rightarrow> map_msg list" where
  "scan_loop rest =
     (if rest = [] then []
      else
        (let line = fgets 1023 rest
         in case strstr ''sys_call_table'' (c_str line) of
              None \<Rightarrow> scan_loop (drop (length line) rest)
            | Some psearch \<Rightarrow> Map_line (c_str line) # split_loop (c_str line)))"
  by pat_completeness auto
termination scan_loop
  by (relation "measure length") (auto intro!: diff_less fgets_progress)

declare scan_loop.simps [simp del]

definition sysmap_main :: "utsname option \<Rightarrow> (string \<Rightarrow> string option) \<Rightarrow> (int \<times> map_msg list) option" where
  "sysmap_main uname fopen =
     (case uname of
        None \<Rightarrow> Some (1, [Uname_error])
      | Some u_name \<Rightarrow>
          (let sysmapFile = ''/boot/System.map-'' @ c_str (release u_name)
           in if 4096 \<le> length sysmapFile then None
              else case fopen sysmapFile of
                     None \<Rightarrow> Some (1, [Map_path sysmapFile, Open_failed])
                   | Some contents \<Rightarrow> Some (0, Map_path sysmapFile # scan_loop contents)))"

section \<open>Reference definitions and lemmas\<close>

fun split_at :: "char \<Rightarrow> string \<Rightarrow> string list" where
  "split_at d [] = [[]]"
| "split_at d (c # cs) =
     (if c = d then [] # split_at d cs else case split_at d cs of w # ws \<Rightarrow> (c # w) # ws | [] \<Rightarrow> [[c]])"

definition line_fields :: "string \<Rightarrow> string list" where
  "line_fields s = filter (\<lambda>w. w \<noteq> []) (split_at (CHR '' '') s)"

lemma split_at_not_Nil [simp]: "split_at d s \<noteq> []"
  by (induction s) (auto split: list.splits)

lemma split_at_word: "d \<notin> set w \<Longrightarrow> split_at d (w @ d # r) = w # split_at d r" "d \<notin> set w \<Longrightarrow> split_at d w = [w]"
  by (induction w) auto

lemma strstr_sublist: "strstr pat s \<noteq> None \<longleftrightarrow> sublist pat s"
proof (induction s)
  case (Cons c cs)
  have "take (length pat) (c # cs) = pat \<longleftrightarrow> prefix pat (c # cs)"
    by (metis append_eq_conv_conj append_take_drop_id prefix_def)
  then show ?case using Cons by (auto simp: sublist_Cons_right)
qed simp

lemma split_loop_line_fields: "split_loop s = map Map_field (line_fields s)"
proof (induction s rule: split_loop.induct)
  case (1 s)
  let ?d = "CHR '' ''"
  define t where "t = dropWhile (\<lambda>c. c = ?d) s"
  have skip: "line_fields s = line_fields t" unfolding t_def by (induction s) (auto simp: line_fields_def)
  show ?case
  proof (cases "t = []")
    case True
    then have "strtok_r ?d s = None" by (simp add: strtok_r_def flip: t_def)
    moreover have "line_fields s = []" unfolding skip using True by (simp add: line_fields_def)
    ultimately show ?thesis by (subst split_loop.simps) simp
  next
    case False
    define tok where "tok = takeWhile (\<lambda>c. c \<noteq> ?d) t"
    have step: "strtok_r ?d s = Some (tok, drop (length tok + 1) t)"
      using False by (simp add: strtok_r_def t_def tok_def Let_def)
    have tok: "?d \<notin> set tok" "tok \<noteq> []"
      using False hd_dropWhile [of "\<lambda>c. c = ?d" s] unfolding tok_def t_def
      by (auto dest: set_takeWhileD simp: takeWhile_eq_Nil_iff)
    have "line_fields t = tok # line_fields (drop (length tok + 1) t)"
    proof (cases "dropWhile (\<lambda>c. c \<noteq> ?d) t")
      case Nil
      then have "t = tok" unfolding tok_def by (metis append.right_neutral takeWhile_dropWhile_id)
      then show ?thesis using tok by (simp add: line_fields_def split_at_word)
    next
      case (Cons c r)
      then have "t = tok @ c # r" "c = ?d" unfolding tok_def
        using takeWhile_dropWhile_id [of "\<lambda>c. c \<noteq> ?d" t] hd_dropWhile [of "\<lambda>c. c \<noteq> ?d" t] by auto
      then have "line_fields t = line_fields (tok @ ?d # r)" "drop (length tok + 1) t = r" by simp_all
      moreover have "line_fields (tok @ ?d # r) = tok # line_fields r"
        unfolding line_fields_def split_at_word(1) [OF tok(1)] using tok(2) by simp
      ultimately show ?thesis by simp
    qed
    then show ?thesis using 1 [OF step] step skip by (subst split_loop.simps) simp
  qed
qed

text \<open>A text file of short lines, and how the program reads it.\<close>

definition text_of :: "string list \<Rightarrow> string" where
  "text_of ls = concat (map (\<lambda>l. l @ [newline]) ls)"

definition short_line :: "string \<Rightarrow> bool" where
  "short_line l \<longleftrightarrow> newline \<notin> set l \<and> NUL \<notin> set l \<and> length l < 1022"

lemma fgets_short: "short_line l \<Longrightarrow> fgets 1023 (l @ newline # r) = l @ [newline]"
proof -
  assume l: "short_line l"
  then have "takeWhile (\<lambda>c. c \<noteq> newline) (l @ newline # r) = l"
    by (auto simp: short_line_def takeWhile_tail takeWhile_eq_all_conv)
  then show ?thesis using l by (auto simp: fgets_def short_line_def)
qed

lemma c_str_short: "short_line l \<Longrightarrow> c_str (l @ [newline]) = l @ [newline]"
  by (auto simp: short_line_def c_str_def takeWhile_eq_all_conv newline_def)

lemma sublist_before_newline:
  assumes "newline \<notin> set pat" and "pat \<noteq> []"
  shows "sublist pat (l @ [newline]) \<longleftrightarrow> sublist pat l"
proof
  assume "sublist pat (l @ [newline])"
  then obtain p q where pq: "l @ [newline] = p @ pat @ q" by (auto simp: sublist_def)
  have "q \<noteq> []"
  proof
    assume "q = []"
    then have "last pat = newline" using pq assms(2) by (metis append_Nil2 last_appendR snoc_eq_iff_butlast)
    then show False using assms by (metis last_in_set)
  qed
  then have "l = p @ pat @ butlast q" using pq by (metis append_is_Nil_conv butlast_append butlast_snoc)
  then show "sublist pat l" by (auto simp: sublist_def)
next
  assume "sublist pat l"
  then obtain p q where "l = p @ pat @ q" by (auto simp: sublist_def)
  then have "l @ [newline] = p @ pat @ (q @ [newline])" by simp
  then show "sublist pat (l @ [newline])" unfolding sublist_def by blast
qed

lemma scan_loop_lines:
  assumes "list_all short_line ls"
  shows "scan_loop (text_of ls) =
    (case find (sublist ''sys_call_table'') ls of
       None \<Rightarrow> [] | Some l \<Rightarrow> Map_line (l @ [newline]) # map Map_field (line_fields (l @ [newline])))"
  using assms
proof (induction ls)
  case Nil
  then show ?case by (subst scan_loop.simps) (simp add: text_of_def)
next
  case (Cons l ls)
  then have l: "short_line l" by simp
  have "strstr ''sys_call_table'' (c_str (l @ [newline])) \<noteq> None \<longleftrightarrow> sublist ''sys_call_table'' l"
    unfolding c_str_short [OF l] strstr_sublist by (rule sublist_before_newline) (simp_all add: newline_def)
  moreover have "text_of (l # ls) = l @ newline # text_of ls" by (simp add: text_of_def)
  ultimately show ?case using Cons fgets_short [OF l, of "text_of ls"]
    by (subst scan_loop.simps) (auto simp: Let_def c_str_short [OF l] split_loop_line_fields split: option.split)
qed

section \<open>Properties\<close>

text \<open>
  C33: On a symbol file of lines that fit the buffer, the reading loop with its search and its
  tokenizer is equivalent to the plain description: print the path made from the release, find
  the first line that has the name of the system call table somewhere inside, print it and its
  non-empty fields between blanks; print nothing more if there is no such line. Both failing
  calls end the program with status 1, and the path never overruns its buffer.
\<close>

theorem sysmap_main_reference:
  assumes "list_all short_line ls" and "length (c_str (release u)) \<le> 64"
    and "fopen (''/boot/System.map-'' @ c_str (release u)) = Some (text_of ls)"
  shows "sysmap_main (Some u) fopen =
      Some (0, Map_path (''/boot/System.map-'' @ c_str (release u)) #
        (case find (sublist ''sys_call_table'') ls of
           None \<Rightarrow> [] | Some l \<Rightarrow> Map_line (l @ [newline]) # map Map_field (filter (\<lambda>w. w \<noteq> []) (split_at (CHR '' '') (l @ [newline]))))) \<and>
    sysmap_main (Some u) (\<lambda>_. None) = Some (1, [Map_path (''/boot/System.map-'' @ c_str (release u)), Open_failed]) \<and>
    sysmap_main None fopen = Some (1, [Uname_error])"
  using assms scan_loop_lines [OF assms(1)] by (simp add: sysmap_main_def line_fields_def Let_def split: option.split)

definition some_release :: utsname where
  "some_release = \<lparr> sysname = ''Linux'', nodename = ''n'', release = ''4.1'', version = ''v'', machine = ''m'' \<rparr>"

theorem sysmap_main_reference_witness:
  "sysmap_main (Some some_release) (\<lambda>_. Some (text_of [''01 T start'', ''02 R sys_call_table''])) =
     Some (0, [Map_path ''/boot/System.map-4.1'', Map_line (''02 R sys_call_table'' @ [newline]),
       Map_field ''02'', Map_field ''R'', Map_field (''sys_call_table'' @ [newline])])"
proof -
  have "list_all short_line [''01 T start'', ''02 R sys_call_table'']" by (simp add: short_line_def newline_def)
  moreover have "c_str (release some_release) = ''4.1''" by (simp add: some_release_def c_str_def)
  moreover have "\<not> sublist ''sys_call_table'' ''01 T start''" by (simp add: sublist_Cons_right)
  moreover have "sublist ''sys_call_table'' ''02 R sys_call_table''" by (simp add: sublist_Cons_right)
  ultimately show ?thesis
    using sysmap_main_reference [of "[''01 T start'', ''02 R sys_call_table'']" some_release
        "\<lambda>_. Some (text_of [''01 T start'', ''02 R sys_call_table''])"] by (simp add: newline_def)
qed

end
