(* ===== verification/Fanotify.thy ===== *)
theory Fanotify
  imports Kernel_Prelude
begin

unbundle bit_operations_syntax

text \<open>
  The user-space monitor \<^verbatim>\<open>Userspace_Fanotify_Other_TestCode/fanotify.c\<close>: it turns its options
  into an event mask and flags, marks files or mounts, and for every event prints a line,
  answers permission requests, sets ignore masks and closes the event's descriptor. \<^verbatim>\<open>getopt\<close>
  is not modelled: the options come as a list of characters with their arguments, followed by
  the remaining operands. \<open>sys n\<close> says whether the \<open>n\<close>-th system call succeeds.
\<close>

section \<open>Constants\<close>

abbreviation (input) FAN_ACCESS :: u64 where "FAN_ACCESS \<equiv> 0x1"
abbreviation (input) FAN_MODIFY :: u64 where "FAN_MODIFY \<equiv> 0x2"
abbreviation (input) FAN_CLOSE_WRITE :: u64 where "FAN_CLOSE_WRITE \<equiv> 0x8"
abbreviation (input) FAN_CLOSE_NOWRITE :: u64 where "FAN_CLOSE_NOWRITE \<equiv> 0x10"
abbreviation (input) FAN_OPEN :: u64 where "FAN_OPEN \<equiv> 0x20"
abbreviation (input) FAN_OPEN_PERM :: u64 where "FAN_OPEN_PERM \<equiv> 0x10000"
abbreviation (input) FAN_ACCESS_PERM :: u64 where "FAN_ACCESS_PERM \<equiv> 0x20000"
abbreviation (input) FAN_EVENT_ON_CHILD :: u64 where "FAN_EVENT_ON_CHILD \<equiv> 0x8000000"
abbreviation (input) FAN_ONDIR :: u64 where "FAN_ONDIR \<equiv> 0x40000000"
abbreviation (input) FAN_CLOSE :: u64 where "FAN_CLOSE \<equiv> 0x18"
abbreviation (input) FAN_ALL_EVENTS :: u64 where "FAN_ALL_EVENTS \<equiv> 0x3B"
abbreviation (input) FAN_ALL_PERM_EVENTS :: u64 where "FAN_ALL_PERM_EVENTS \<equiv> 0x30000"
abbreviation (input) FAN_CLASS_NOTIF :: u32 where "FAN_CLASS_NOTIF \<equiv> 0"
abbreviation (input) FAN_CLASS_CONTENT :: u32 where "FAN_CLASS_CONTENT \<equiv> 4"
abbreviation (input) FAN_MARK_ADD :: u32 where "FAN_MARK_ADD \<equiv> 0x1"
abbreviation (input) FAN_MARK_MOUNT :: u32 where "FAN_MARK_MOUNT \<equiv> 0x10"
abbreviation (input) FAN_MARK_IGNORED_MASK :: u32 where "FAN_MARK_IGNORED_MASK \<equiv> 0x20"
abbreviation (input) FAN_MARK_IGNORED_SURV_MODIFY :: u32 where "FAN_MARK_IGNORED_SURV_MODIFY \<equiv> 0x40"
abbreviation (input) FAN_MARK_FLUSH :: u32 where "FAN_MARK_FLUSH \<equiv> 0x80"
abbreviation (input) FAN_ALLOW :: u32 where "FAN_ALLOW \<equiv> 1"

section \<open>Options\<close>

record fan_opts =
  fan_mask :: u64
  opt_child :: bool
  opt_on_mount :: bool
  opt_add_perms :: bool
  opt_fast :: bool
  opt_ignore_perm :: bool
  opt_sleep :: int

definition default_opts :: fan_opts where
  "default_opts = \<lparr> fan_mask = ((FAN_OPEN OR FAN_CLOSE) OR FAN_ACCESS) OR FAN_MODIFY, opt_child = False,
     opt_on_mount = False, opt_add_perms = False, opt_fast = False, opt_ignore_perm = True, opt_sleep = 0 \<rparr>"

text \<open>\<^verbatim>\<open>strtok(str, ",")\<close> until it returns \<^verbatim>\<open>NULL\<close>: the non-empty pieces between commas.\<close>

fun pieces :: "string \<Rightarrow> string \<Rightarrow> string list" where
  "pieces acc [] = [acc]"
| "pieces acc (c # cs) = (if c = CHR '','' then acc # pieces [] cs else pieces (acc @ [c]) cs)"

definition strtok_all :: "string \<Rightarrow> string list" where
  "strtok_all str = filter (\<lambda>t. t \<noteq> []) (pieces [] str)"

definition event_of :: "string \<Rightarrow> u64 option" where
  "event_of tok =
     (if tok = ''open'' then Some FAN_OPEN
      else if tok = ''close'' then Some FAN_CLOSE
      else if tok = ''access'' then Some FAN_ACCESS
      else if tok = ''modify'' then Some FAN_MODIFY
      else if tok = ''open_perm'' then Some FAN_OPEN_PERM
      else if tok = ''access_perm'' then Some FAN_ACCESS_PERM
      else None)"

text \<open>\<open>None\<close> is the exit through \<^verbatim>\<open>synopsis\<close> with status 1.\<close>

fun parse_events :: "u64 \<Rightarrow> string list \<Rightarrow> u64 option" where
  "parse_events m [] = Some m"
| "parse_events m (tok # toks) =
     (case event_of tok of None \<Rightarrow> None | Some e \<Rightarrow> parse_events (m OR e) toks)"

text \<open>One round of the \<^verbatim>\<open>getopt\<close> loop; \<open>Inl\<close> is the exit status, \<open>atoi\<close> the conversion of \<^verbatim>\<open>-s\<close>.\<close>

definition parse_opt :: "(string \<Rightarrow> int) \<Rightarrow> char \<times> string \<Rightarrow> fan_opts \<Rightarrow> int + fan_opts" where
  "parse_opt atoi = (\<lambda>(opt, optarg) p.
     if opt = CHR ''o'' then
       (case parse_events 0 (strtok_all optarg) of None \<Rightarrow> Inl 1 | Some m \<Rightarrow> Inr (p\<lparr> fan_mask := m \<rparr>))
     else if opt = CHR ''c'' then Inr (p\<lparr> opt_child := True \<rparr>)
     else if opt = CHR ''d'' then Inr (p\<lparr> fan_mask := fan_mask p OR FAN_ONDIR \<rparr>)
     else if opt = CHR ''f'' then Inr (p\<lparr> opt_fast := True, opt_ignore_perm := True \<rparr>)
     else if opt = CHR ''m'' then Inr (p\<lparr> opt_on_mount := True \<rparr>)
     else if opt = CHR ''n'' then Inr (p\<lparr> opt_fast := False, opt_ignore_perm := False \<rparr>)
     else if opt = CHR ''p'' then Inr (p\<lparr> opt_add_perms := True \<rparr>)
     else if opt = CHR ''s'' then Inr (p\<lparr> opt_sleep := atoi optarg \<rparr>)
     else if opt = CHR ''h'' then Inl 0
     else Inl 1)"

fun parse_opts :: "(string \<Rightarrow> int) \<Rightarrow> (char \<times> string) list \<Rightarrow> fan_opts \<Rightarrow> int + fan_opts" where
  "parse_opts atoi [] p = Inr p"
| "parse_opts atoi (x # xs) p =
     (case parse_opt atoi x p of Inl status \<Rightarrow> Inl status | Inr p \<Rightarrow> parse_opts atoi xs p)"

text \<open>After the loop: the final mask, the mark flags and the class of the group.\<close>

definition final_mask :: "fan_opts \<Rightarrow> u64" where
  "final_mask p =
     (let m = fan_mask p;
          m = (if opt_child p then m OR FAN_EVENT_ON_CHILD else m)
      in if opt_add_perms p then m OR FAN_ALL_PERM_EVENTS else m)"

definition mark_flags :: "fan_opts \<Rightarrow> u32" where
  "mark_flags p = (if opt_on_mount p then FAN_MARK_ADD OR FAN_MARK_MOUNT else FAN_MARK_ADD)"

definition init_flags :: "fan_opts \<Rightarrow> u32" where
  "init_flags p =
     (if final_mask p AND FAN_ALL_PERM_EVENTS \<noteq> 0 then 0 OR FAN_CLASS_CONTENT else 0 OR FAN_CLASS_NOTIF)"

section \<open>Events\<close>

record fan_metadata =
  event_len :: nat
  vers :: nat
  md_mask :: u64
  md_fd :: int
  md_pid :: int

datatype mark_target = Mark_fd int | Mark_path string
datatype fan_text = Txt string | Pid int

record fan_state =
  fan_group :: "u32 option"
  fan_marks :: "(u32 \<times> u64 \<times> mark_target) list"
  fan_responses :: "(int \<times> u32) list"
  fan_closed :: "int list"
  fan_calls :: nat
  fan_path :: string
  fan_out :: "fan_text list"

definition syscall :: "(nat \<Rightarrow> bool) \<Rightarrow> fan_state \<Rightarrow> bool \<times> fan_state" where
  "syscall sys s = (sys (fan_calls s), s\<lparr> fan_calls := fan_calls s + 1 \<rparr>)"

text \<open>
  A flush removes the marks on files and directories; marks on mounts would have to be asked
  for with their own flag.
\<close>

definition usr1_handler :: "(nat \<Rightarrow> bool) \<Rightarrow> fan_state \<Rightarrow> fan_state" where
  "usr1_handler sys s =
     (let (ok, s) = syscall sys s
      in if ok then s\<lparr> fan_marks := filter (\<lambda>(flags, _, _). flags AND FAN_MARK_MOUNT \<noteq> 0) (fan_marks s) \<rparr> else s)"

definition mark_object :: "(nat \<Rightarrow> bool) \<Rightarrow> mark_target \<Rightarrow> u64 \<Rightarrow> u32 \<Rightarrow> fan_state \<Rightarrow> int \<times> fan_state" where
  "mark_object sys target evmask flags s =
     (let (ok, s) = syscall sys s
      in if ok then (0, s\<lparr> fan_marks := fan_marks s @ [(flags, evmask, target)] \<rparr>) else (- 1, s))"

definition set_special_ignored :: "(nat \<Rightarrow> bool) \<Rightarrow> int \<Rightarrow> string \<Rightarrow> fan_state \<Rightarrow> int \<times> fan_state" where
  "set_special_ignored sys fd path s =
     (let flags = (FAN_MARK_ADD OR FAN_MARK_IGNORED_MASK) OR FAN_MARK_IGNORED_SURV_MODIFY;
          evmask = FAN_ALL_EVENTS OR FAN_ALL_PERM_EVENTS
      in if path \<noteq> ''/var/log/audit/audit.log'' \<and> path \<noteq> ''/var/log/messages'' \<and>
            path \<noteq> ''/var/log/wtmp'' \<and> path \<noteq> ''/var/run/utmp''
         then (0, s)
         else mark_object sys (Mark_fd fd) evmask flags s)"

definition set_ignored_mask :: "(nat \<Rightarrow> bool) \<Rightarrow> int \<Rightarrow> u64 \<Rightarrow> fan_state \<Rightarrow> int \<times> fan_state" where
  "set_ignored_mask sys fd evmask s =
     (let flags = FAN_MARK_ADD OR FAN_MARK_IGNORED_MASK in mark_object sys (Mark_fd fd) evmask flags s)"

definition handle_perm :: "(nat \<Rightarrow> bool) \<Rightarrow> fan_metadata \<Rightarrow> fan_state \<Rightarrow> int \<times> fan_state" where
  "handle_perm sys metadata s =
     (let (ok, s) = syscall sys s
      in if ok then (0, s\<lparr> fan_responses := fan_responses s @ [(md_fd metadata, FAN_ALLOW)] \<rparr>) else (- 1, s))"

definition event_words :: "u64 \<Rightarrow> string list" where
  "event_words m =
     (if m AND FAN_ACCESS \<noteq> 0 then ['' access''] else []) @
     (if m AND FAN_OPEN \<noteq> 0 then ['' open''] else []) @
     (if m AND FAN_MODIFY \<noteq> 0 then ['' modify''] else []) @
     (if m AND FAN_CLOSE \<noteq> 0 then
        (if m AND FAN_CLOSE_WRITE \<noteq> 0 then ['' close(writable)''] else []) @
        (if m AND FAN_CLOSE_NOWRITE \<noteq> 0 then ['' close''] else [])
      else []) @
     (if m AND FAN_OPEN_PERM \<noteq> 0 then ['' open_perm''] else []) @
     (if m AND FAN_ACCESS_PERM \<noteq> 0 then ['' access_perm''] else [])"

text \<open>
  The body of the event loop, step by step; the flag is \<open>False\<close> when the code jumps to
  \<^verbatim>\<open>fail\<close>. \<open>readlink fd\<close> is the path behind a descriptor. \<^verbatim>\<open>path\<close> keeps its contents from one
  event to the next.
\<close>

definition event_fast :: "(nat \<Rightarrow> bool) \<Rightarrow> fan_opts \<Rightarrow> fan_metadata \<Rightarrow> fan_state \<Rightarrow> bool \<times> fan_state" where
  "event_fast sys p md s =
     (if md_fd md \<ge> 0 \<and> opt_fast p then
        (let (r, s) = set_ignored_mask sys (md_fd md) (FAN_ALL_EVENTS OR FAN_ALL_PERM_EVENTS) s in (r = 0, s))
      else (True, s))"

definition event_show :: "(int \<Rightarrow> string option) \<Rightarrow> fan_metadata \<Rightarrow> fan_state \<Rightarrow> bool \<times> fan_state" where
  "event_show readlink md s =
     (if md_fd md \<ge> 0 then
        (case readlink (md_fd md) of
           None \<Rightarrow> (False, s)
         | Some l \<Rightarrow> (True, s\<lparr> fan_path := l, fan_out := fan_out s @ [Txt (l @ '':'')] \<rparr>))
      else (True, s\<lparr> fan_out := fan_out s @ [Txt ''?:''] \<rparr>))"

definition event_perm :: "(nat \<Rightarrow> bool) \<Rightarrow> fan_opts \<Rightarrow> fan_metadata \<Rightarrow> fan_state \<Rightarrow> bool \<times> fan_state" where
  "event_perm sys p md s =
     (if md_mask md AND FAN_ALL_PERM_EVENTS \<noteq> 0 then
        (let (r, s) = handle_perm sys md s
         in if r \<noteq> 0 then (False, s)
            else if md_fd md \<ge> 0 \<and> opt_ignore_perm p then
              (let (r, s) = set_ignored_mask sys (md_fd md) (md_mask md) s in (r = 0, s))
            else (True, s))
      else (True, s))"

definition event_close :: "(nat \<Rightarrow> bool) \<Rightarrow> fan_metadata \<Rightarrow> fan_state \<Rightarrow> bool \<times> fan_state" where
  "event_close sys md s =
     (if md_fd md \<ge> 0 then
        (let (ok, s) = syscall sys s in (ok, if ok then s\<lparr> fan_closed := fan_closed s @ [md_fd md] \<rparr> else s))
      else (True, s))"

definition fan_event :: "(nat \<Rightarrow> bool) \<Rightarrow> (int \<Rightarrow> string option) \<Rightarrow> fan_opts \<Rightarrow> fan_metadata \<Rightarrow> fan_state \<Rightarrow> bool \<times> fan_state" where
  "fan_event sys readlink p md s =
     (if vers md < 2 then (False, s)
      else case event_fast sys p md s of
        (False, s) \<Rightarrow> (False, s)
      | (True, s) \<Rightarrow>
          (case event_show readlink md s of
             (False, s) \<Rightarrow> (False, s)
           | (True, s) \<Rightarrow>
               (let s = snd (set_special_ignored sys (md_fd md) (fan_path s) s);
                    s = s\<lparr> fan_out := fan_out s @ Pid (md_pid md) # map Txt (event_words (md_mask md)) \<rparr>
                in case event_perm sys p md s of
                     (False, s) \<Rightarrow> (False, s)
                   | (True, s) \<Rightarrow> event_close sys md (s\<lparr> fan_out := fan_out s @ [Txt [CHR 0x0A]] \<rparr>))))"

text \<open>\<^verbatim>\<open>FAN_EVENT_OK\<close> and \<^verbatim>\<open>FAN_EVENT_NEXT\<close>: the buffer as the list of the events in it; the size
  of the metadata is 24 bytes.\<close>

definition FAN_EVENT_OK :: "fan_metadata \<Rightarrow> nat \<Rightarrow> bool" where
  "FAN_EVENT_OK md len \<longleftrightarrow> len \<ge> 24 \<and> event_len md \<ge> 24 \<and> event_len md \<le> len"

fun fan_events :: "(nat \<Rightarrow> bool) \<Rightarrow> (int \<Rightarrow> string option) \<Rightarrow> fan_opts \<Rightarrow> fan_metadata list \<Rightarrow> nat \<Rightarrow> fan_state \<Rightarrow> bool \<times> fan_state" where
  "fan_events sys readlink p [] len s = (True, s)"
| "fan_events sys readlink p (md # mds) len s =
     (if FAN_EVENT_OK md len then
        (case fan_event sys readlink p md s of
           (False, s) \<Rightarrow> (False, s)
         | (True, s) \<Rightarrow> fan_events sys readlink p mds (len - event_len md) s)
      else (True, s))"

section \<open>The program\<close>

fun mark_files :: "(nat \<Rightarrow> bool) \<Rightarrow> u64 \<Rightarrow> u32 \<Rightarrow> string list \<Rightarrow> fan_state \<Rightarrow> bool \<times> fan_state" where
  "mark_files sys evmask flags [] s = (True, s)"
| "mark_files sys evmask flags (f # fs) s =
     (let (r, s) = mark_object sys (Mark_path f) evmask flags s
      in if r \<noteq> 0 then (False, s) else mark_files sys evmask flags fs s)"

text \<open>What one round of \<^verbatim>\<open>select\<close> and \<^verbatim>\<open>read\<close> brings; a wait that the signal interrupts is repeated by
  the code, after the handler has run. A list of rounds that runs out ends like a read at end
  of file.\<close>

datatype fan_read = Select_fails | Read_fails | Read_eof | Read_events "fan_metadata list" nat | Wait_usr1

fun read_loop :: "(nat \<Rightarrow> bool) \<Rightarrow> (int \<Rightarrow> string option) \<Rightarrow> fan_opts \<Rightarrow> fan_read list \<Rightarrow> fan_state \<Rightarrow> int \<times> fan_state" where
  "read_loop sys readlink p [] s = (0, s)"
| "read_loop sys readlink p (Select_fails # rs) s = (1, s)"
| "read_loop sys readlink p (Read_fails # rs) s = (1, s)"
| "read_loop sys readlink p (Read_eof # rs) s = (0, s)"
| "read_loop sys readlink p (Read_events mds len # rs) s =
     (case fan_events sys readlink p mds len s of
        (False, s) \<Rightarrow> (1, s)
      | (True, s) \<Rightarrow> read_loop sys readlink p rs s)"
| "read_loop sys readlink p (Wait_usr1 # rs) s = read_loop sys readlink p rs (usr1_handler sys s)"

text \<open>The usage text, on the standard output only for \<^verbatim>\<open>-h\<close>.\<close>

definition synopsis :: "string \<Rightarrow> int \<Rightarrow> fan_state \<Rightarrow> int \<times> fan_state" where
  "synopsis progname status s =
     (status, if status = 0 then s\<lparr> fan_out := fan_out s @ [Txt (''USAGE: '' @ progname)] \<rparr> else s)"

definition fan_main ::
    "(nat \<Rightarrow> bool) \<Rightarrow> (int \<Rightarrow> string option) \<Rightarrow> (string \<Rightarrow> int) \<Rightarrow> string \<Rightarrow> (char \<times> string) list \<Rightarrow> string list \<Rightarrow>
     fan_read list \<Rightarrow> fan_state \<Rightarrow> int \<times> fan_state" where
  "fan_main sys readlink atoi progname opts files reads s =
     (let (sigaction_ok, s) = syscall sys s
      in if \<not> sigaction_ok then (1, s)
         else case parse_opts atoi opts default_opts of
           Inl status \<Rightarrow> synopsis progname status s
         | Inr p \<Rightarrow>
             if files = [] then synopsis progname 1 s
             else
               (let (init_ok, s) = syscall sys s
                in if \<not> init_ok then (1, s)
                   else
                     (let s = s\<lparr> fan_group := Some (init_flags p) \<rparr>
                      in case mark_files sys (final_mask p) (mark_flags p) files s of
                           (False, s) \<Rightarrow> (1, s)
                         | (True, s) \<Rightarrow> read_loop sys readlink p reads s)))"

section \<open>Lemmas\<close>

abbreviation wants_perm :: "fan_metadata \<Rightarrow> bool" where
  "wants_perm md \<equiv> md_mask md AND FAN_ALL_PERM_EVENTS \<noteq> 0"

text \<open>What one event adds to the answers and to the closed descriptors when it does not fail.\<close>

definition answers :: "fan_metadata \<Rightarrow> (int \<times> u32) list" where
  "answers md = (if wants_perm md then [(md_fd md, FAN_ALLOW)] else [])"

definition closes :: "fan_metadata \<Rightarrow> int list" where
  "closes md = (if md_fd md \<ge> 0 then [md_fd md] else [])"

lemma mark_object_frame:
  "mark_object sys t m f s = (r, s') \<Longrightarrow> fan_responses s' = fan_responses s \<and> fan_closed s' = fan_closed s"
  by (auto simp: mark_object_def syscall_def split: if_splits)

lemma set_ignored_frame:
  "set_ignored_mask sys fd m s = (r, s') \<Longrightarrow> fan_responses s' = fan_responses s \<and> fan_closed s' = fan_closed s"
  unfolding set_ignored_mask_def Let_def by (rule mark_object_frame)

lemma special_ignored_frame:
  "fan_responses (snd (set_special_ignored sys fd q s)) = fan_responses s \<and>
   fan_closed (snd (set_special_ignored sys fd q s)) = fan_closed s"
  unfolding set_special_ignored_def Let_def
  by (cases "mark_object sys (Mark_fd fd) (0x3B OR 0x30000) (1 OR 0x20 OR 0x40) s")
    (auto dest: mark_object_frame)

lemma event_fast_frame:
  "event_fast sys p md s = (b, s') \<Longrightarrow> fan_responses s' = fan_responses s \<and> fan_closed s' = fan_closed s"
  by (auto simp: event_fast_def split: if_splits prod.splits dest: set_ignored_frame)

lemma event_show_frame:
  "event_show readlink md s = (b, s') \<Longrightarrow> fan_responses s' = fan_responses s \<and> fan_closed s' = fan_closed s"
  by (auto simp: event_show_def split: if_splits option.splits)

lemma event_perm_effect:
  assumes "event_perm sys p md s = (b, s')"
  shows "fan_closed s' = fan_closed s \<and>
     (fan_responses s' = fan_responses s @ answers md \<or> \<not> b \<and> fan_responses s' = fan_responses s)"
  using assms
  by (auto simp: event_perm_def handle_perm_def syscall_def answers_def split: if_splits prod.splits dest!: set_ignored_frame)

lemma event_close_effect:
  assumes "event_close sys md s = (b, s')"
  shows "fan_responses s' = fan_responses s \<and> (if b then fan_closed s' = fan_closed s @ closes md else fan_closed s' = fan_closed s)"
  using assms by (auto simp: event_close_def syscall_def closes_def split: if_splits)

lemma fan_event_effect:
  assumes "fan_event sys readlink p md s = (b, s')"
  shows "if b then fan_responses s' = fan_responses s @ answers md \<and> fan_closed s' = fan_closed s @ closes md
     else (fan_responses s' = fan_responses s \<or> fan_responses s' = fan_responses s @ answers md) \<and>
       fan_closed s' = fan_closed s"
proof (cases "vers md < 2")
  case True
  with assms show ?thesis by (auto simp: fan_event_def)
next
  case False
  obtain b1 s1 where s1: "event_fast sys p md s = (b1, s1)" by fastforce
  obtain b2 s2 where s2: "event_show readlink md s1 = (b2, s2)" by fastforce
  define s3 where "s3 = (snd (set_special_ignored sys (md_fd md) (fan_path s2) s2))\<lparr> fan_out :=
      fan_out (snd (set_special_ignored sys (md_fd md) (fan_path s2) s2)) @ Pid (md_pid md) # map Txt (event_words (md_mask md)) \<rparr>"
  obtain b4 s4 where s4: "event_perm sys p md s3 = (b4, s4)" by fastforce
  obtain b5 s5 where s5: "event_close sys md (s4\<lparr> fan_out := fan_out s4 @ [Txt [CHR 0x0A]] \<rparr>) = (b5, s5)" by fastforce
  have r: "(b, s') = (if \<not> b1 then (False, s1) else if \<not> b2 then (False, s2) else if \<not> b4 then (False, s4) else (b5, s5))"
    using assms False s1 s2 s4 s5 by (auto simp: fan_event_def s3_def Let_def split: bool.splits)
  have "fan_responses s3 = fan_responses s2" "fan_closed s3 = fan_closed s2"
    using special_ignored_frame by (simp_all add: s3_def)
  then show ?thesis using r event_fast_frame [OF s1] event_show_frame [OF s2] event_perm_effect [OF s4]
      event_close_effect [OF s5]
    by (auto split: if_splits)
qed

lemma fan_events_effect:
  assumes "fan_events sys readlink p mds len s = (b, s')"
    and "\<forall>md\<in>set mds. 24 \<le> event_len md" and "len = sum_list (map event_len mds)"
  shows "\<exists>k\<le>length mds. (b \<longrightarrow> k = length mds) \<and>
     fan_closed s' = fan_closed s @ concat (map closes (take k mds)) \<and>
     (fan_responses s' = fan_responses s @ concat (map answers (take k mds)) \<or>
      \<not> b \<and> fan_responses s' = fan_responses s @ concat (map answers (take (Suc k) mds)))"
  using assms
proof (induction mds arbitrary: len s)
  case (Cons md mds)
  have ok: "FAN_EVENT_OK md len" using Cons.prems by (simp add: FAN_EVENT_OK_def)
  obtain b1 s1 where s1: "fan_event sys readlink p md s = (b1, s1)" by fastforce
  show ?case
  proof (cases b1)
    case False
    then have "b = False" "s' = s1" using Cons.prems(1) ok s1 by auto
    with fan_event_effect [OF s1] False show ?thesis by (intro exI [of _ 0]) auto
  next
    case True
    then have "fan_events sys readlink p mds (sum_list (map event_len mds)) s1 = (b, s')"
      using Cons.prems ok s1 by simp
    then obtain k where "k \<le> length mds" "b \<longrightarrow> k = length mds"
      "fan_closed s' = fan_closed s1 @ concat (map closes (take k mds))"
      "fan_responses s' = fan_responses s1 @ concat (map answers (take k mds)) \<or>
       \<not> b \<and> fan_responses s' = fan_responses s1 @ concat (map answers (take (Suc k) mds))"
      using Cons.IH Cons.prems(2) by fastforce
    with fan_event_effect [OF s1] True show ?thesis by (intro exI [of _ "Suc k"]) auto
  qed
qed simp

lemma fan_event_succeeds:
  assumes "\<forall>n. sys n" and "2 \<le> vers md" and "0 \<le> md_fd md \<longrightarrow> readlink (md_fd md) \<noteq> None"
  shows "fst (fan_event sys readlink p md s)"
proof -
  have m: "\<exists>s'. mark_object sys t m f s = (0, s')" for t m f s
    using assms(1) by (simp add: mark_object_def syscall_def)
  then have f: "\<exists>s'. event_fast sys p md s = (True, s')" for s
  proof -
    obtain s1 where "set_ignored_mask sys (md_fd md) (FAN_ALL_EVENTS OR FAN_ALL_PERM_EVENTS) s = (0, s1)"
      using m unfolding set_ignored_mask_def Let_def by blast
    then show ?thesis by (simp add: event_fast_def)
  qed
  have w: "\<exists>s'. event_show readlink md s = (True, s')" for s
    using assms(3) by (auto simp: event_show_def)
  have pm: "\<exists>s'. event_perm sys p md s = (True, s')" for s
  proof -
    obtain s1 where s1: "handle_perm sys md s = (0, s1)" using assms(1) by (simp add: handle_perm_def syscall_def)
    obtain s2 where "set_ignored_mask sys (md_fd md) (md_mask md) s1 = (0, s2)"
      using m unfolding set_ignored_mask_def Let_def by blast
    with s1 show ?thesis by (simp add: event_perm_def)
  qed
  have c: "\<exists>s'. event_close sys md s = (True, s')" for s
    using assms(1) by (simp add: event_close_def syscall_def)
  obtain s1 where s1: "event_fast sys p md s = (True, s1)" using f by blast
  obtain s2 where s2: "event_show readlink md s1 = (True, s2)" using w by blast
  let ?s3 = "(snd (set_special_ignored sys (md_fd md) (fan_path s2) s2))\<lparr> fan_out :=
      fan_out (snd (set_special_ignored sys (md_fd md) (fan_path s2) s2)) @ Pid (md_pid md) # map Txt (event_words (md_mask md)) \<rparr>"
  obtain s4 where s4: "event_perm sys p md ?s3 = (True, s4)" using pm by blast
  obtain s5 where "event_close sys md (s4\<lparr> fan_out := fan_out s4 @ [Txt [CHR 0x0A]] \<rparr>) = (True, s5)" using c by blast
  with s1 s2 s4 assms(2) show ?thesis by (simp add: fan_event_def Let_def)
qed

lemma fan_events_succeed:
  assumes "\<forall>n. sys n" and "\<forall>md\<in>set mds. 2 \<le> vers md \<and> (0 \<le> md_fd md \<longrightarrow> readlink (md_fd md) \<noteq> None)"
  shows "fst (fan_events sys readlink p mds len s)"
  using assms(2)
proof (induction mds arbitrary: len s)
  case (Cons md mds)
  obtain s1 where "fan_event sys readlink p md s = (True, s1)"
    using fan_event_succeeds [OF assms(1), of md readlink p s] Cons.prems
    by (cases "fan_event sys readlink p md s") auto
  with Cons show ?case by simp
qed simp

text \<open>Which options ask for permission events.\<close>

fun last_events :: "(char \<times> string) list \<Rightarrow> string option" where
  "last_events [] = None"
| "last_events ((c, a) # xs) =
     (case last_events xs of Some b \<Rightarrow> Some b | None \<Rightarrow> if c = CHR ''o'' then Some a else None)"

definition perm_tokens :: "string \<Rightarrow> bool" where
  "perm_tokens a \<longleftrightarrow> ''open_perm'' \<in> set (strtok_all a) \<or> ''access_perm'' \<in> set (strtok_all a)"

lemma perm_or: "(m OR e :: u64) AND k = 0 \<longleftrightarrow> m AND k = 0 \<and> e AND k = 0"
  by (simp add: bit.conj_disj_distrib2 or_eq_0_iff)

lemma event_of_perm:
  "event_of tok = Some e \<Longrightarrow> e AND 0x30000 \<noteq> 0 \<longleftrightarrow> tok = ''open_perm'' \<or> tok = ''access_perm''"
  by (auto simp: event_of_def split: if_splits)

lemma parse_events_perm:
  "parse_events m toks = Some m' \<Longrightarrow>
     m' AND 0x30000 \<noteq> 0 \<longleftrightarrow> m AND 0x30000 \<noteq> 0 \<or> ''open_perm'' \<in> set toks \<or> ''access_perm'' \<in> set toks"
proof (induction toks arbitrary: m)
  case (Cons tok toks)
  then obtain e where e: "event_of tok = Some e" "parse_events (m OR e) toks = Some m'"
    by (auto split: option.splits)
  show ?case using Cons.IH [OF e(2)] event_of_perm [OF e(1)] perm_or [of m e "0x30000"] by auto
qed simp

lemma parse_opts_perm:
  "parse_opts atoi xs p = Inr q \<Longrightarrow>
     (fan_mask q AND 0x30000 \<noteq> 0 \<longleftrightarrow>
        (case last_events xs of None \<Rightarrow> fan_mask p AND 0x30000 \<noteq> 0 | Some a \<Rightarrow> perm_tokens a)) \<and>
     (opt_add_perms q \<longleftrightarrow> opt_add_perms p \<or> CHR ''p'' \<in> fst ` set xs)"
proof (induction xs arbitrary: p)
  case (Cons x xs)
  obtain c a where x: "x = (c, a)" by (cases x)
  from Cons.prems obtain p1 where p1: "parse_opt atoi (c, a) p = Inr p1" "parse_opts atoi xs p1 = Inr q"
    by (auto simp: x split: sum.splits)
  have m: "fan_mask p1 AND 0x30000 \<noteq> 0 \<longleftrightarrow> (if c = CHR ''o'' then perm_tokens a else fan_mask p AND 0x30000 \<noteq> 0)"
    using p1(1) parse_events_perm [of 0 "strtok_all a"] perm_or [of "fan_mask p" "0x40000000" "0x30000"]
    by (auto simp: parse_opt_def perm_tokens_def split: if_splits option.splits)
  have "opt_add_perms p1 \<longleftrightarrow> opt_add_perms p \<or> c = CHR ''p''"
    using p1(1) by (auto simp: parse_opt_def split: if_splits option.splits)
  with m Cons.IH [OF p1(2)] show ?case by (auto simp: x split: option.splits if_splits)
qed simp

section \<open>Properties\<close>

text \<open>
  For a buffer of events as the kernel fills it, the monitor handles the events one after
  the other, and whatever system call fails first, the descriptors of a prefix of the events
  have been closed, each once, and exactly the permission events of that prefix have been
  answered, each once and with FAN_ALLOW; only the event at which it stops may have been
  answered already. If no call fails, all events are handled.
\<close>

theorem fan_events_answered_and_closed:
  assumes "\<forall>md\<in>set mds. 24 \<le> event_len md" and "len = sum_list (map event_len mds)"
  shows "\<exists>b s' k. fan_events sys readlink p mds len s = (b, s') \<and> k \<le> length mds \<and> (b \<longrightarrow> k = length mds) \<and>
     fan_closed s' = fan_closed s @ concat (map closes (take k mds)) \<and>
     (fan_responses s' = fan_responses s @ concat (map answers (take k mds)) \<or>
      \<not> b \<and> fan_responses s' = fan_responses s @ concat (map answers (take (Suc k) mds))) \<and>
     ((\<forall>n. sys n) \<and> (\<forall>md\<in>set mds. 2 \<le> vers md \<and> (0 \<le> md_fd md \<longrightarrow> readlink (md_fd md) \<noteq> None)) \<longrightarrow> b)"
proof -
  obtain b s' where r: "fan_events sys readlink p mds len s = (b, s')" by fastforce
  have "(\<forall>n. sys n) \<and> (\<forall>md\<in>set mds. 2 \<le> vers md \<and> (0 \<le> md_fd md \<longrightarrow> readlink (md_fd md) \<noteq> None)) \<longrightarrow> b"
    using fan_events_succeed [of sys mds readlink p len s] r by simp
  with fan_events_effect [OF r assms] r show ?thesis by blast
qed

definition idle_fan :: fan_state where
  "idle_fan = \<lparr> fan_group = None, fan_marks = [], fan_responses = [], fan_closed = [], fan_calls = 0, fan_path = [], fan_out = [] \<rparr>"

definition two_events :: "fan_metadata list" where
  "two_events = [\<lparr> event_len = 24, vers = 3, md_mask = 0x10000, md_fd = 5, md_pid = 100 \<rparr>,
     \<lparr> event_len = 24, vers = 3, md_mask = 0x8, md_fd = 6, md_pid = 101 \<rparr>]"

theorem fan_events_answered_and_closed_witness:
  "\<exists>s'. fan_events (\<lambda>_. True) (\<lambda>_. Some ''/tmp/f'') default_opts two_events 48 idle_fan = (True, s') \<and>
     fan_closed s' = [5, 6] \<and> fan_responses s' = [(5, 1)]"
  using fan_events_answered_and_closed [of two_events 48 "\<lambda>_. True" "\<lambda>_. Some ''/tmp/f''" default_opts idle_fan]
  by (auto simp: two_events_def idle_fan_def closes_def answers_def simp del: fan_events.simps)

text \<open>
  The group is created in the class that may receive permission events exactly when such
  events are in the mask of the marks, and that is the case exactly when the option -p was
  given or the last -o names open_perm or access_perm; earlier -o options do not count,
  because each one starts a new mask.
\<close>

theorem fan_class_matches_mask:
  assumes "parse_opts atoi opts default_opts = Inr p"
  shows "(init_flags p = FAN_CLASS_CONTENT \<longleftrightarrow> final_mask p AND FAN_ALL_PERM_EVENTS \<noteq> 0) \<and>
     (init_flags p = FAN_CLASS_CONTENT \<longleftrightarrow>
        CHR ''p'' \<in> fst ` set opts \<or> (case last_events opts of None \<Rightarrow> False | Some a \<Rightarrow> perm_tokens a))"
proof -
  have q: "(fan_mask p AND 0x30000 \<noteq> 0 \<longleftrightarrow> (case last_events opts of None \<Rightarrow> False | Some a \<Rightarrow> perm_tokens a))"
    "opt_add_perms p \<longleftrightarrow> CHR ''p'' \<in> fst ` set opts"
    using parse_opts_perm [OF assms] by (simp_all add: default_opts_def cong: option.case_cong)
  have child: "(fan_mask p OR 0x8000000) AND 0x30000 \<noteq> 0 \<longleftrightarrow> fan_mask p AND 0x30000 \<noteq> 0"
    using perm_or [of "fan_mask p" "0x8000000" "0x30000"] by simp
  have "final_mask p AND 0x30000 \<noteq> 0 \<longleftrightarrow> fan_mask p AND 0x30000 \<noteq> 0 \<or> opt_add_perms p"
    using child perm_or [of _ "0x30000" "0x30000"] by (simp add: final_mask_def Let_def)
  then show ?thesis using q by (simp add: init_flags_def)
qed

theorem fan_class_matches_mask_witness:
  "\<exists>p. parse_opts (\<lambda>_. 0) [(CHR ''o'', ''open,open_perm''), (CHR ''o'', ''close'')] default_opts = Inr p \<and>
     init_flags p \<noteq> 4"
proof -
  let ?o = "[(CHR ''o'', ''open,open_perm''), (CHR ''o'', ''close'')]"
  obtain p where p: "parse_opts (\<lambda>_. 0) ?o default_opts = Inr p"
    by (simp add: parse_opt_def strtok_all_def event_of_def)
  from fan_class_matches_mask [OF p] p show ?thesis by (auto simp: perm_tokens_def strtok_all_def)
qed

end
