(* ===== verification/Fanotify_Monitor.thy ===== *)
theory Fanotify_Monitor
  imports Fanotify C_Strings
begin

unbundle bit_operations_syntax

text \<open>
  The program \<^verbatim>\<open>Userspace_Fanotify_TestCode/test_fan.c\<close>, and with it
  \<^verbatim>\<open>test_fan_debugstatement.c\<close>, which prints more: it marks the mounts of the directories on
  its command line, then waits for signals and events, answers every event and shuts down on
  \<^verbatim>\<open>SIGINT\<close> or \<^verbatim>\<open>SIGTERM\<close>. The kernel's side is a table of marks (on a mount or on an inode;
  without a path the mark goes to the current directory) and the descriptors that are open.
  \<open>alloc n\<close> says whether the \<open>n\<close>-th allocation succeeds; \<open>None\<close> is a \<^verbatim>\<open>NULL\<close> dereference.
\<close>

section \<open>State\<close>

datatype mon_out = Out_event string int string bool bool | Out_fd int | Out_exiting

record mon_state =
  mon_marks :: "(bool \<times> string option) set"
  mon_removals :: "(string option \<times> int) list"
  monitors :: "string option list"
  mon_allocs :: nat
  heap_blocks :: int
  fanotify_open :: bool
  signal_open :: bool
  mon_answers :: "(int \<times> u32) list"
  mon_closed :: "int list"
  mon_out :: "mon_out list"

record mon_os =
  alloc :: "nat \<Rightarrow> bool"
  fanotify_init_ok :: bool
  mark_ok :: "string option \<Rightarrow> bool"
  sigprocmask_ok :: bool
  signalfd_ok :: bool
  link_of :: "int \<Rightarrow> string option"
  cmdline_of :: "int \<Rightarrow> string option"

definition event_mask :: u64 where
  "event_mask = FAN_OPEN_PERM OR FAN_CLOSE_WRITE"

section \<open>Names\<close>

fun cut_at_caret :: "string \<Rightarrow> string" where
  "cut_at_caret (a # b # s) = (if a = CHR ''^'' \<and> b = CHR ''@'' then [] else a # cut_at_caret (b # s))"
| "cut_at_caret s = s"

text \<open>The contents of \<^verbatim>\<open>/proc/<pid>/cmdline\<close> up to its first NUL, cut at the two characters
  \<^verbatim>\<open>^@\<close>; an empty file gives no name.\<close>

definition get_program_name_from_pid :: "mon_os \<Rightarrow> int \<Rightarrow> string option" where
  "get_program_name_from_pid OS pid =
     (case cmdline_of OS pid of
        None \<Rightarrow> None
      | Some contents \<Rightarrow>
          (let buffer = take 4095 contents
           in if buffer = [] then None else Some (cut_at_caret (c_str buffer))))"

definition get_file_path_from_fd :: "mon_os \<Rightarrow> int \<Rightarrow> string option" where
  "get_file_path_from_fd OS fd = (if fd \<le> 0 then None else map_option (take 4095) (link_of OS fd))"

section \<open>Operations\<close>

definition or_unknown :: "string option \<Rightarrow> string" where
  "or_unknown p = (case p of None \<Rightarrow> ''unknown'' | Some x \<Rightarrow> x)"

definition event_process :: "mon_os \<Rightarrow> fan_metadata \<Rightarrow> mon_state \<Rightarrow> mon_state" where
  "event_process OS event s =
     s\<lparr> mon_out := mon_out s @ [Out_event (or_unknown (get_file_path_from_fd OS (md_fd event))) (md_pid event)
            (or_unknown (get_program_name_from_pid OS (md_pid event)))
            (md_mask event AND FAN_CLOSE_WRITE \<noteq> 0) (md_mask event AND FAN_OPEN_PERM \<noteq> 0)],
        mon_closed := mon_closed s @ [md_fd event] \<rparr>"

text \<open>
  \<^verbatim>\<open>FAN_MARK_REMOVE\<close> without \<^verbatim>\<open>FAN_MARK_MOUNT\<close> concerns the mark on the inode; without such a mark
  the call fails with \<^verbatim>\<open>ENOENT\<close>. The results, which the program ignores, are recorded.
\<close>

fun remove_marks :: "string option list \<Rightarrow> mon_state \<Rightarrow> mon_state" where
  "remove_marks [] s = s"
| "remove_marks (path # ps) s =
     remove_marks ps (s\<lparr> mon_marks := mon_marks s - {(False, path)},
                         mon_removals := mon_removals s @ [(path, if (False, path) \<in> mon_marks s then 0 else - ENOENT)],
                         heap_blocks := heap_blocks s - (if path = None then 0 else 1) \<rparr>)"

text \<open>Closing the descriptor of the group ends the group, and with it all marks that are left.\<close>

definition shutdown_fanotify :: "mon_state \<Rightarrow> mon_state" where
  "shutdown_fanotify s =
     (let s = remove_marks (monitors s) s
      in s\<lparr> heap_blocks := heap_blocks s - 1, monitors := [], fanotify_open := False, mon_marks := {} \<rparr>)"

text \<open>\<open>Some False\<close> is the return value -1.\<close>

fun add_marks :: "mon_os \<Rightarrow> string list \<Rightarrow> mon_state \<Rightarrow> bool \<times> mon_state" where
  "add_marks OS [] s = (True, s)"
| "add_marks OS (arg # args) s =
     (let path = (if alloc OS (mon_allocs s) then Some arg else None);
          s = s\<lparr> mon_allocs := mon_allocs s + 1, monitors := monitors s @ [path],
                 heap_blocks := heap_blocks s + (if path = None then 0 else 1) \<rparr>
      in if \<not> mark_ok OS path then (False, s)
         else add_marks OS args (s\<lparr> mon_marks := mon_marks s \<union> {(True, path)} \<rparr>))"

definition initialize_fanotify :: "mon_os \<Rightarrow> string list \<Rightarrow> mon_state \<Rightarrow> (bool \<times> mon_state) option" where
  "initialize_fanotify OS args s =
     (if \<not> fanotify_init_ok OS then Some (False, s)
      else
        (let s = s\<lparr> fanotify_open := True \<rparr>;
             ok = alloc OS (mon_allocs s);
             s = s\<lparr> mon_allocs := mon_allocs s + 1, monitors := [], heap_blocks := heap_blocks s + (if ok then 1 else 0) \<rparr>
         in if \<not> ok \<and> args \<noteq> [] then None else Some (add_marks OS args s)))"

definition shutdown_signals :: "mon_state \<Rightarrow> mon_state" where
  "shutdown_signals s = s\<lparr> signal_open := False \<rparr>"

definition initialize_signals :: "mon_os \<Rightarrow> mon_state \<Rightarrow> bool \<times> mon_state" where
  "initialize_signals OS s =
     (if \<not> sigprocmask_ok OS then (False, s)
      else if \<not> signalfd_ok OS then (False, s)
      else (True, s\<lparr> signal_open := True \<rparr>))"

text \<open>One event: it is processed, which closes its descriptor, and then answered.\<close>

definition answer_event :: "mon_os \<Rightarrow> fan_metadata \<Rightarrow> mon_state \<Rightarrow> mon_state option" where
  "answer_event OS metadata s =
     (let s = event_process OS metadata s;
          ok = alloc OS (mon_allocs s);
          s = s\<lparr> mon_allocs := mon_allocs s + 1, mon_out := mon_out s @ [Out_fd (md_fd metadata)] \<rparr>
      in if \<not> ok then None
         else Some (s\<lparr> mon_answers := mon_answers s @ [(md_fd metadata, FAN_ALLOW)] \<rparr>))"

fun answer_events :: "mon_os \<Rightarrow> fan_metadata list \<Rightarrow> nat \<Rightarrow> mon_state \<Rightarrow> mon_state option" where
  "answer_events OS [] len s = Some s"
| "answer_events OS (md # mds) len s =
     (if FAN_EVENT_OK md len
      then do { s \<leftarrow> answer_event OS md s; answer_events OS mds (len - event_len md) s }
      else Some s)"

text \<open>What one round of \<^verbatim>\<open>poll\<close> reports.\<close>

datatype sig_input = No_signal | Short_read | Signal int
datatype poll_round = Poll_fails | Poll sig_input "(fan_metadata list \<times> nat) option"

datatype mon_exit = Exit_success | Exit_failure | Still_running

fun poll_loop :: "mon_os \<Rightarrow> poll_round list \<Rightarrow> mon_state \<Rightarrow> (mon_exit \<times> mon_state) option" where
  "poll_loop OS [] s = Some (Still_running, s)"
| "poll_loop OS (Poll_fails # rs) s = Some (Exit_failure, s)"
| "poll_loop OS (Poll sig ev # rs) s =
     (case sig of
        Short_read \<Rightarrow> Some (Exit_failure, s)
      | Signal n \<Rightarrow>
          if n = 2 \<or> n = 15 then
            (let s = shutdown_signals (shutdown_fanotify s)
             in Some (Exit_success, s\<lparr> mon_out := mon_out s @ [Out_exiting] \<rparr>))
          else do { s \<leftarrow> (case ev of None \<Rightarrow> Some s | Some (mds, len) \<Rightarrow> answer_events OS mds len s); poll_loop OS rs s }
      | No_signal \<Rightarrow>
          do { s \<leftarrow> (case ev of None \<Rightarrow> Some s | Some (mds, len) \<Rightarrow> answer_events OS mds len s); poll_loop OS rs s })"

definition test_fan_main :: "mon_os \<Rightarrow> string list \<Rightarrow> poll_round list \<Rightarrow> mon_state \<Rightarrow> (mon_exit \<times> mon_state) option" where
  "test_fan_main OS args rounds s =
     (if args = [] then Some (Exit_failure, s)
      else case initialize_signals OS s of
        (False, s) \<Rightarrow> Some (Exit_failure, s)
      | (True, s) \<Rightarrow> do {
          (ok, s) \<leftarrow> initialize_fanotify OS args s;
          if \<not> ok then Some (Exit_failure, s) else poll_loop OS rounds s })"

section \<open>Lemmas\<close>

text \<open>The part of the state that events do not touch.\<close>

definition mon_core :: "mon_state \<Rightarrow> (bool \<times> string option) set \<times> (string option \<times> int) list \<times> string option list \<times> int" where
  "mon_core s = (mon_marks s, mon_removals s, monitors s, heap_blocks s)"

lemma answer_event_effect:
  assumes "\<forall>n. alloc OS n"
  shows "\<exists>s'. answer_event OS md s = Some s' \<and> mon_core s' = mon_core s \<and>
     mon_answers s' = mon_answers s @ [(md_fd md, FAN_ALLOW)] \<and> mon_closed s' = mon_closed s @ [md_fd md]"
  using assms by (simp add: answer_event_def event_process_def mon_core_def)

lemma answer_events_effect:
  assumes "\<forall>n. alloc OS n" and "\<forall>md\<in>set mds. 24 \<le> event_len md"
  shows "\<exists>s'. answer_events OS mds (sum_list (map event_len mds)) s = Some s' \<and> mon_core s' = mon_core s \<and>
     mon_answers s' = mon_answers s @ map (\<lambda>md. (md_fd md, FAN_ALLOW)) mds \<and> mon_closed s' = mon_closed s @ map md_fd mds"
  using assms(2)
proof (induction mds arbitrary: s)
  case (Cons md mds)
  obtain s1 where s1: "answer_event OS md s = Some s1" "mon_core s1 = mon_core s"
    "mon_answers s1 = mon_answers s @ [(md_fd md, FAN_ALLOW)]" "mon_closed s1 = mon_closed s @ [md_fd md]"
    using answer_event_effect [OF assms(1)] by blast
  obtain s2 where "answer_events OS mds (sum_list (map event_len mds)) s1 = Some s2" "mon_core s2 = mon_core s1"
    "mon_answers s2 = mon_answers s1 @ map (\<lambda>md. (md_fd md, FAN_ALLOW)) mds"
    "mon_closed s2 = mon_closed s1 @ map md_fd mds"
    using Cons by fastforce
  with s1 Cons.prems show ?case by (simp add: FAN_EVENT_OK_def)
qed simp

text \<open>A round of \<^verbatim>\<open>poll\<close> that keeps the program running, and its events.\<close>

fun quiet_round :: "poll_round \<Rightarrow> bool" where
  "quiet_round Poll_fails \<longleftrightarrow> False"
| "quiet_round (Poll sig ev) \<longleftrightarrow>
     (case sig of No_signal \<Rightarrow> True | Short_read \<Rightarrow> False | Signal n \<Rightarrow> n \<noteq> 2 \<and> n \<noteq> 15) \<and>
     (case ev of None \<Rightarrow> True
      | Some (mds, len) \<Rightarrow> (\<forall>md\<in>set mds. 24 \<le> event_len md) \<and> len = sum_list (map event_len mds))"

fun round_events :: "poll_round \<Rightarrow> fan_metadata list" where
  "round_events (Poll sig (Some (mds, len))) = mds"
| "round_events _ = []"

lemma poll_loop_quiet:
  assumes "\<forall>n. alloc OS n" and "\<forall>r\<in>set rs. quiet_round r"
  shows "\<exists>s'. poll_loop OS (rs @ rs') s = poll_loop OS rs' s' \<and> mon_core s' = mon_core s \<and>
     mon_answers s' = mon_answers s @ map (\<lambda>md. (md_fd md, FAN_ALLOW)) (concat (map round_events rs)) \<and>
     mon_closed s' = mon_closed s @ map md_fd (concat (map round_events rs))"
  using assms(2)
proof (induction rs arbitrary: s)
  case (Cons r rs)
  then obtain sig ev where r: "r = Poll sig ev" by (cases r) auto
  have "\<exists>s1. (case ev of None \<Rightarrow> Some s | Some (mds, len) \<Rightarrow> answer_events OS mds len s) = Some s1 \<and> mon_core s1 = mon_core s \<and>
     mon_answers s1 = mon_answers s @ map (\<lambda>md. (md_fd md, FAN_ALLOW)) (round_events r) \<and>
     mon_closed s1 = mon_closed s @ map md_fd (round_events r)"
    using Cons.prems answer_events_effect [OF assms(1)] by (cases ev) (auto simp: r)
  then obtain s1 where s1: "(case ev of None \<Rightarrow> Some s | Some (mds, len) \<Rightarrow> answer_events OS mds len s) = Some s1"
    "mon_core s1 = mon_core s" "mon_answers s1 = mon_answers s @ map (\<lambda>md. (md_fd md, FAN_ALLOW)) (round_events r)"
    "mon_closed s1 = mon_closed s @ map md_fd (round_events r)" by blast
  have "poll_loop OS ((r # rs) @ rs') s = poll_loop OS (rs @ rs') s1"
    using Cons.prems s1(1) by (cases sig) (auto simp: r)
  moreover obtain s2 where "poll_loop OS (rs @ rs') s1 = poll_loop OS rs' s2" "mon_core s2 = mon_core s1"
    "mon_answers s2 = mon_answers s1 @ map (\<lambda>md. (md_fd md, FAN_ALLOW)) (concat (map round_events rs))"
    "mon_closed s2 = mon_closed s1 @ map md_fd (concat (map round_events rs))"
    using Cons by fastforce
  ultimately show ?case using s1 by auto
qed auto

lemma add_marks_effect:
  assumes "\<forall>n. alloc OS n" and "\<forall>q. mark_ok OS q"
  shows "\<exists>s'. add_marks OS args s = (True, s') \<and> mon_marks s' = mon_marks s \<union> (\<lambda>a. (True, Some a)) ` set args \<and>
     monitors s' = monitors s @ map Some args \<and> heap_blocks s' = heap_blocks s + int (length args) \<and>
     mon_removals s' = mon_removals s \<and> mon_answers s' = mon_answers s \<and> mon_closed s' = mon_closed s"
proof (induction args arbitrary: s)
  case (Cons a args)
  let ?s = "s\<lparr> mon_allocs := Suc (mon_allocs s), monitors := monitors s @ [Some a],
      heap_blocks := heap_blocks s + 1, mon_marks := insert (True, Some a) (mon_marks s) \<rparr>"
  have "add_marks OS (a # args) s = add_marks OS args ?s" using assms by (simp add: Let_def)
  with Cons.IH [of ?s] show ?case by auto
qed simp

text \<open>On marks that are all on mounts the removals find nothing.\<close>

lemma remove_marks_effect:
  assumes "\<forall>a. (False, a) \<notin> mon_marks s"
  shows "remove_marks (map Some args) s = s\<lparr> mon_removals := mon_removals s @ map (\<lambda>a. (Some a, - ENOENT)) args,
     heap_blocks := heap_blocks s - int (length args) \<rparr>"
  using assms
proof (induction args arbitrary: s)
  case (Cons a args)
  have "mon_marks s - {(False, Some a)} = mon_marks s" using Cons.prems by simp
  with Cons show ?case by (simp add: algebra_simps)
qed simp

section \<open>Properties\<close>

text \<open>
  C25: Started on some directories, with working system calls, the program handles the events
  of any number of poll rounds and ends with success when it receives SIGINT or SIGTERM:
  every event's descriptor has been closed once and every event answered once with FAN_ALLOW,
  in order, both descriptors are closed, all memory is released and no mark is left. The marks
  end only because the group's descriptor is closed: every single FAN_MARK_REMOVE call of the
  shutdown, one per directory, fails with ENOENT, since it names an inode mark and the marks
  were set on mounts.
\<close>

theorem test_fan_main_runs:
  assumes "\<forall>n. alloc OS n" and "\<forall>q. mark_ok OS q" and "fanotify_init_ok OS" and "sigprocmask_ok OS" and "signalfd_ok OS"
    and "args \<noteq> []" and "\<forall>r\<in>set rs. quiet_round r" and "n = 2 \<or> n = 15" and "mon_marks s = {}"
  shows "\<exists>s'. test_fan_main OS args (rs @ Poll (Signal n) ev # rest) s = Some (Exit_success, s') \<and>
     mon_answers s' = mon_answers s @ map (\<lambda>md. (md_fd md, FAN_ALLOW)) (concat (map round_events rs)) \<and>
     mon_closed s' = mon_closed s @ map md_fd (concat (map round_events rs)) \<and>
     \<not> fanotify_open s' \<and> \<not> signal_open s' \<and> heap_blocks s' = heap_blocks s \<and> mon_marks s' = {} \<and>
     mon_removals s' = mon_removals s @ map (\<lambda>a. (Some a, - ENOENT)) args"
proof -
  let ?s0 = "s\<lparr> signal_open := True, fanotify_open := True, mon_allocs := mon_allocs s + 1, monitors := [],
      heap_blocks := heap_blocks s + 1 \<rparr>"
  obtain s1 where s1: "add_marks OS args ?s0 = (True, s1)" "mon_marks s1 = (\<lambda>a. (True, Some a)) ` set args"
    "monitors s1 = map Some args" "heap_blocks s1 = heap_blocks s + 1 + int (length args)"
    "mon_removals s1 = mon_removals s" "mon_answers s1 = mon_answers s" "mon_closed s1 = mon_closed s"
    using add_marks_effect [OF assms(1,2), of args ?s0] assms(9) by auto
  have init: "test_fan_main OS args rounds s = poll_loop OS rounds s1" for rounds
    using assms s1(1) by (simp add: test_fan_main_def initialize_signals_def initialize_fanotify_def Let_def)
  obtain s2 where s2: "poll_loop OS (rs @ Poll (Signal n) ev # rest) s1 = poll_loop OS (Poll (Signal n) ev # rest) s2"
    "mon_core s2 = mon_core s1"
    "mon_answers s2 = mon_answers s1 @ map (\<lambda>md. (md_fd md, FAN_ALLOW)) (concat (map round_events rs))"
    "mon_closed s2 = mon_closed s1 @ map md_fd (concat (map round_events rs))"
    using poll_loop_quiet [OF assms(1,7)] by blast
  have core: "mon_marks s2 = (\<lambda>a. (True, Some a)) ` set args" "monitors s2 = map Some args"
    "heap_blocks s2 = heap_blocks s + 1 + int (length args)" "mon_removals s2 = mon_removals s"
    using s2(2) s1 by (simp_all add: mon_core_def)
  then have "remove_marks (monitors s2) s2 = s2\<lparr> mon_removals := mon_removals s @ map (\<lambda>a. (Some a, - ENOENT)) args,
      heap_blocks := heap_blocks s + 1 \<rparr>"
    using remove_marks_effect [of s2 args] by auto
  then show ?thesis using init s2(1,3,4) s1(6,7) assms(8)
    by (auto simp: shutdown_fanotify_def shutdown_signals_def Let_def)
qed

definition working_os :: mon_os where
  "working_os = \<lparr> alloc = (\<lambda>_. True), fanotify_init_ok = True, mark_ok = (\<lambda>_. True), sigprocmask_ok = True,
     signalfd_ok = True, link_of = (\<lambda>_. Some ''/tmp/f''), cmdline_of = (\<lambda>_. None) \<rparr>"

definition idle_monitor :: mon_state where
  "idle_monitor = \<lparr> mon_marks = {}, mon_removals = [], monitors = [], mon_allocs = 0, heap_blocks = 0, fanotify_open = False,
     signal_open = False, mon_answers = [], mon_closed = [], mon_out = [] \<rparr>"

theorem test_fan_main_runs_witness:
  "\<exists>s'. test_fan_main working_os [''/home''] [Poll No_signal (Some (two_events, 48)), Poll (Signal 15) None] idle_monitor =
       Some (Exit_success, s') \<and>
     mon_closed s' = [5, 6] \<and> mon_answers s' = [(5, 1), (6, 1)] \<and> mon_marks s' = {} \<and>
     mon_removals s' = [(Some ''/home'', - ENOENT)]"
  using test_fan_main_runs [of working_os "[''/home'']" "[Poll No_signal (Some (two_events, 48))]" 15 idle_monitor None "[]"]
  by (auto simp: working_os_def two_events_def idle_monitor_def)

end
