(* ===== verification/Fanotify_Run.thy ===== *)
theory Fanotify_Run
  imports Fanotify
begin

unbundle bit_operations_syntax

text \<open>
  The option driven fanotify monitor as a whole: options, group, marks, the event loop with
  the signal that flushes the marks, and the end.
\<close>

section \<open>Lemmas\<close>

definition events_of :: "fan_read list \<Rightarrow> fan_metadata list" where
  "events_of rs = concat (map (\<lambda>r. case r of Read_events mds len \<Rightarrow> mds | _ \<Rightarrow> []) rs)"

text \<open>A round as the kernel and the user can make it happen: a buffer full of events whose files
  can be named, or the signal.\<close>

fun good_round :: "(int \<Rightarrow> string option) \<Rightarrow> fan_read \<Rightarrow> bool" where
  "good_round readlink (Read_events mds len) \<longleftrightarrow> len = sum_list (map event_len mds) \<and>
     list_all (\<lambda>md. 24 \<le> event_len md \<and> 2 \<le> vers md \<and> (0 \<le> md_fd md \<longrightarrow> readlink (md_fd md) \<noteq> None)) mds"
| "good_round readlink Wait_usr1 \<longleftrightarrow> True"
| "good_round readlink _ \<longleftrightarrow> False"

lemma usr1_handler_frame:
  "fan_responses (usr1_handler sys s) = fan_responses s" "fan_closed (usr1_handler sys s) = fan_closed s"
  by (simp_all add: usr1_handler_def syscall_def)

lemma fan_events_all:
  assumes "\<forall>n. sys n" and "good_round readlink (Read_events mds len)"
  obtains s' where "fan_events sys readlink p mds len s = (True, s')"
    "fan_responses s' = fan_responses s @ concat (map answers mds)" "fan_closed s' = fan_closed s @ concat (map closes mds)"
proof -
  obtain b s' where r: "fan_events sys readlink p mds len s = (b, s')" by fastforce
  have b: "b" using fan_events_succeed [OF assms(1), of mds readlink p len s] assms(2) r by (auto simp: list_all_iff)
  obtain k where k: "b \<longrightarrow> k = length mds" "fan_closed s' = fan_closed s @ concat (map closes (take k mds))"
      "fan_responses s' = fan_responses s @ concat (map answers (take k mds)) \<or>
       \<not> b \<and> fan_responses s' = fan_responses s @ concat (map answers (take (Suc k) mds))"
    using fan_events_effect [OF r] assms(2) by (auto simp: list_all_iff)
  show ?thesis using that [of s'] r b k by simp
qed

lemma read_loop_runs:
  assumes "\<forall>n. sys n" and "list_all (good_round readlink) rs"
  shows "\<exists>s'. read_loop sys readlink p (rs @ [Read_eof]) s = (0, s') \<and>
    fan_responses s' = fan_responses s @ concat (map answers (events_of rs)) \<and>
    fan_closed s' = fan_closed s @ concat (map closes (events_of rs))"
  using assms(2)
proof (induction rs arbitrary: s)
  case (Cons r rs)
  show ?case
  proof (cases r)
    case (Read_events mds len)
    then obtain s1 where "fan_events sys readlink p mds len s = (True, s1)"
      "fan_responses s1 = fan_responses s @ concat (map answers mds)" "fan_closed s1 = fan_closed s @ concat (map closes mds)"
      using fan_events_all [OF assms(1), of readlink mds len p s] Cons.prems by auto
    then show ?thesis using Cons.IH [of s1] Cons.prems Read_events by (auto simp: events_of_def)
  next
    case Wait_usr1
    then show ?thesis using Cons.IH [of "usr1_handler sys s"] Cons.prems by (auto simp: events_of_def usr1_handler_frame)
  qed (use Cons.prems in auto)
qed (simp add: events_of_def)

lemma mark_files_all:
  assumes "\<forall>n. sys n"
  shows "\<exists>s'. mark_files sys evmask flags files s = (True, s') \<and>
    fan_marks s' = fan_marks s @ map (\<lambda>f. (flags, evmask, Mark_path f)) files \<and> fan_group s' = fan_group s \<and>
    fan_responses s' = fan_responses s \<and> fan_closed s' = fan_closed s"
proof (induction files arbitrary: s)
  case (Cons f files)
  let ?s1 = "s\<lparr> fan_marks := fan_marks s @ [(flags, evmask, Mark_path f)], fan_calls := fan_calls s + 1 \<rparr>"
  have "mark_object sys (Mark_path f) evmask flags s = (0, ?s1)"
    using assms by (simp add: mark_object_def syscall_def)
  then show ?case using Cons.IH [of ?s1] by auto
qed simp

section \<open>Properties\<close>

text \<open>
  C37: A whole run: with options that are understood and at least one file, the monitor creates its
  group, marks every file with the mask and flags of the options before it waits, then answers
  every permission event and closes every descriptor of all the buffers it reads, in order and
  once, however often the signal for flushing the marks interrupts its waiting, and ends with
  status 0 at end of file. The flush removes exactly the marks that are not on mounts. Options
  that are not understood, and a command line without files, end with a status and without
  any mark or answer.
\<close>

theorem fan_main_runs:
  assumes "\<forall>n. sys n" and "parse_opts atoi opts default_opts = Inr p" and "files \<noteq> []" and "list_all (good_round readlink) rs"
    and "fan_marks s = []"
  shows "(\<exists>s'. fan_main sys readlink atoi prog opts files (rs @ [Read_eof]) s = (0, s') \<and>
      fan_responses s' = fan_responses s @ concat (map answers (events_of rs)) \<and>
      fan_closed s' = fan_closed s @ concat (map closes (events_of rs))) \<and>
    (\<exists>s'. fan_main sys readlink atoi prog opts files [Read_eof] s = (0, s') \<and> fan_group s' = Some (init_flags p) \<and>
      fan_marks s' = map (\<lambda>f. (mark_flags p, final_mask p, Mark_path f)) files \<and>
      fan_marks (usr1_handler sys s') = (if opt_on_mount p then fan_marks s' else [])) \<and>
    (parse_opts atoi bad_opts default_opts = Inl status \<longrightarrow>
      (\<exists>s'. fan_main sys readlink atoi prog bad_opts files reads s = (status, s') \<and> fan_marks s' = [] \<and> fan_responses s' = fan_responses s)) \<and>
    (\<exists>s'. fan_main sys readlink atoi prog opts [] reads s = (1, s') \<and> fan_marks s' = [] \<and> fan_responses s' = fan_responses s)"
proof -
  let ?s1 = "s\<lparr> fan_calls := Suc (Suc (fan_calls s)), fan_group := Some (init_flags p) \<rparr>"
  obtain s2 where s2: "mark_files sys (final_mask p) (mark_flags p) files ?s1 = (True, s2)"
    "fan_marks s2 = map (\<lambda>f. (mark_flags p, final_mask p, Mark_path f)) files" "fan_group s2 = Some (init_flags p)"
    "fan_responses s2 = fan_responses s" "fan_closed s2 = fan_closed s"
    using mark_files_all [OF assms(1), of "final_mask p" "mark_flags p" files ?s1] assms(5) by auto
  have main: "fan_main sys readlink atoi prog opts files reads s = read_loop sys readlink p reads s2" for reads
    using assms(1-3) s2(1) by (simp add: fan_main_def syscall_def Let_def)
  have "fan_marks (usr1_handler sys s2) = (if opt_on_mount p then fan_marks s2 else [])"
    using assms(1) s2(2) by (auto simp: usr1_handler_def syscall_def mark_flags_def filter_empty_conv filter_map comp_def)
  moreover have "\<exists>s'. read_loop sys readlink p (rs @ [Read_eof]) s2 = (0, s') \<and>
      fan_responses s' = fan_responses s @ concat (map answers (events_of rs)) \<and>
      fan_closed s' = fan_closed s @ concat (map closes (events_of rs))"
    using read_loop_runs [OF assms(1,4), of p s2] s2(4,5) by simp
  ultimately show ?thesis using s2(2,3) main assms(1,2,5)
    by (auto simp: fan_main_def syscall_def synopsis_def Let_def)
qed

theorem fan_main_runs_witness:
  "\<exists>s'. fan_main (\<lambda>_. True) (\<lambda>_. Some ''/tmp/f'') (\<lambda>_. 0) ''fanotify'' [(CHR ''p'', [])] [''/tmp'']
       [Wait_usr1, Read_events two_events 48, Read_eof] idle_fan = (0, s') \<and> fan_closed s' = [5, 6] \<and> fan_responses s' = [(5, 1)]"
proof -
  obtain p where "parse_opts (\<lambda>_. 0) [(CHR ''p'', [])] default_opts = Inr p"
    by (simp add: parse_opt_def)
  then show ?thesis
    using fan_main_runs [of "\<lambda>_. True" "\<lambda>_. 0" "[(CHR ''p'', [])]" p "[''/tmp'']" "\<lambda>_. Some ''/tmp/f''" "[Wait_usr1, Read_events two_events 48]"
        idle_fan "''fanotify''" "[]" 0 "[]"]
    by (auto simp: two_events_def idle_fan_def events_of_def answers_def closes_def)
qed

end
