(* ===== verification/Spec2Isabelle.thy ===== *)
theory Spec2Isabelle
  imports Cache_Safety Cache_Races Cache_Handwritten Cache_Test Singly_Queues Doubly_Queues Queue_Threads
    Proc_Fs Logger Mount_Versions Create_Fd Kthread_Examples Kfifo_Example Netlink_User Insmod Rmmod System_Map
    Fanotify_Monitor Fanotify_Run
begin

text \<open>
  A verification library for \<^verbatim>\<open>Linux_Kernel_Code\<close>, a collection of kernel modules and of
  user-space programs around them. The programs share no process; what they share is code:
  the queue macros, the C string functions, the kernel's conventions for errors, memory and
  threads.

  \<^bold>\<open>Conventions.\<close> A C function is a HOL function that takes the state it works on and returns
  it updated, together with the C return value. Error codes are ordinary values. A fault
  (an access through \<^verbatim>\<open>NULL\<close> or outside of an object, use after free, double free, taking a
  spinlock twice, \<^verbatim>\<open>kthread_stop\<close> on something that is no running thread) is \<open>None\<close>, and so
  is a loop that does not end: loops without an obvious bound are \<open>partial_function\<close>s into
  \<open>option\<close>, so that every theorem with a result \<open>Some\<close> is also a proof of termination. Where a
  theorem says which fault happens, in \<open>Insmod\<close>, the fault is a value of its own (\<open>c_fault\<close>, with
  the memory it happened in) and \<open>None\<close> is left for the loop that does not end. There is no fuel
  anywhere. Integers have the width of the C type where it matters (\<open>u32\<close>, \<open>u64\<close>,
  \<open>c_int\<close>, \<open>c_long\<close>); lengths that cannot wrap are \<open>nat\<close>. What lies outside of the repository
  (the red-black tree library, the slab allocator, the clock, system calls) is an argument,
  either a record of functions with a named predicate for its documented behaviour
  (\<open>rb_lib_ok\<close>, \<open>kernel_ok\<close>, \<open>read_ok\<close>) or simply the answer of the call (a flag for an
  allocation, a number of bytes not copied); the witnesses instantiate all of them.

  \<^bold>\<open>The scan cache\<close> (\<^verbatim>\<open>RedBlack_Cache_LRU_Implementation_Kernel\<close>). \<open>RB_Tree\<close> models the macros of
  \<^verbatim>\<open>cache.h\<close> over the tree library and proves them for any comparison function that is an order,
  in the locales \<open>rb_order\<close> and \<open>rb_total_order\<close>. \<open>Scan_Cache\<close> has the two trees, the two
  slabs, the locks and the clock as one record \<open>cache_state\<close> and one definition for each
  function of \<^verbatim>\<open>cache.c\<close>; the comparators are shown to interpret the locales for the records of
  one device. \<open>Cache_Correct\<close> holds the invariant \<open>cache_inv\<close> that ties the two trees
  together, the abstraction to a finite map of inodes (\<open>contents\<close>) and to the order of use
  (\<open>lru_order\<close>), and the effect of every function. \<open>Cache_Properties\<close> states what each operation
  does to the map, initialisation and shutdown, and where this ends: records of different
  devices are not ordered by the comparators, and a duplicate time stamp leaks. \<open>Cache_Spec\<close> is
  the view of the callers: a map with the answers it allows (\<open>cache_spec\<close>), the locale
  \<open>answers_refine\<close> that takes the refinement from calls to runs, and that no lookup succeeds
  without an insertion before it that nothing, evictions included, has undone. \<open>Cache_Safety\<close> drops the restriction to one device: with an
  invariant on the structure of the trees alone (\<open>cache_sound\<close>) it shows that no run faults and
  that at most one object is lost for each insertion that fails. \<open>Cache_Steps\<close> cuts
  the removal, the insertion and the eviction at their lock operations (\<open>remove_step\<close>,
  \<open>insert_step\<close>, \<open>evict_step\<close>), shows that the pieces make up the functions again, and interleaves
  threads (\<open>interleave\<close>). \<open>Owned_Threads\<close> has the contract of threads that own disjoint parts of a
  state, as the locale \<open>owned_threads\<close>; \<open>Cache_Views\<close> has the part of the cache that belongs to an
  inode, the effect of every section on it and an assertion for each position of a thread, and
  \<open>Cache_Threads\<close> interprets the locale: threads which insert and remove different inodes do not
  disturb each other. \<open>Cache_Races\<close> has what happens at the same inode: use after free between two removals and
  between an eviction and a removal, and an LRU record without a scan record between an insertion
  and a removal.
  \<open>Cache_Test\<close> is the module
  \<^verbatim>\<open>rbtree_test.c\<close> on top. \<open>Cache_Handwritten\<close> has the tree functions of the block of
  \<^verbatim>\<open>cache.c\<close> that is no longer compiled and shows that the macros do the same.

  \<^bold>\<open>The queues\<close> (\<^verbatim>\<open>queue.h\<close>, the same file in \<^verbatim>\<open>Kthread_Queue\<close> and in
  \<^verbatim>\<open>Userspace_Queue_using_BSD_Example\<close>). \<open>Queue_Base\<close> has pointer chains, the abstract
  operations on lists and the contracts of a queue as locales: \<open>queue_sim\<close> (each operation
  simulates its list operation; then every sequence of operations does) and \<open>fifo_sim\<close>.
  \<open>Singly_Queues\<close> (\<^verbatim>\<open>SLIST\<close>, \<^verbatim>\<open>STAILQ\<close>), \<open>Doubly_Queues\<close> (\<^verbatim>\<open>DLIST\<close>, \<^verbatim>\<open>CIRCLEQ\<close>, \<^verbatim>\<open>insque\<close>) and
  \<open>Tail_Queue\<close> (\<^verbatim>\<open>TAILQ\<close>) translate every macro, field assignment by field assignment, and
  interpret the locales. \<open>Queue_Threads\<close> uses \<^verbatim>\<open>TAILQ\<close> for the module \<^verbatim>\<open>thread.c\<close>, a state
  machine of a producer, a consumer and the unloading thread, with an invariant over all
  interleavings, also those in which a thread could not be started, and for the user-space
  example.

  \<^bold>\<open>Further modules.\<close> \<open>Mount_Iter\<close> (\<^verbatim>\<open>mount_iter.c\<close>): the walk over the kernel's mount links is
  the preorder of the mount tree and ends, reference counts are balanced, types are listed
  once. \<open>Mount_Versions\<close> has its variants for older and newer kernels with their locks, and
  that they are equivalent. \<open>Proc_Fs\<close> (\<^verbatim>\<open>procfs.c\<close>) with \<open>C_Strings\<close>: printing and parsing of \<^verbatim>\<open>long\<close> values are
  inverse, and what the handlers accept, return and leak. \<open>Logger\<close> (\<^verbatim>\<open>log.h\<close>). \<open>Create_Fd\<close>
  (\<^verbatim>\<open>createfd.c\<close>): the descriptor table and the reference counts of a path; after every sequence
  of creating and closing, the references that are held belong to open files in kernels before
  3.6, while in later ones each creation that gets a descriptor leaves one of each kind behind. \<open>Kthread_Examples\<close>
  (\<^verbatim>\<open>Kernel_Thread\<close>, \<^verbatim>\<open>Kernel_Thread_ReadingFileFromKernel\<close>, \<^verbatim>\<open>GetGroup_pid_From_ThreadId\<close>,
  \<^verbatim>\<open>ReadingFileFromKernelSpace\<close>): one state machine for the thread of all three modules, with the
  contract of a thread function as the locale \<open>thread_module\<close>, interpreted three times: under
  every documented answer of the kernel (\<open>kernel_env\<close>), failures included, when it faults and
  what it does otherwise; the invariant, that a stopped thread returns, and reading a file under
  the address limit.
  \<open>Kfifo_Example\<close> (\<^verbatim>\<open>Kernel_Queue_using_Kernel_API\<close>): which records of the fifo are printed, for
  every capacity.

  \<^bold>\<open>Netlink.\<close> \<open>Netlink\<close> has the messages, their bytes and the kernel module of
  \<^verbatim>\<open>NetLink_Structure_message_Send\<close>: the structure survives the way through its bytes, and the
  life cycle of the multicast thread, with the messages that arrive during the second in which
  unloading sleeps (\<open>unload_window\<close>). \<open>Netlink_Text\<close> has the kernel modules that send text
  (\<^verbatim>\<open>NetLink_Unicast_test\<close>, \<^verbatim>\<open>NetLink_Multicast_test\<close>, \<^verbatim>\<open>NetLink_Mix_unicast_Multicast\<close>), and
  \<open>Netlink_User\<close> the user programs of all four and the exchange between the two sides: every
  message on the wire is well-formed, and what the one side writes is what the other side
  prints, up to the sizes of the buffers.

  \<^bold>\<open>User-space tools.\<close> \<open>Insmod\<close> (\<^verbatim>\<open>insmod_code.c\<close>) has the blocks of the program's memory, with
  \<^verbatim>\<open>malloc\<close>, \<^verbatim>\<open>realloc\<close> and \<^verbatim>\<open>free\<close> as the C library documents them: the doubling read loop
  leaves the whole file in the buffer whatever the reads return, up to the size at which the
  32-bit capacity wraps and the buffer is freed twice.
  \<open>Rmmod\<close> (\<^verbatim>\<open>rmmod_code.c\<close>): module names, the scan of \<^verbatim>\<open>/proc/modules\<close>, and when the kernel is
  entered. \<open>System_Map\<close> (\<^verbatim>\<open>read_system_map.c\<close>, \<^verbatim>\<open>uname_code.c\<close>): the program is equal to a
  reference definition on the lines of the file. \<open>Fanotify\<close> (\<^verbatim>\<open>fanotify.c\<close>), \<open>Fanotify_Run\<close> for
  a whole run of it, and \<open>Fanotify_Monitor\<close> (\<^verbatim>\<open>test_fan.c\<close>): options, event loops, every event
  answered and closed once, and by what the marks end.

  \<^bold>\<open>Shared lemmas.\<close> \<open>Kernel_Prelude\<close> fixes types and error numbers and has the collections
  \<open>heap_simps\<close> and \<open>c_arith\<close> and the lemmas on words, lists and options. \<open>Kernel_Api\<close> has what the
  modules share of the kernel interface: error pointers, printing a buffer, \<^verbatim>\<open>strncpy\<close> and
  \<^verbatim>\<open>memset\<close>.

  \<^bold>\<open>Bounds.\<close> The theorems on the contents of the cache are about one device at a time and
  inode numbers below \<open>2 ^ 63\<close>, which is where the comparators are orders, and about the time stamps that the
  kernel clock can give. The buffer sizes are those of the code: the line buffer (10238
  characters), the name buffer (64) and the value buffer (21) of the tools, the
  lines (1022 characters) and the path (4096) of the symbol file, the records of the fifo
  example (100) and the read buffer of the thread examples (128).

  \<^bold>\<open>Outside contracts.\<close> \<open>kfifo_contract\<close> is what the kernel documents for a fifo of records,
  for any capacity; \<open>time_passes\<close> says that the clock does not stand still, which is what the
  end of the sleeping loop needs. \<open>kernel_env\<close> is what the functions called by the example threads
  may come back with, errors included. Each is shown to hold for a concrete instance.

  \<^bold>\<open>Not modelled.\<close> The text of log messages, except where it is the point; weak memory and the
  waiting inside RCU; the purge of the cache while other threads are inside (it runs when the module is
  unloaded); \<^verbatim>\<open>getopt\<close>, whose result is
  the argument of the option loops; the header \<^verbatim>\<open>fanotify-syscalllib.h\<close>, which only wraps two system
  calls; the messages that \<^verbatim>\<open>test_fan_debugstatement.c\<close> prints in addition to those of \<^verbatim>\<open>test_fan.c\<close>.
  Code that is repeated in several files of the repository (the queue macros, the sleeping macro
  and the unloading of the thread examples) is translated once.
\<close>

end
